(* ===== verification/Finder_Prelude.thy ===== *)
theory Finder_Prelude
  imports Main "HOL-Library.Word" "HOL-Library.AList"
begin

text \<open>
  Shared vocabulary of the development: machine integers, the three ways a Rust call can end,
  checked arithmetic, slices of byte buffers, big- and little-endian encodings, and the bounded
  containers of the \<^verbatim>\<open>heapless\<close> crate as the lists they hold, with the capacity check of every
  insertion written out.

  \<^item> \<^theory_text>\<open>result\<close>: \<open>Ok\<close> and \<open>Err\<close> are Rust's \<^verbatim>\<open>Result\<close>; \<open>Panic\<close> is a panic (a failed
    \<^verbatim>\<open>expect\<close>, an index out of range, an arithmetic overflow with overflow checks on, as in the dev
    profile). \<open>bind_ok\<close> is the question-mark operator in a function without state, \<open>or_return\<close>
    the same operator in a function with \<^verbatim>\<open>&mut self\<close>: it returns early with the state reached so far.
  \<^item> \<^verbatim>\<open>usize\<close> values are natural numbers below \<open>usize_limit\<close>, which is \<open>2 ^ 32\<close> on the ESP32
    targets of the two firmware crates.
\<close>

named_theorems result_simps "rules for results, early returns and conversions of errors"
named_theorems slice_simps "rules for sub-slices and writes into buffers"
named_theorems invariant_intros "preservation of the components' invariants"

subsection \<open>Machine integers\<close>

type_synonym u8 = "8 word"
type_synonym u16 = "16 word"
type_synonym u32 = "32 word"
type_synonym u64 = "64 word"
type_synonym u128 = "128 word"

definition usize_limit :: nat where
  "usize_limit = 2 ^ 32"

definition checked_add :: "'a::len word \<Rightarrow> 'a word \<Rightarrow> 'a word option" where
  "checked_add a b = (if unat a + unat b < 2 ^ LENGTH('a) then Some (a + b) else None)"

definition saturating_sub :: "'a::len word \<Rightarrow> 'a word \<Rightarrow> 'a word" where
  "saturating_sub a b = (if a < b then 0 else a - b)"

definition checked_add_usize :: "nat \<Rightarrow> nat \<Rightarrow> nat option" where
  "checked_add_usize a b = (if a + b < usize_limit then Some (a + b) else None)"

lemma unat_bound: "unat (w :: 'a::len word) < 2 ^ LENGTH('a)"
  by (rule unsigned_less)

lemma checked_add_Some:
  fixes a b c :: "'a::len word"
  assumes "checked_add a b = Some c"
  shows "unat c = unat a + unat b"
  using assms by (auto simp: checked_add_def unat_word_ariths split: if_splits)

lemma checked_add_None:
  fixes a b :: "'a::len word"
  shows "checked_add a b = None \<longleftrightarrow> 2 ^ LENGTH('a) \<le> unat a + unat b"
  by (auto simp: checked_add_def)

lemma unat_saturating_sub: "unat (saturating_sub a b) = unat a - unat b"
  by (simp add: saturating_sub_def word_less_nat_alt unat_sub_if')

lemma checked_add_usize_Some [simp]:
  "checked_add_usize a b = Some c \<longleftrightarrow> a + b < usize_limit \<and> c = a + b"
  by (auto simp: checked_add_usize_def)

lemma checked_add_usize_None [simp]:
  "checked_add_usize a b = None \<longleftrightarrow> usize_limit \<le> a + b"
  by (auto simp: checked_add_usize_def)

lemma checked_add_usize_in [simp]: "a + b < usize_limit \<Longrightarrow> checked_add_usize a b = Some (a + b)"
  by (simp add: checked_add_usize_def)

subsection \<open>Results\<close>

datatype ('a, 'e) result = Ok 'a | Err 'e | Panic

fun bind_ok :: "('a, 'e) result \<Rightarrow> ('a \<Rightarrow> ('b, 'e) result) \<Rightarrow> ('b, 'e) result" where
  "bind_ok (Ok x) k = k x"
| "bind_ok (Err e) k = Err e"
| "bind_ok Panic k = Panic"

fun or_return ::
  "('a, 'e) result \<Rightarrow> 's \<Rightarrow> ('a \<Rightarrow> ('b, 'e) result \<times> 's) \<Rightarrow> ('b, 'e) result \<times> 's" where
  "or_return (Ok x) s k = k x"
| "or_return (Err e) s k = (Err e, s)"
| "or_return Panic s k = (Panic, s)"

fun map_err :: "('e \<Rightarrow> 'f) \<Rightarrow> ('a, 'e) result \<Rightarrow> ('a, 'f) result" where
  "map_err f (Ok x) = Ok x"
| "map_err f (Err e) = Err (f e)"
| "map_err f Panic = Panic"

fun ok_or :: "'a option \<Rightarrow> 'e \<Rightarrow> ('a, 'e) result" where
  "ok_or (Some x) e = Ok x"
| "ok_or None e = Err e"

fun expect :: "'a option \<Rightarrow> ('a, 'e) result" where
  "expect (Some x) = Ok x"
| "expect None = Panic"

fun is_ok :: "('a, 'e) result \<Rightarrow> bool" where
  "is_ok (Ok x) = True"
| "is_ok r = False"

lemma bind_ok_eq_Ok [result_simps]:
  "bind_ok r k = Ok y \<longleftrightarrow> (\<exists>x. r = Ok x \<and> k x = Ok y)"
  by (cases r) auto

lemma bind_ok_OkE:
  assumes "bind_ok r k = Ok y"
  obtains x where "r = Ok x" "k x = Ok y"
  using assms by (cases r) auto

text \<open>
  What holds after a call, for each way it can end; a panic ends the program. The rules follow the code:
  the steps that went well before are facts in the next.
\<close>

definition outcome :: "('a \<Rightarrow> 's \<Rightarrow> bool) \<Rightarrow> ('e \<Rightarrow> 's \<Rightarrow> bool) \<Rightarrow> ('a, 'e) result \<times> 's \<Rightarrow> bool" where
  "outcome Q F p = (case fst p of Ok x \<Rightarrow> Q x (snd p) | Err e \<Rightarrow> F e (snd p) | Panic \<Rightarrow> True)"

lemma outcome_simps [simp]:
  "outcome Q F (Ok x, s) \<longleftrightarrow> Q x s" "outcome Q F (Err e, s) \<longleftrightarrow> F e s" "outcome Q F (Panic, s)"
  by (simp_all add: outcome_def)

lemma outcome_or_return:
  "(\<And>x. r = Ok x \<Longrightarrow> outcome Q F (k x)) \<Longrightarrow> (\<And>e. r = Err e \<Longrightarrow> F e s) \<Longrightarrow> outcome Q F (or_return r s k)"
  by (cases r) simp_all

lemma outcome_prod: "(\<And>a b. p = (a, b) \<Longrightarrow> outcome Q F (k a b)) \<Longrightarrow> outcome Q F (case p of (a, b) \<Rightarrow> k a b)"
  by (cases p) simp

lemma or_return_eq_Ok [result_simps]:
  "or_return r s k = (Ok y, t) \<longleftrightarrow> (\<exists>x. r = Ok x \<and> k x = (Ok y, t))"
  by (cases r) auto

lemma map_err_eq_Ok [result_simps]: "map_err f r = Ok x \<longleftrightarrow> r = Ok x"
  by (cases r) auto

lemma map_err_eq_Err [result_simps]: "map_err f r = Err e \<longleftrightarrow> (\<exists>d. r = Err d \<and> e = f d)"
  by (cases r) auto

lemma map_err_eq_Panic [result_simps]: "map_err f r = Panic \<longleftrightarrow> r = Panic"
  by (cases r) auto

lemma ok_or_eq_Ok [result_simps]: "ok_or x e = Ok y \<longleftrightarrow> x = Some y"
  by (cases x) auto

lemma ok_or_eq_Err [result_simps]: "ok_or x e = Err d \<longleftrightarrow> x = None \<and> d = e"
  by (cases x) auto

lemma ok_or_not_Panic [simp]: "ok_or x e \<noteq> Panic"
  by (cases x) auto

lemma expect_eq_Ok [result_simps]: "expect x = Ok y \<longleftrightarrow> x = Some y"
  by (cases x) auto

lemma is_ok_iff [result_simps]: "is_ok r \<longleftrightarrow> (\<exists>x. r = Ok x)"
  by (cases r) auto

text \<open>The plain operators on \<^verbatim>\<open>usize\<close>, which panic on overflow.\<close>

definition usize_add :: "nat \<Rightarrow> nat \<Rightarrow> (nat, 'e) result" where
  "usize_add a b = (if a + b < usize_limit then Ok (a + b) else Panic)"

definition usize_mul :: "nat \<Rightarrow> nat \<Rightarrow> (nat, 'e) result" where
  "usize_mul a b = (if a * b < usize_limit then Ok (a * b) else Panic)"

definition usize_sub :: "nat \<Rightarrow> nat \<Rightarrow> (nat, 'e) result" where
  "usize_sub a b = (if b \<le> a then Ok (a - b) else Panic)"

text \<open>The same operators on machine words.\<close>

definition word_add :: "'a::len word \<Rightarrow> 'a word \<Rightarrow> ('a word, 'e) result" where
  "word_add a b = expect (checked_add a b)"

definition word_sub :: "'a::len word \<Rightarrow> 'a word \<Rightarrow> ('a word, 'e) result" where
  "word_sub a b = (if b \<le> a then Ok (a - b) else Panic)"

lemma word_sub_in [simp]: "b \<le> a \<Longrightarrow> word_sub a b = Ok (a - b)"
  by (simp add: word_sub_def)

lemma word_add_in: "unat a + unat b < 2 ^ LENGTH('a) \<Longrightarrow> word_add a b = Ok (a + b)" for a b :: "'a::len word"
  by (simp add: word_add_def checked_add_def)

lemma usize_add_eq_Ok [result_simps]: "usize_add a b = Ok c \<longleftrightarrow> a + b < usize_limit \<and> c = a + b"
  by (auto simp: usize_add_def)

lemma usize_mul_eq_Ok [result_simps]: "usize_mul a b = Ok c \<longleftrightarrow> a * b < usize_limit \<and> c = a * b"
  by (auto simp: usize_mul_def)

lemma usize_in [simp]:
  "a + b < usize_limit \<Longrightarrow> usize_add a b = Ok (a + b)"
  "a * b < usize_limit \<Longrightarrow> usize_mul a b = Ok (a * b)"
  "b \<le> a \<Longrightarrow> usize_sub a b = Ok (a - b)"
  by (simp_all add: usize_add_def usize_mul_def usize_sub_def)

subsection \<open>Slices\<close>

text \<open>\<open>slice_get\<close> is \<^verbatim>\<open>get(i)\<close>, \<open>range_get\<close> is \<^verbatim>\<open>get(a..b)\<close>: both answer \<open>None\<close> out of range.\<close>

definition slice_get :: "'a list \<Rightarrow> nat \<Rightarrow> 'a option" where
  "slice_get xs i = (if i < length xs then Some (xs ! i) else None)"

definition range_get :: "'a list \<Rightarrow> nat \<Rightarrow> nat \<Rightarrow> 'a list option" where
  "range_get xs a b = (if a \<le> b \<and> b \<le> length xs then Some (take (b - a) (drop a xs)) else None)"

text \<open>\<open>overwrite xs a ys\<close> is the buffer \<open>xs\<close> after \<open>ys\<close> has been copied into it from index \<open>a\<close> on.\<close>

definition overwrite :: "'a list \<Rightarrow> nat \<Rightarrow> 'a list \<Rightarrow> 'a list" where
  "overwrite xs a ys = take a xs @ ys @ drop (a + length ys) xs"

lemma slice_get_Some [slice_simps]: "slice_get xs i = Some x \<longleftrightarrow> i < length xs \<and> x = xs ! i"
  by (auto simp: slice_get_def)

lemma slice_get_None [slice_simps]: "slice_get xs i = None \<longleftrightarrow> length xs \<le> i"
  by (auto simp: slice_get_def)

lemma range_get_Some [slice_simps]:
  "range_get xs a b = Some ys \<longleftrightarrow> a \<le> b \<and> b \<le> length xs \<and> ys = take (b - a) (drop a xs)"
  by (auto simp: range_get_def)

lemma range_get_None [slice_simps]: "range_get xs a b = None \<longleftrightarrow> \<not> (a \<le> b \<and> b \<le> length xs)"
  by (auto simp: range_get_def)

lemma range_get_length:
  "range_get xs a b = Some ys \<Longrightarrow> length ys = b - a \<and> a \<le> b \<and> b \<le> length xs"
  by (auto simp: range_get_def split: if_splits)

lemma length_overwrite [simp]: "a + length ys \<le> length xs \<Longrightarrow> length (overwrite xs a ys) = length xs"
  by (simp add: overwrite_def)

lemma overwrite_nth:
  assumes "a + length ys \<le> length xs" "i < length xs"
  shows "overwrite xs a ys ! i = (if a \<le> i \<and> i < a + length ys then ys ! (i - a) else xs ! i)"
  using assms by (auto simp: overwrite_def nth_append min_def)

lemma range_get_overwrite_same [simp]:
  "a + length ys \<le> length xs \<Longrightarrow> range_get (overwrite xs a ys) a (a + length ys) = Some ys"
  by (simp add: range_get_def overwrite_def)

lemma range_get_overwrite_before:
  assumes "c \<le> a" "a + length ys \<le> length xs"
  shows "range_get (overwrite xs a ys) b c = range_get xs b c"
proof (cases "b \<le> c")
  case True
  then show ?thesis
    using assms by (auto simp: range_get_def intro!: nth_equalityI) (subst overwrite_nth; auto)+
next
  case False
  then show ?thesis by (simp add: range_get_def)
qed

lemma range_get_overwrite_after:
  assumes "a + length ys \<le> b" "a + length ys \<le> length xs"
  shows "range_get (overwrite xs a ys) b c = range_get xs b c"
  using assms by (auto simp: range_get_def intro!: nth_equalityI) (subst overwrite_nth; auto)+

lemma range_get_overwrite_outside:
  assumes "c \<le> a \<or> a + length ys \<le> b" "a + length ys \<le> length xs"
  shows "range_get (overwrite xs a ys) b c = range_get xs b c"
  using assms range_get_overwrite_before range_get_overwrite_after by metis

lemma overwrite_in_slice:
  assumes "a + length ys \<le> b" "b \<le> length xs"
  shows "overwrite xs a (overwrite (take (b - a) (drop a xs)) 0 ys) = overwrite xs a ys"
proof -
  let ?t = "take (b - a) (drop a xs)"
  have "length ys \<le> length ?t" using assms by simp
  then have "overwrite xs a (overwrite ?t 0 ys) = take a xs @ ys @ drop (length ys) ?t @ drop b xs"
    using assms by (simp add: overwrite_def)
  also have "drop (length ys) ?t @ drop b xs = drop (a + length ys) xs"
    using assms by (metis (no_types, lifting) add_leD1 append_take_drop_id drop_drop drop_take
        le_add_diff_inverse2 diff_diff_left add.commute le_add_diff_inverse)
  finally show ?thesis by (simp add: overwrite_def)
qed

lemma overwrite_overwrite_before:
  assumes "a + length ys + length zs \<le> length xs"
  shows "overwrite (overwrite xs (a + length ys) zs) a ys = overwrite xs a (ys @ zs)"
  using assms by (simp add: overwrite_def ac_simps)

lemma range_get_extend:
  assumes "range_get xs a b = Some ys" "b + length zs \<le> length xs"
  shows "range_get (overwrite xs b zs) a (b + length zs) = Some (ys @ zs)"
proof -
  have ab: "a \<le> b" "ys = take (b - a) (drop a xs)" using assms(1) by (auto simp: range_get_def split: if_splits)
  then have "drop a (overwrite xs b zs) = ys @ zs @ drop (b + length zs) xs"
    using assms(2) by (simp add: overwrite_def drop_take)
  moreover have "length ys = b - a" using ab assms(2) by simp
  ultimately show ?thesis
    using ab assms(2) by (simp add: range_get_def)
qed

subsection \<open>Byte order\<close>

fun be_bytes :: "nat \<Rightarrow> nat \<Rightarrow> u8 list" where
  "be_bytes 0 v = []"
| "be_bytes (Suc n) v = be_bytes n (v div 256) @ [of_nat (v mod 256)]"

definition be_value :: "u8 list \<Rightarrow> nat" where
  "be_value = foldl (\<lambda>acc b. acc * 256 + unat b) 0"

definition to_be_bytes :: "'a::len word \<Rightarrow> u8 list" where
  "to_be_bytes w = be_bytes (LENGTH('a) div 8) (unat w)"

definition from_be_bytes :: "u8 list \<Rightarrow> 'a::len word" where
  "from_be_bytes bs = of_nat (be_value bs)"

definition to_le_bytes :: "'a::len word \<Rightarrow> u8 list" where
  "to_le_bytes w = rev (to_be_bytes w)"

definition from_le_bytes :: "u8 list \<Rightarrow> 'a::len word" where
  "from_le_bytes bs = from_be_bytes (rev bs)"

lemma length_be_bytes [simp]: "length (be_bytes n v) = n"
  by (induction n arbitrary: v) auto

lemma length_to_be_bytes [simp]: "length (to_be_bytes (w :: 'a::len word)) = LENGTH('a) div 8"
  by (simp add: to_be_bytes_def)

lemma length_to_le_bytes [simp]: "length (to_le_bytes (w :: 'a::len word)) = LENGTH('a) div 8"
  by (simp add: to_le_bytes_def)

lemma be_value_snoc [simp]: "be_value (bs @ [b]) = be_value bs * 256 + unat b"
  by (simp add: be_value_def)

lemma be_value_be_bytes: "be_value (be_bytes n v) = v mod 256 ^ n"
proof (induction n arbitrary: v)
  case 0
  then show ?case by (simp add: be_value_def)
next
  case (Suc n)
  have "unat (of_nat (v mod 256) :: u8) = v mod 256"
    by (simp add: unat_of_nat)
  moreover have "v mod (256 * 256 ^ n) = 256 * (v div 256 mod 256 ^ n) + v mod 256"
    by (rule mod_mult2_eq)
  ultimately show ?case by (simp add: Suc.IH)
qed

lemma be_value_bound: "be_value bs < 256 ^ length bs"
proof (induction bs rule: rev_induct)
  case Nil
  then show ?case by (simp add: be_value_def)
next
  case (snoc b bs)
  have "unat b < 256" using unsigned_less [of b] by simp
  with snoc.IH have "be_value bs * 256 + unat b < (be_value bs + 1) * 256" by simp
  also have "\<dots> \<le> 256 ^ length bs * 256" using snoc.IH by (intro mult_le_mono1) simp
  finally show ?case by simp
qed

lemma be_bytes_be_value: "be_bytes (length bs) (be_value bs) = bs"
proof (induction bs rule: rev_induct)
  case Nil
  then show ?case by simp
next
  case (snoc b bs)
  have b: "unat b < 256" using unsigned_less [of b] by simp
  then have "(be_value bs * 256 + unat b) div 256 = be_value bs"
    and "(be_value bs * 256 + unat b) mod 256 = unat b" by auto
  with snoc.IH show ?case by simp
qed

lemma byte_power:
  assumes "8 dvd LENGTH('a::len)"
  shows "(256 :: nat) ^ (LENGTH('a) div 8) = 2 ^ LENGTH('a)"
proof -
  obtain k where "LENGTH('a) = 8 * k" using assms by (elim dvdE)
  then show ?thesis by (simp add: power_mult)
qed

lemma from_to_be_bytes:
  assumes "8 dvd LENGTH('a::len)"
  shows "from_be_bytes (to_be_bytes w) = (w :: 'a word)"
  by (simp add: from_be_bytes_def to_be_bytes_def be_value_be_bytes byte_power [OF assms])

lemma to_from_be_bytes:
  assumes "8 dvd LENGTH('a::len)" "length bs = LENGTH('a) div 8"
  shows "to_be_bytes (from_be_bytes bs :: 'a word) = bs"
proof -
  have "be_value bs < 2 ^ LENGTH('a)"
    using be_value_bound [of bs] assms(2) byte_power [OF assms(1)] by simp
  then have "unat (of_nat (be_value bs) :: 'a word) = be_value bs"
    by (simp add: unat_of_nat)
  then show ?thesis
    using be_bytes_be_value [of bs] assms(2) by (simp add: from_be_bytes_def to_be_bytes_def)
qed

lemma from_to_be_bytes_widths [simp]:
  "from_be_bytes (to_be_bytes (a :: u16)) = a"
  "from_be_bytes (to_be_bytes (b :: u32)) = b"
  "from_be_bytes (to_be_bytes (c :: u64)) = c"
  "from_be_bytes (to_be_bytes (d :: 256 word)) = d"
  by (rule from_to_be_bytes, simp)+

lemma from_to_le_bytes [simp]: "from_le_bytes (to_le_bytes (a :: u16)) = a"
  by (simp add: from_le_bytes_def to_le_bytes_def)

subsection \<open>Bounded containers\<close>

text \<open>
  The code keeps its collections in \<^verbatim>\<open>heapless\<close> containers of a fixed capacity. Their documented
  contract is all the code uses: \<^verbatim>\<open>Vec::push\<close> and \<^verbatim>\<open>Vec::insert\<close> fail when the vector is
  full; \<^verbatim>\<open>FnvIndexMap::insert\<close> replaces the value of a key that is present and fails only when a
  new key meets a full map. A vector is its list of elements, a map its list of entries.
\<close>

definition vec_push :: "nat \<Rightarrow> 'a list \<Rightarrow> 'a \<Rightarrow> 'a list option" where
  "vec_push cap xs x = (if length xs < cap then Some (xs @ [x]) else None)"

definition vec_insert :: "nat \<Rightarrow> 'a list \<Rightarrow> nat \<Rightarrow> 'a \<Rightarrow> 'a list option" where
  "vec_insert cap xs i x = (if length xs < cap then Some (take i xs @ x # drop i xs) else None)"

definition index_map_insert :: "nat \<Rightarrow> 'k \<Rightarrow> 'v \<Rightarrow> ('k \<times> 'v) list \<Rightarrow> ('k \<times> 'v) list option" where
  "index_map_insert cap k v m =
     (if map_of m k \<noteq> None \<or> length m < cap then Some (AList.update k v m) else None)"

lemma vec_push_Some: "vec_push cap xs x = Some ys \<longleftrightarrow> length xs < cap \<and> ys = xs @ [x]"
  by (auto simp: vec_push_def)

lemma vec_push_None: "vec_push cap xs x = None \<longleftrightarrow> cap \<le> length xs"
  by (auto simp: vec_push_def)

lemma index_map_insert_Some:
  "index_map_insert cap k v m = Some m' \<Longrightarrow> map_of m' = (map_of m)(k \<mapsto> v)"
  by (auto simp: index_map_insert_def update_conv' split: if_splits)

lemma index_map_insert_None:
  "index_map_insert cap k v m = None \<longleftrightarrow> map_of m k = None \<and> cap \<le> length m"
  by (auto simp: index_map_insert_def)

lemma length_update_key:
  "length (AList.update k v m) = (if map_of m k = None then Suc (length m) else length m)"
  by (induction m) auto

lemma index_map_insert_length:
  "index_map_insert cap k v m = Some m' \<Longrightarrow> length m \<le> cap \<Longrightarrow> length m' \<le> cap"
  by (auto simp: index_map_insert_def length_update_key split: if_splits)

lemma index_map_insert_distinct:
  "index_map_insert cap k v m = Some m' \<Longrightarrow> distinct (map fst m) \<Longrightarrow> distinct (map fst m')"
  by (auto simp: index_map_insert_def distinct_update split: if_splits)

end
