(* ===== verification/Key_Search.thy ===== *)
theory Key_Search
  imports Finder_Prelude
begin

text \<open>
  \<^verbatim>\<open>slice::binary_search_by_key\<close> of the Rust standard library, which \<^verbatim>\<open>protocol/src/channel.rs\<close>
  calls for every access to its vector of nodes: \<open>Inr i\<close> is Rust's \<open>Ok(i)\<close> (an element with the
  key), \<open>Inl i\<close> its \<open>Err(i)\<close> (where the key would have to be inserted).

  The locale \<open>key_search\<close> is the contract of the search on a vector whose keys are strictly
  increasing. The lookups, insertions and updates of the channel are proved in the locale, and the
  interpretation \<open>by_key\<close> at the end of the theory gives them for the search below.
\<close>

function binary_search_from ::
  "('a \<Rightarrow> 'k::linorder) \<Rightarrow> 'a list \<Rightarrow> 'k \<Rightarrow> nat \<Rightarrow> nat \<Rightarrow> nat + nat" where
  "binary_search_from key xs k lo hi =
     (if lo < hi then
        let mid = lo + (hi - lo) div 2 in
        if key (xs ! mid) < k then binary_search_from key xs k (Suc mid) hi
        else if k < key (xs ! mid) then binary_search_from key xs k lo mid
        else Inr mid
      else Inl lo)"
  by pat_completeness auto
termination
  by (relation "measure (\<lambda>(key, xs, k, lo, hi). hi - lo)") auto

declare binary_search_from.simps [simp del]

definition binary_search_by_key :: "('a \<Rightarrow> 'k::linorder) \<Rightarrow> 'a list \<Rightarrow> 'k \<Rightarrow> nat + nat" where
  "binary_search_by_key key xs k = binary_search_from key xs k 0 (length xs)"

abbreviation keys_sorted :: "('a \<Rightarrow> 'k::linorder) \<Rightarrow> 'a list \<Rightarrow> bool" where
  "keys_sorted key xs \<equiv> sorted_wrt (<) (map key xs)"

subsection \<open>Vectors with strictly increasing keys\<close>

lemma keys_sorted_nth_less:
  "keys_sorted key xs \<Longrightarrow> i < j \<Longrightarrow> j < length xs \<Longrightarrow> key (xs ! i) < key (xs ! j)"
  by (simp add: sorted_wrt_iff_nth_less)

lemma keys_sorted_nth_inj:
  assumes "keys_sorted key xs" "i < length xs" "j < length xs" "key (xs ! i) = key (xs ! j)"
  shows "i = j"
  using keys_sorted_nth_less [OF assms(1), of i j] keys_sorted_nth_less [OF assms(1), of j i] assms
  by (cases i j rule: linorder_cases) auto

lemma keys_sorted_nth_le_mono:
  assumes "keys_sorted key xs" "i \<le> j" "j < length xs"
  shows "key (xs ! i) \<le> key (xs ! j)"
  using keys_sorted_nth_less [OF assms(1), of i j] assms by (cases "i = j") auto

lemma keys_sorted_key_inj:
  assumes "keys_sorted key xs" "x \<in> set xs" "y \<in> set xs" "key x = key y"
  shows "x = y"
  using assms keys_sorted_nth_inj [OF assms(1)] by (metis in_set_conv_nth)

lemma keys_sorted_update:
  assumes "keys_sorted key xs" "i < length xs" "key x = key (xs ! i)"
  shows "keys_sorted key (xs[i := x])"
  using assms by (simp add: map_update) (metis list_update_id nth_map length_map)

lemma set_update_keys_sorted:
  assumes "keys_sorted key xs" "i < length xs"
  shows "set (xs[i := x]) = insert x {y \<in> set xs. key y \<noteq> key (xs ! i)}"
proof -
  have "distinct xs"
    using assms(1) by (metis distinct_map strict_sorted_iff)
  then have "set (xs[i := x]) = insert x (set xs - {xs ! i})"
    using assms(2) by (rule set_update_distinct)
  also have "set xs - {xs ! i} = {y \<in> set xs. key y \<noteq> key (xs ! i)}"
    using keys_sorted_key_inj [OF assms(1)] assms(2) by auto
  finally show ?thesis .
qed

text \<open>\<open>keyed\<close> reads a vector as the map from keys to elements, the reference for every lookup.\<close>

definition keyed :: "('a \<Rightarrow> 'k) \<Rightarrow> 'a list \<Rightarrow> 'k \<Rightarrow> 'a option" where
  "keyed key xs = map_of (map (\<lambda>x. (key x, x)) xs)"

lemma keyed_Some:
  assumes "keys_sorted key xs"
  shows "keyed key xs k = Some x \<longleftrightarrow> x \<in> set xs \<and> key x = k"
proof -
  have "distinct (map fst (map (\<lambda>x. (key x, x)) xs))"
    using assms by (simp add: comp_def strict_sorted_iff)
  then show ?thesis
    by (auto simp: keyed_def map_of_eq_Some_iff)
qed

lemma keyed_None: "keyed key xs k = None \<longleftrightarrow> k \<notin> key ` set xs"
  by (auto simp: keyed_def map_of_eq_None_iff image_iff)

lemma keyed_eqI:
  assumes "keys_sorted key xs" "keys_sorted key ys" "set ys = insert x {y \<in> set xs. key y \<noteq> key x}"
  shows "keyed key ys = (keyed key xs)(key x \<mapsto> x)"
proof
  fix k
  show "keyed key ys k = ((keyed key xs)(key x \<mapsto> x)) k"
  proof (cases "k = key x")
    case True
    then show ?thesis using assms by (simp add: keyed_Some)
  next
    case False
    have "keyed key ys k = Some y \<longleftrightarrow> keyed key xs k = Some y" for y
      using assms False by (auto simp: keyed_Some)
    then show ?thesis using False by (metis fun_upd_other option.exhaust)
  qed
qed

subsection \<open>The contract of the search\<close>

locale key_search =
  fixes search :: "('a \<Rightarrow> 'k::linorder) \<Rightarrow> 'a list \<Rightarrow> 'k \<Rightarrow> nat + nat"
  assumes search_hit:
      "keys_sorted key xs \<Longrightarrow> search key xs k = Inr i \<Longrightarrow> i < length xs \<and> key (xs ! i) = k"
    and search_miss:
      "keys_sorted key xs \<Longrightarrow> search key xs k = Inl i \<Longrightarrow>
        i \<le> length xs \<and> (\<forall>j < i. key (xs ! j) < k) \<and> (\<forall>j. i \<le> j \<longrightarrow> j < length xs \<longrightarrow> k < key (xs ! j))"
begin

lemma search_nth [simp]:
  assumes "keys_sorted key xs" "i < length xs"
  shows "search key xs (key (xs ! i)) = Inr i"
proof (cases "search key xs (key (xs ! i))")
  case (Inl j)
  from search_miss [OF assms(1) Inl] assms(2) show ?thesis
    by (metis less_irrefl linorder_not_less)
next
  case (Inr j)
  from search_hit [OF assms(1) Inr] keys_sorted_nth_inj [OF assms(1) _ assms(2), of j] Inr
  show ?thesis by auto
qed

lemma search_member:
  assumes "keys_sorted key xs" "x \<in> set xs"
  obtains i where "search key xs (key x) = Inr i" "i < length xs" "xs ! i = x"
  using assms search_nth by (metis in_set_conv_nth)

lemma search_absent_iff:
  assumes "keys_sorted key xs"
  shows "(\<exists>i. search key xs k = Inl i) \<longleftrightarrow> k \<notin> key ` set xs"
proof
  assume "\<exists>i. search key xs k = Inl i"
  then obtain i where i: "search key xs k = Inl i" ..
  show "k \<notin> key ` set xs"
  proof
    assume "k \<in> key ` set xs"
    then obtain x where "x \<in> set xs" "k = key x" by blast
    then show False using i search_member [OF assms, of x] by auto
  qed
next
  assume absent: "k \<notin> key ` set xs"
  show "\<exists>i. search key xs k = Inl i"
  proof (cases "search key xs k")
    case (Inr i)
    with search_hit [OF assms Inr] absent show ?thesis by auto
  qed auto
qed

lemma search_key_cases [consumes 1, case_names found absent]:
  assumes "keys_sorted key xs"
  obtains i where "search key xs k = Inr i" "i < length xs" "key (xs ! i) = k" "xs ! i \<in> set xs"
    | i where "search key xs k = Inl i" "i \<le> length xs" "k \<notin> key ` set xs"
proof (cases "search key xs k")
  case (Inl i)
  with search_miss [OF assms Inl] search_absent_iff [OF assms, of k] that(2) show ?thesis by blast
next
  case (Inr i)
  with search_hit [OF assms Inr] that(1) show ?thesis by auto
qed

lemma insert_keeps_sorted:
  assumes "keys_sorted key xs" "search key xs (key x) = Inl i"
  shows "keys_sorted key (take i xs @ x # drop i xs)"
proof -
  note miss = search_miss [OF assms]
  have "\<forall>y \<in> set (take i xs). key y < key x"
    using miss by (auto simp: in_set_conv_nth)
  moreover have above: "\<forall>y \<in> set (drop i xs). key x < key y"
    using miss by (auto simp: in_set_conv_nth)
  moreover have "\<forall>y \<in> set (take i xs). \<forall>z \<in> set (drop i xs). key y < key z"
    using calculation by (meson less_trans)
  moreover have "keys_sorted key (take i xs)" "keys_sorted key (drop i xs)"
    using assms(1) by (simp_all add: sorted_wrt_take sorted_wrt_drop flip: take_map drop_map)
  ultimately show ?thesis
    by (auto simp: sorted_wrt_append)
qed

lemma set_insert_at:
  "set (take i xs @ x # drop i xs) = insert x (set xs)"
proof -
  have "set xs = set (take i xs) \<union> set (drop i xs)"
    by (metis append_take_drop_id set_append)
  then show ?thesis by simp
qed

lemma search_keyed:
  assumes "keys_sorted key xs"
  shows "keyed key xs k = (case search key xs k of Inr i \<Rightarrow> Some (xs ! i) | Inl _ \<Rightarrow> None)"
  using assms
  by (cases rule: search_key_cases [where k = k]) (auto simp: keyed_Some [OF assms] keyed_None)

lemma search_cases [consumes 1, case_names hit miss]:
  assumes "keys_sorted key xs"
  obtains i where "search key xs k = Inr i" "i < length xs" "key (xs ! i) = k"
      "keyed key xs k = Some (xs ! i)"
    | i where "search key xs k = Inl i" "i \<le> length xs" "keyed key xs k = None"
  using assms
  by (cases rule: search_key_cases [where k = k]) (auto simp: keyed_Some [OF assms] keyed_None)

lemma keyed_insert:
  assumes "keys_sorted key xs" "search key xs (key x) = Inl i"
  shows "keyed key (take i xs @ x # drop i xs) = (keyed key xs)(key x \<mapsto> x)"
proof (rule keyed_eqI [OF assms(1) insert_keeps_sorted [OF assms]])
  have "key x \<notin> key ` set xs" using search_absent_iff [OF assms(1)] assms(2) by blast
  then show "set (take i xs @ x # drop i xs) = insert x {y \<in> set xs. key y \<noteq> key x}"
    unfolding set_insert_at by (auto simp: image_iff)
qed

lemma keyed_update:
  assumes "keys_sorted key xs" "search key xs (key x) = Inr i"
  shows "keyed key (xs[i := x]) = (keyed key xs)(key x \<mapsto> x)"
proof -
  have i: "i < length xs" "key (xs ! i) = key x" using search_hit [OF assms] by auto
  have sorted': "keys_sorted key (xs[i := x])"
    using keys_sorted_update [OF assms(1) i(1)] i(2) by simp
  show ?thesis
    by (rule keyed_eqI [OF assms(1) sorted']) (simp add: set_update_keys_sorted [OF assms(1) i(1)] i(2))
qed

end

subsection \<open>The search keeps its contract\<close>

lemma binary_search_from_spec:
  assumes "keys_sorted key xs" "hi \<le> length xs" "lo \<le> hi"
    "\<forall>j < lo. key (xs ! j) < k" "\<forall>j. hi \<le> j \<longrightarrow> j < length xs \<longrightarrow> k < key (xs ! j)"
  shows "case binary_search_from key xs k lo hi of
      Inr i \<Rightarrow> i < length xs \<and> key (xs ! i) = k
    | Inl i \<Rightarrow> i \<le> length xs \<and> (\<forall>j < i. key (xs ! j) < k) \<and>
        (\<forall>j. i \<le> j \<longrightarrow> j < length xs \<longrightarrow> k < key (xs ! j))"
  using assms
proof (induction key xs k lo hi rule: binary_search_from.induct)
  case (1 key xs k lo hi)
  let ?mid = "lo + (hi - lo) div 2"
  have unfold: "binary_search_from key xs k lo hi =
      (if lo < hi then
         if key (xs ! ?mid) < k then binary_search_from key xs k (Suc ?mid) hi
         else if k < key (xs ! ?mid) then binary_search_from key xs k lo ?mid
         else Inr ?mid
       else Inl lo)"
    by (subst binary_search_from.simps) (simp add: Let_def)
  show ?case
  proof (cases "lo < hi")
    case False
    then have "binary_search_from key xs k lo hi = Inl lo" by (simp add: unfold)
    with False "1.prems" show ?thesis by simp
  next
    case True
    then have mid: "?mid < hi" "lo \<le> ?mid" by auto
    consider (less) "key (xs ! ?mid) < k" | (greater) "k < key (xs ! ?mid)" | (equal) "key (xs ! ?mid) = k"
      by (rule linorder_cases)
    then show ?thesis
    proof cases
      case less
      have "\<forall>j < Suc ?mid. key (xs ! j) < k"
      proof (intro allI impI)
        fix j assume "j < Suc ?mid"
        then have "key (xs ! j) \<le> key (xs ! ?mid)"
          using keys_sorted_nth_le_mono [OF "1.prems"(1), of j ?mid] mid "1.prems"(2) by simp
        with less show "key (xs ! j) < k" by simp
      qed
      moreover have "binary_search_from key xs k lo hi = binary_search_from key xs k (Suc ?mid) hi"
        using True less by (simp add: unfold)
      ultimately show ?thesis
        using "1.IH"(1) [OF True refl less] "1.prems" mid by simp
    next
      case greater
      have "\<forall>j. ?mid \<le> j \<longrightarrow> j < length xs \<longrightarrow> k < key (xs ! j)"
        using keys_sorted_nth_le_mono [OF "1.prems"(1), of ?mid] greater by (meson less_le_trans)
      moreover have "binary_search_from key xs k lo hi = binary_search_from key xs k lo ?mid"
        using True greater by (simp add: unfold less_not_sym)
      moreover have "\<not> key (xs ! ?mid) < k" using greater by simp
      ultimately show ?thesis
        using "1.IH"(2) [OF True refl _ greater] "1.prems" mid by simp
    next
      case equal
      then have "binary_search_from key xs k lo hi = Inr ?mid" using True by (simp add: unfold)
      then show ?thesis using equal mid "1.prems"(2) by simp
    qed
  qed
qed

interpretation by_key: key_search binary_search_by_key
proof
  fix key :: "'a \<Rightarrow> 'k::linorder" and xs k i
  assume sorted: "keys_sorted key xs"
  note spec = binary_search_from_spec [OF sorted order_refl, of 0 k]
  show "i < length xs \<and> key (xs ! i) = k" if "binary_search_by_key key xs k = Inr i"
    using spec that by (simp add: binary_search_by_key_def)
  show "i \<le> length xs \<and> (\<forall>j < i. key (xs ! j) < k) \<and>
      (\<forall>j. i \<le> j \<longrightarrow> j < length xs \<longrightarrow> k < key (xs ! j))"
    if "binary_search_by_key key xs k = Inl i"
    using spec that by (simp add: binary_search_by_key_def)
qed

end
