(* ===== verification/Ids.thy ===== *)
theory Ids
  imports Finder_Prelude "HOL-Library.List_Lexorder"
begin

text \<open>
  The identifiers of \<^verbatim>\<open>protocol/src/crypto.rs\<close>. An \<^verbatim>\<open>Id\<close> is an array of 32 bytes; it is kept as
  the 256-bit word whose big-endian bytes are that array, so that every value of the type is an
  array of exactly 32 bytes. Equality and the derived order are those of the array:
  \<open>ident_le_lexicographic\<close> shows that the order of the words is the lexicographic order of the bytes,
  which is what \<^verbatim>\<open>derive(Ord)\<close> gives the code.
\<close>

definition SHA256_SIZE :: nat where
  "SHA256_SIZE = 32"

datatype ident = Id (id_data: "256 word")

definition id_to_be_bytes :: "ident \<Rightarrow> u8 list" where
  "id_to_be_bytes i = to_be_bytes (id_data i)"

text \<open>\<^verbatim>\<open>From<u8>\<close> and \<^verbatim>\<open>From<[u8; 32]>\<close>; the second is applied to lists of 32 bytes only.\<close>

definition id_from_u8 :: "u8 \<Rightarrow> ident" where
  "id_from_u8 value = Id (from_be_bytes (replicate SHA256_SIZE value))"

definition id_from_bytes :: "u8 list \<Rightarrow> ident" where
  "id_from_bytes value = Id (from_be_bytes value)"

datatype node_id = NodeId (node_ident: ident)
datatype envelope_id = EnvelopeId (envelope_ident: ident)
datatype channel_id = ChannelId (channel_ident: ident)

definition node_id_new :: "ident \<Rightarrow> node_id" where
  "node_id_new value = NodeId value"

definition envelope_id_new :: "ident \<Rightarrow> envelope_id" where
  "envelope_id_new value = EnvelopeId value"

definition channel_id_new :: "ident \<Rightarrow> channel_id" where
  "channel_id_new value = ChannelId value"

definition node_id_to_be_bytes :: "node_id \<Rightarrow> u8 list" where
  "node_id_to_be_bytes n = id_to_be_bytes (node_ident n)"

definition envelope_id_to_be_bytes :: "envelope_id \<Rightarrow> u8 list" where
  "envelope_id_to_be_bytes e = id_to_be_bytes (envelope_ident e)"

definition channel_id_to_be_bytes :: "channel_id \<Rightarrow> u8 list" where
  "channel_id_to_be_bytes c = id_to_be_bytes (channel_ident c)"

subsection \<open>The derived orders\<close>

instantiation ident :: linorder
begin

definition less_eq_ident :: "ident \<Rightarrow> ident \<Rightarrow> bool" where
  "a \<le> b \<longleftrightarrow> id_data a \<le> id_data b"

definition less_ident :: "ident \<Rightarrow> ident \<Rightarrow> bool" where
  "a < b \<longleftrightarrow> id_data a < id_data b"

instance
  by standard (auto simp: less_eq_ident_def less_ident_def intro: ident.expand)

end

instantiation node_id :: linorder
begin

definition less_eq_node_id :: "node_id \<Rightarrow> node_id \<Rightarrow> bool" where
  "a \<le> b \<longleftrightarrow> node_ident a \<le> node_ident b"

definition less_node_id :: "node_id \<Rightarrow> node_id \<Rightarrow> bool" where
  "a < b \<longleftrightarrow> node_ident a < node_ident b"

instance
  by standard (auto simp: less_eq_node_id_def less_node_id_def intro: node_id.expand)

end

instantiation envelope_id :: linorder
begin

definition less_eq_envelope_id :: "envelope_id \<Rightarrow> envelope_id \<Rightarrow> bool" where
  "a \<le> b \<longleftrightarrow> envelope_ident a \<le> envelope_ident b"

definition less_envelope_id :: "envelope_id \<Rightarrow> envelope_id \<Rightarrow> bool" where
  "a < b \<longleftrightarrow> envelope_ident a < envelope_ident b"

instance
  by standard (auto simp: less_eq_envelope_id_def less_envelope_id_def intro: envelope_id.expand)

end

lemmas id_order_defs =
  less_eq_ident_def less_ident_def less_eq_node_id_def less_node_id_def
  less_eq_envelope_id_def less_envelope_id_def

subsection \<open>Bytes of identifiers\<close>

lemma length_id_to_be_bytes [simp]: "length (id_to_be_bytes i) = SHA256_SIZE"
  by (simp add: id_to_be_bytes_def SHA256_SIZE_def)

lemma length_node_id_to_be_bytes [simp]: "length (node_id_to_be_bytes n) = SHA256_SIZE"
  by (simp add: node_id_to_be_bytes_def)

lemma length_channel_id_to_be_bytes [simp]: "length (channel_id_to_be_bytes c) = SHA256_SIZE"
  by (simp add: channel_id_to_be_bytes_def)

lemma id_from_to_bytes [simp]: "id_from_bytes (id_to_be_bytes i) = i"
  by (simp add: id_from_bytes_def id_to_be_bytes_def)

lemma id_to_from_bytes:
  "length bs = SHA256_SIZE \<Longrightarrow> id_to_be_bytes (id_from_bytes bs) = bs"
  by (simp add: id_to_be_bytes_def id_from_bytes_def SHA256_SIZE_def to_from_be_bytes)

lemma be_value_zeros: "be_value (replicate n 0) = 0"
  by (induction n) (simp_all add: be_value_def)

lemma id_from_u8_0 [simp]: "id_from_u8 0 = Id 0"
  by (simp add: id_from_u8_def from_be_bytes_def be_value_zeros)

lemma envelope_id_0_least [simp]: "EnvelopeId (Id 0) \<le> e"
  by (simp add: id_order_defs)

lemma be_value_append: "be_value (xs @ ys) = be_value xs * 256 ^ length ys + be_value ys"
  by (induction ys rule: rev_induct)
    (simp_all add: be_value_def algebra_simps flip: append_assoc)

lemma be_value_Cons: "be_value (x # xs) = unat x * 256 ^ length xs + be_value xs"
  using be_value_append [of "[x]" xs] by (simp add: be_value_def)

lemma be_value_less_iff:
  "length xs = length ys \<Longrightarrow> be_value xs < be_value ys \<longleftrightarrow> xs < ys"
proof (induction xs ys rule: list_induct2)
  case Nil
  then show ?case by (simp add: be_value_def)
next
  case (Cons x xs y ys)
  let ?B = "256 ^ length xs :: nat"
  have bounds: "be_value xs < ?B" "be_value ys < ?B"
    using be_value_bound [of xs] be_value_bound [of ys] Cons.hyps by simp_all
  have step: "unat x * ?B + be_value xs < unat y * ?B + be_value ys" if "unat x < unat y"
  proof -
    have "unat x * ?B + be_value xs < Suc (unat x) * ?B" using bounds by simp
    also have "\<dots> \<le> unat y * ?B" using that by (intro mult_le_mono1) simp
    finally show ?thesis by simp
  qed
  have step': "unat y * ?B + be_value ys < unat x * ?B + be_value xs" if "unat y < unat x"
  proof -
    have "unat y * ?B + be_value ys < Suc (unat y) * ?B" using bounds by simp
    also have "\<dots> \<le> unat x * ?B" using that by (intro mult_le_mono1) simp
    finally show ?thesis by simp
  qed
  consider "x < y" | "y < x" | "x = y" by (rule linorder_cases)
  then show ?case
    using step step' Cons by cases (auto simp: be_value_Cons word_less_nat_alt)
qed

lemma ident_le_lexicographic: "a \<le> b \<longleftrightarrow> id_to_be_bytes a \<le> id_to_be_bytes b"
proof -
  have as_number: "be_value (id_to_be_bytes i) = unat (id_data i)" for i :: ident
  proof -
    have "unat (id_data i) < 2 ^ LENGTH(256)" by (rule unsigned_less)
    then show ?thesis by (simp add: id_to_be_bytes_def to_be_bytes_def be_value_be_bytes)
  qed
  have "a \<le> b \<longleftrightarrow> \<not> be_value (id_to_be_bytes b) < be_value (id_to_be_bytes a)"
    by (simp add: as_number less_eq_ident_def word_le_nat_alt linorder_not_less)
  then show ?thesis
    by (simp add: be_value_less_iff linorder_not_less)
qed

subsection \<open>How identifiers are printed\<close>

text \<open>
  \<^verbatim>\<open>{:x?}\<close> of a byte is its hexadecimal number without leading zero, so the printed form of an identifier does
  not determine it, although logs are read to tell identifiers apart.
\<close>

definition hex_of_byte :: "u8 \<Rightarrow> string" where
  "hex_of_byte b =
     (let digit = (\<lambda>n. ''0123456789abcdef'' ! n) in
      if b < 16 then [digit (unat b)] else [digit (unat b div 16), digit (unat b mod 16)])"

definition ident_fmt :: "ident \<Rightarrow> string" where
  "ident_fmt i = ''Id: '' @ concat (map hex_of_byte (id_to_be_bytes i))"

definition channel_id_fmt :: "channel_id \<Rightarrow> string" where
  "channel_id_fmt c = ''ChannelId: '' @ concat (map hex_of_byte (channel_id_to_be_bytes c))"

lemma printed_ids_ambiguous:
  "\<exists>a b. a \<noteq> b \<and> ident_fmt a = ident_fmt b \<and> channel_id_fmt (ChannelId a) = channel_id_fmt (ChannelId b)"
proof -
  let ?a = "id_from_bytes (1 # 0x23 # replicate 30 0)" and ?b = "id_from_bytes (0x12 # 3 # replicate 30 0)"
  have bytes: "id_to_be_bytes ?a = 1 # 0x23 # replicate 30 0" "id_to_be_bytes ?b = 0x12 # 3 # replicate 30 0"
    by (simp_all add: id_to_from_bytes SHA256_SIZE_def)
  then have "?a \<noteq> ?b" by fastforce
  moreover have "ident_fmt ?a = ident_fmt ?b" "channel_id_fmt (ChannelId ?a) = channel_id_fmt (ChannelId ?b)"
    by (simp_all add: ident_fmt_def channel_id_fmt_def channel_id_to_be_bytes_def bytes hex_of_byte_def Let_def)
  ultimately show ?thesis by blast
qed

end
