(* ===== verification/Channel.thy ===== *)
theory Channel
  imports Key_Search Ids
begin

text \<open>
  \<^verbatim>\<open>protocol/src/channel.rs\<close>: the state a device keeps of a channel, one record per known node in a
  vector sorted by node id, and the rules by which a message is addressed, checked and received.
  Fields and constructors carry the code's names; a prefix is added where two structs of the code
  share a name (\<open>ns_\<close> for \<^verbatim>\<open>NodeSequence\<close>, \<open>msg_\<close> for \<^verbatim>\<open>Message\<close>).

  The first part translates the operations. The second part gives each its specification in terms
  of \<open>clock\<close>, the map from known nodes to the sequence of their last message: \<open>acceptable\<close> says
  when a message may be received, and \<open>channel_inv\<close> is what every operation keeps.
\<close>

subsection \<open>Data\<close>

datatype recipient = Node node_id | Channel channel_id

fun recipient_to_be_bytes :: "recipient \<Rightarrow> u8 list" where
  "recipient_to_be_bytes (Node node_id) = node_id_to_be_bytes node_id"
| "recipient_to_be_bytes (Channel channel_id) = channel_id_to_be_bytes channel_id"

record 't message =
  cause :: node_id
  sender_last :: u64
  msg_sequence :: u64
  msg_data :: 't

record 'p node_sequence =
  public_key :: 'p
  ns_node :: node_id
  ns_id :: envelope_id
  first_sequence :: u64
  ns_sequence :: u64

datatype channel_error =
    ClientMax nat
  | MissingFromSender (missing_node: node_id) (missing_have: u64) (missing_missing: u64)
  | SequenceOverFlow
  | Channel_Unreachable
  | NodeExists
  | UnknownNode
  | AlreadyReceived

record 'p channel_state =
  nodes :: "'p node_sequence list"
  newest :: node_id

subsection \<open>Operations\<close>

definition new_record :: "node_id \<Rightarrow> 'p \<Rightarrow> 'p node_sequence" where
  "new_record node node_key =
     \<lparr>public_key = node_key, ns_node = node, ns_id = envelope_id_new (id_from_u8 0),
      first_sequence = 0, ns_sequence = 0\<rparr>"

definition channel_new :: "nat \<Rightarrow> node_id \<Rightarrow> 'p \<Rightarrow> ('p channel_state, channel_error) result" where
  "channel_new MAX_NODES initial node_key =
     (case vec_push MAX_NODES [] (new_record initial node_key) of
        None \<Rightarrow> Err (ClientMax MAX_NODES)
      | Some node_vec \<Rightarrow> Ok \<lparr>nodes = node_vec, newest = initial\<rparr>)"

definition list_nodes :: "'p channel_state \<Rightarrow> 'p node_sequence list" where
  "list_nodes self = nodes self"

definition add_node ::
  "nat \<Rightarrow> 'p channel_state \<Rightarrow> node_id \<Rightarrow> 'p \<Rightarrow> (unit, channel_error) result \<times> 'p channel_state" where
  "add_node MAX_NODES self node node_key =
     (case binary_search_by_key ns_node (nodes self) node of
        Inr index \<Rightarrow> (Err NodeExists, self)
      | Inl index \<Rightarrow>
          (case vec_insert MAX_NODES (nodes self) index (new_record node node_key) of
             None \<Rightarrow> (Err (ClientMax MAX_NODES), self)
           | Some nodes' \<Rightarrow> (Ok (), self\<lparr>nodes := nodes'\<rparr>)))"

definition get_node_key :: "'p channel_state \<Rightarrow> node_id \<Rightarrow> ('p, channel_error) result" where
  "get_node_key self node =
     (case binary_search_by_key ns_node (nodes self) node of
        Inr index \<Rightarrow>
          bind_ok (ok_or (slice_get (nodes self) index) Channel_Unreachable)
            (\<lambda>record. Ok (public_key record))
      | Inl index \<Rightarrow> Err UnknownNode)"

definition get_current :: "'p channel_state \<Rightarrow> ('p node_sequence, channel_error) result" where
  "get_current self =
     (case binary_search_by_key ns_node (nodes self) (newest self) of
        Inl _ \<Rightarrow> Err Channel_Unreachable
      | Inr pos \<Rightarrow> ok_or (slice_get (nodes self) pos) Channel_Unreachable)"

definition check_receive_worker ::
  "'p channel_state \<Rightarrow> node_id \<Rightarrow> 't message \<Rightarrow> envelope_id \<Rightarrow> (nat, channel_error) result" where
  "check_receive_worker self from message eid =
     (case binary_search_by_key ns_node (nodes self) from of
        Inl _ \<Rightarrow> Err UnknownNode
      | Inr index \<Rightarrow>
          bind_ok (ok_or (slice_get (nodes self) index) Channel_Unreachable) (\<lambda>record.
            if ns_sequence record \<ge> msg_sequence message then Err AlreadyReceived
            else if ns_sequence record \<noteq> sender_last message then
              Err (MissingFromSender from (ns_sequence record) (sender_last message))
            else
              let cause_target = saturating_sub (msg_sequence message) 1 in
              case binary_search_by_key ns_node (nodes self) (cause message) of
                Inr cause_index \<Rightarrow>
                  bind_ok (ok_or (slice_get (nodes self) cause_index) Channel_Unreachable) (\<lambda>cause_record.
                    if ns_sequence cause_record < cause_target then
                      Err (MissingFromSender (ns_node cause_record) (ns_sequence cause_record) cause_target)
                    else Ok index)
              | Inl _ \<Rightarrow>
                  if cause_target \<noteq> 0 then Err (MissingFromSender (cause message) 0 cause_target)
                  else Ok index))"

definition check_receive ::
  "'p channel_state \<Rightarrow> node_id \<Rightarrow> 't message \<Rightarrow> envelope_id \<Rightarrow> (unit, channel_error) result" where
  "check_receive self from envelope eid =
     bind_ok (check_receive_worker self from envelope eid) (\<lambda>_. Ok ())"

definition receive ::
  "'p channel_state \<Rightarrow> node_id \<Rightarrow> 't message \<Rightarrow> envelope_id \<Rightarrow>
     (u64, channel_error) result \<times> 'p channel_state" where
  "receive self from message eid =
     or_return (check_receive_worker self from message eid) self (\<lambda>index.
     or_return (get_current self) self (\<lambda>current.
       let (max_sequence, self) =
         (if ns_sequence current < msg_sequence message
             \<or> (ns_sequence current = msg_sequence message \<and> ns_id current < eid)
          then (msg_sequence message, self\<lparr>newest := from\<rparr>)
          else (ns_sequence current, self))
       in
       or_return (ok_or (slice_get (nodes self) index) Channel_Unreachable) self (\<lambda>record_mut.
         let record_mut = record_mut\<lparr>ns_sequence := msg_sequence message\<rparr>;
             record_mut = record_mut\<lparr>ns_id := eid\<rparr>;
             record_mut =
               (if first_sequence record_mut = 0
                then record_mut\<lparr>first_sequence := msg_sequence message\<rparr> else record_mut)
         in (Ok max_sequence, self\<lparr>nodes := (nodes self)[index := record_mut]\<rparr>))))"

definition address ::
  "'p channel_state \<Rightarrow> node_id \<Rightarrow> 't \<Rightarrow> ('t message, channel_error) result" where
  "address self from data =
     (case binary_search_by_key ns_node (nodes self) from of
        Inl _ \<Rightarrow> Err UnknownNode
      | Inr index \<Rightarrow>
          bind_ok (expect (slice_get (nodes self) index)) (\<lambda>record.
          bind_ok (get_current self) (\<lambda>current.
            let last_sequence =
              (if ns_sequence record > ns_sequence current then ns_sequence record
               else ns_sequence current)
            in
            bind_ok (ok_or (checked_add last_sequence 1) SequenceOverFlow) (\<lambda>sequence.
              Ok \<lparr>cause = ns_node current, sender_last = ns_sequence record,
                  msg_sequence = sequence, msg_data = data\<rparr>))))"

subsection \<open>What the operations mean\<close>

text \<open>
  \<open>node_record\<close> and \<open>clock\<close> forget the vector: the record, and the last sequence, of a node.
  \<open>receive_verdict\<close> is the rule for receiving, stated over the clock alone.
\<close>

definition node_record :: "'p channel_state \<Rightarrow> node_id \<Rightarrow> 'p node_sequence option" where
  "node_record self = keyed ns_node (nodes self)"

definition clock :: "'p channel_state \<Rightarrow> node_id \<Rightarrow> u64 option" where
  "clock self n = map_option ns_sequence (node_record self n)"

definition known_sequence :: "(node_id \<Rightarrow> u64 option) \<Rightarrow> node_id \<Rightarrow> u64" where
  "known_sequence clk n = (case clk n of None \<Rightarrow> 0 | Some s \<Rightarrow> s)"

definition receive_verdict ::
  "(node_id \<Rightarrow> u64 option) \<Rightarrow> node_id \<Rightarrow> 't message \<Rightarrow> (unit, channel_error) result" where
  "receive_verdict clk from m =
     (case clk from of
        None \<Rightarrow> Err UnknownNode
      | Some have \<Rightarrow>
          if msg_sequence m \<le> have then Err AlreadyReceived
          else if have \<noteq> sender_last m then Err (MissingFromSender from have (sender_last m))
          else if known_sequence clk (cause m) < saturating_sub (msg_sequence m) 1
          then Err (MissingFromSender (cause m) (known_sequence clk (cause m))
                 (saturating_sub (msg_sequence m) 1))
          else Ok ())"

definition acceptable :: "(node_id \<Rightarrow> u64 option) \<Rightarrow> node_id \<Rightarrow> 't message \<Rightarrow> bool" where
  "acceptable clk from m \<longleftrightarrow>
     clk from = Some (sender_last m) \<and> sender_last m < msg_sequence m \<and>
     unat (msg_sequence m) \<le> Suc (unat (known_sequence clk (cause m)))"

text \<open>The record of the sender after a message has been received.\<close>

definition note_received :: "'t message \<Rightarrow> envelope_id \<Rightarrow> 'p node_sequence \<Rightarrow> 'p node_sequence" where
  "note_received m eid r =
     r\<lparr>ns_sequence := msg_sequence m, ns_id := eid,
       first_sequence := (if first_sequence r = 0 then msg_sequence m else first_sequence r)\<rparr>"

lemma note_received_simps [simp]:
  "ns_node (note_received m eid r) = ns_node r"
  "public_key (note_received m eid r) = public_key r"
  "ns_sequence (note_received m eid r) = msg_sequence m"
  "ns_id (note_received m eid r) = eid"
  by (simp_all add: note_received_def)

lemma new_record_simps [simp]:
  "ns_node (new_record node node_key) = node"
  "public_key (new_record node node_key) = node_key"
  "ns_sequence (new_record node node_key) = 0"
  "first_sequence (new_record node node_key) = 0"
  "ns_id (new_record node node_key) = EnvelopeId (Id 0)"
  by (simp_all add: new_record_def envelope_id_new_def)

definition not_newer :: "'p node_sequence \<Rightarrow> 'p node_sequence \<Rightarrow> bool" where
  "not_newer r c \<longleftrightarrow>
     ns_sequence r < ns_sequence c \<or> (ns_sequence r = ns_sequence c \<and> ns_id r \<le> ns_id c)"

definition channel_inv :: "nat \<Rightarrow> 'p channel_state \<Rightarrow> bool" where
  "channel_inv MAX_NODES self \<longleftrightarrow>
     keys_sorted ns_node (nodes self) \<and> length (nodes self) \<le> MAX_NODES \<and>
     (\<exists>c \<in> set (nodes self). ns_node c = newest self \<and> (\<forall>r \<in> set (nodes self). not_newer r c)) \<and>
     (\<forall>r \<in> set (nodes self). first_sequence r \<le> ns_sequence r \<and>
        (first_sequence r = 0 \<longleftrightarrow> ns_sequence r = 0))"

lemma channel_inv_sorted: "channel_inv M self \<Longrightarrow> keys_sorted ns_node (nodes self)"
  by (simp add: channel_inv_def)

lemma channel_inv_list_nodes: "channel_inv M st \<Longrightarrow> length (list_nodes st) \<le> M"
  by (simp add: channel_inv_def list_nodes_def)

lemma receive_verdict_Ok: "receive_verdict clk from m = Ok () \<longleftrightarrow> acceptable clk from m"
proof -
  have "\<not> known_sequence clk (cause m) < saturating_sub (msg_sequence m) 1 \<longleftrightarrow>
      unat (msg_sequence m) \<le> Suc (unat (known_sequence clk (cause m)))"
    by (simp add: word_less_nat_alt unat_saturating_sub) arith
  then show ?thesis
    by (auto simp: receive_verdict_def acceptable_def linorder_not_le split: option.splits)
qed

lemma receive_verdict_not_Panic [simp]: "receive_verdict clk from m \<noteq> Panic"
  by (auto simp: receive_verdict_def split: option.splits)

subsection \<open>The operations against their meaning\<close>

lemma check_receive_worker_verdict:
  assumes "keys_sorted ns_node (nodes self)"
  shows "check_receive_worker self from m eid =
    (case receive_verdict (clock self) from m of
       Err e \<Rightarrow> Err e | Panic \<Rightarrow> Panic
     | Ok _ \<Rightarrow> (case binary_search_by_key ns_node (nodes self) from of
         Inr i \<Rightarrow> Ok i | Inl _ \<Rightarrow> Err UnknownNode))"
  using assms
proof (cases rule: by_key.search_cases [where k = "from"])
  case (miss i)
  then show ?thesis
    by (simp add: check_receive_worker_def receive_verdict_def clock_def node_record_def)
next
  case (hit i)
  note sender = this
  from assms show ?thesis
  proof (cases rule: by_key.search_cases [where k = "cause m"])
    case (miss j)
    with sender show ?thesis
      by (auto simp: check_receive_worker_def receive_verdict_def clock_def node_record_def
          slice_get_def known_sequence_def Let_def word_neq_0_conv)
  next
    case (hit j)
    with sender show ?thesis
      by (auto simp: check_receive_worker_def receive_verdict_def clock_def node_record_def
          slice_get_def known_sequence_def Let_def)
  qed
qed

lemma check_receive_verdict:
  assumes "keys_sorted ns_node (nodes self)"
  shows "check_receive self from m eid = receive_verdict (clock self) from m"
  using assms
proof (cases rule: by_key.search_cases [where k = "from"])
  case (hit i)
  then show ?thesis
    by (cases "receive_verdict (clock self) from m")
      (simp_all add: check_receive_def check_receive_worker_verdict [OF assms])
next
  case (miss i)
  then have "receive_verdict (clock self) from m = Err UnknownNode"
    by (simp add: receive_verdict_def clock_def node_record_def)
  then show ?thesis by (simp add: check_receive_def check_receive_worker_verdict [OF assms])
qed

lemma get_current_newest:
  assumes "channel_inv M self"
  obtains c where "get_current self = Ok c" "c \<in> set (nodes self)" "ns_node c = newest self"
    "\<forall>r \<in> set (nodes self). not_newer r c"
proof -
  from assms obtain c where c: "c \<in> set (nodes self)" "ns_node c = newest self"
      "\<forall>r \<in> set (nodes self). not_newer r c"
    by (auto simp: channel_inv_def)
  from by_key.search_member [OF channel_inv_sorted [OF assms] c(1)] obtain i
    where "binary_search_by_key ns_node (nodes self) (newest self) = Inr i"
      "i < length (nodes self)" "nodes self ! i = c" using c(2) by auto
  then have "get_current self = Ok c" by (simp add: get_current_def slice_get_def)
  with c that show thesis by blast
qed

text \<open>The shape of a successful and of a failed receive.\<close>

lemma receive_rejected:
  assumes "keys_sorted ns_node (nodes self)" "receive_verdict (clock self) from m = Err e"
  shows "receive self from m eid = (Err e, self)"
  by (simp add: receive_def check_receive_worker_verdict assms)

lemma receive_accepted:
  assumes inv: "channel_inv M self" and acc: "acceptable (clock self) from m"
  obtains i c where
    "binary_search_by_key ns_node (nodes self) from = Inr i" "i < length (nodes self)"
    "ns_node (nodes self ! i) = from" "ns_sequence (nodes self ! i) = sender_last m"
    "c \<in> set (nodes self)" "ns_node c = newest self" "\<forall>r \<in> set (nodes self). not_newer r c"
    "receive self from m eid =
      (Ok (max (ns_sequence c) (msg_sequence m)),
       \<lparr>nodes = (nodes self)[i := note_received m eid (nodes self ! i)],
        newest = (if not_newer (note_received m eid (nodes self ! i)) c then newest self else from)\<rparr>)"
proof -
  note sorted = channel_inv_sorted [OF inv]
  obtain c where c: "get_current self = Ok c" "c \<in> set (nodes self)" "ns_node c = newest self"
      "\<forall>r \<in> set (nodes self). not_newer r c"
    using get_current_newest [OF inv] .
  have known: "clock self from = Some (sender_last m)" using acc by (simp add: acceptable_def)
  from sorted obtain i where i: "binary_search_by_key ns_node (nodes self) from = Inr i"
      "i < length (nodes self)" "ns_node (nodes self ! i) = from"
      "keyed ns_node (nodes self) from = Some (nodes self ! i)"
    using known by (cases rule: by_key.search_cases [where k = "from"])
      (auto simp: clock_def node_record_def)
  from i(4) known have last: "ns_sequence (nodes self ! i) = sender_last m"
    by (simp add: clock_def node_record_def)
  have check: "check_receive_worker self from m eid = Ok i"
    using i(1) acc by (simp add: check_receive_worker_verdict [OF sorted] flip: receive_verdict_Ok)
  have newer: "(ns_sequence c < msg_sequence m \<or> ns_sequence c = msg_sequence m \<and> ns_id c < eid)
      \<longleftrightarrow> \<not> not_newer (note_received m eid (nodes self ! i)) c"
    by (auto simp: not_newer_def note_received_def)
  have "receive self from m eid =
      (Ok (max (ns_sequence c) (msg_sequence m)),
       \<lparr>nodes = (nodes self)[i := note_received m eid (nodes self ! i)],
        newest = (if not_newer (note_received m eid (nodes self ! i)) c then newest self else from)\<rparr>)"
    using i(2) unfolding receive_def check c(1) or_return.simps newer
    by (auto simp: slice_get_def note_received_def not_newer_def max_def Let_def)
  with that i last c show thesis by blast
qed

subsection \<open>The invariant\<close>

definition current_sequence :: "'p channel_state \<Rightarrow> u64" where
  "current_sequence self = known_sequence (clock self) (newest self)"

definition channel_keys :: "'p channel_state \<Rightarrow> node_id \<Rightarrow> 'p option" where
  "channel_keys self n = map_option public_key (node_record self n)"

lemma clock_Some:
  assumes "keys_sorted ns_node (nodes self)"
  shows "clock self n = Some s \<longleftrightarrow> (\<exists>r \<in> set (nodes self). ns_node r = n \<and> ns_sequence r = s)"
  by (auto simp: clock_def node_record_def keyed_Some [OF assms])

lemma current_sequence_newest:
  assumes "keys_sorted ns_node (nodes self)" "c \<in> set (nodes self)" "ns_node c = newest self"
  shows "current_sequence self = ns_sequence c"
proof -
  have "clock self (newest self) = Some (ns_sequence c)"
    using assms by (auto simp: clock_Some [OF assms(1)])
  then show ?thesis by (simp add: current_sequence_def known_sequence_def)
qed

lemma clock_le_current:
  assumes "channel_inv M self" "clock self n = Some s"
  shows "s \<le> current_sequence self"
proof -
  note sorted = channel_inv_sorted [OF assms(1)]
  obtain c where c: "c \<in> set (nodes self)" "ns_node c = newest self"
      "\<forall>r \<in> set (nodes self). not_newer r c"
    using get_current_newest [OF assms(1)] by metis
  obtain r where "r \<in> set (nodes self)" "ns_sequence r = s"
    using assms(2) by (auto simp: clock_Some [OF sorted])
  with c have "s \<le> ns_sequence c" by (auto simp: not_newer_def)
  then show ?thesis by (simp add: current_sequence_newest [OF sorted c(1,2)])
qed

lemma known_le_current:
  "channel_inv M self \<Longrightarrow> known_sequence (clock self) n \<le> current_sequence self"
  using clock_le_current by (auto simp: known_sequence_def split: option.splits)

lemma channel_new_inv [invariant_intros]:
  "channel_new MAX_NODES initial node_key = Ok self \<Longrightarrow> channel_inv MAX_NODES self"
  by (auto simp: channel_new_def vec_push_def new_record_def channel_inv_def not_newer_def
      split: if_splits)

lemma add_node_inv [invariant_intros]:
  assumes inv: "channel_inv M self" and step: "add_node M self node key = (r, self')"
  shows "channel_inv M self'"
proof (cases r)
  case (Ok u)
  note sorted = channel_inv_sorted [OF inv]
  from step Ok obtain i where i: "binary_search_by_key ns_node (nodes self) node = Inl i"
    and room: "length (nodes self) < M"
    and self': "self' = self\<lparr>nodes := take i (nodes self) @ new_record node key # drop i (nodes self)\<rparr>"
    by (auto simp: add_node_def vec_insert_def split: sum.splits if_splits)
  have key: "ns_node (new_record node key) = node" by (simp add: new_record_def)
  have "keys_sorted ns_node (nodes self')"
    using by_key.insert_keeps_sorted [OF sorted, of "new_record node key"] i key self' by simp
  moreover have set': "set (nodes self') = insert (new_record node key) (set (nodes self))"
    using by_key.set_insert_at [of i "nodes self" "new_record node key"] self' by simp
  moreover obtain c where "c \<in> set (nodes self)" "ns_node c = newest self"
      "\<forall>r \<in> set (nodes self). not_newer r c"
    using get_current_newest [OF inv] by metis
  moreover from this have "not_newer (new_record node key) c"
    by (auto simp: not_newer_def new_record_def envelope_id_new_def word_neq_0_conv [symmetric])
  ultimately show ?thesis
    using inv self' room by (auto simp: channel_inv_def new_record_def)
qed (use inv step in \<open>auto simp: add_node_def split: sum.splits option.splits\<close>)

lemma receive_inv [invariant_intros]:
  assumes inv: "channel_inv M self" and step: "receive self from m eid = (r, self')"
  shows "channel_inv M self'"
proof (cases "acceptable (clock self) from m")
  case False
  then obtain e where e: "receive_verdict (clock self) from m = Err e"
    by (cases "receive_verdict (clock self) from m") (auto simp flip: receive_verdict_Ok)
  show ?thesis
    using receive_rejected [OF channel_inv_sorted [OF inv] e] step inv by simp
next
  case True
  note sorted = channel_inv_sorted [OF inv]
  obtain i c where i: "i < length (nodes self)" "ns_node (nodes self ! i) = from"
      "ns_sequence (nodes self ! i) = sender_last m"
    and c: "c \<in> set (nodes self)" "ns_node c = newest self" "\<forall>r \<in> set (nodes self). not_newer r c"
    and recv: "receive self from m eid =
      (Ok (max (ns_sequence c) (msg_sequence m)),
       \<lparr>nodes = (nodes self)[i := note_received m eid (nodes self ! i)],
        newest = (if not_newer (note_received m eid (nodes self ! i)) c then newest self else from)\<rparr>)"
    using receive_accepted [OF inv True] by metis
  let ?n = "note_received m eid (nodes self ! i)"
  from recv step have self': "self' = \<lparr>nodes = (nodes self)[i := ?n],
      newest = (if not_newer ?n c then newest self else from)\<rparr>" by simp
  have node: "ns_node ?n = ns_node (nodes self ! i)" by (simp add: note_received_def)
  have grew: "sender_last m < msg_sequence m" using True by (simp add: acceptable_def)
  have set': "set (nodes self') = insert ?n {r \<in> set (nodes self). ns_node r \<noteq> from}"
    using set_update_keys_sorted [OF sorted i(1)] i(2) self' by simp
  have sorted': "keys_sorted ns_node (nodes self')"
    using keys_sorted_update [OF sorted i(1) node] self' by simp
  have newest': "\<exists>d \<in> set (nodes self'). ns_node d = newest self' \<and> (\<forall>r \<in> set (nodes self'). not_newer r d)"
  proof (cases "not_newer ?n c")
    case True
    have "c \<noteq> nodes self ! i"
      using True i(3) grew by (auto simp: not_newer_def note_received_def)
    then have "ns_node c \<noteq> from"
      using keys_sorted_key_inj [OF sorted c(1) nth_mem [OF i(1)]] i(2) by auto
    with True c set' self' show ?thesis by auto
  next
    case False
    then have "not_newer r ?n" if "not_newer r c" for r
      using that by (auto simp: not_newer_def)
    moreover have "not_newer ?n ?n" by (simp add: not_newer_def)
    ultimately show ?thesis
      using c(3) set' self' False node i(2) by auto
  qed
  have "first_sequence (nodes self ! i) \<le> sender_last m"
    using inv nth_mem [OF i(1)] i(3) by (auto simp: channel_inv_def)
  then have "first_sequence ?n \<le> ns_sequence ?n \<and> (first_sequence ?n = 0 \<longleftrightarrow> ns_sequence ?n = 0)"
    using grew by (auto simp: note_received_def)
  with sorted' newest' set' inv self' show ?thesis
    by (auto simp: channel_inv_def)
qed

subsection \<open>Effects on the clock\<close>

lemma receive_effect:
  assumes inv: "channel_inv M self" and acc: "acceptable (clock self) from m"
  obtains self' where
    "receive self from m eid = (Ok (max (current_sequence self) (msg_sequence m)), self')"
    "channel_inv M self'"
    "clock self' = (clock self)(from \<mapsto> msg_sequence m)"
    "channel_keys self' = channel_keys self"
    "current_sequence self' = max (current_sequence self) (msg_sequence m)"
    "length (nodes self') = length (nodes self)"
proof -
  note sorted = channel_inv_sorted [OF inv]
  obtain i c where i: "binary_search_by_key ns_node (nodes self) from = Inr i"
      "i < length (nodes self)" "ns_node (nodes self ! i) = from"
    and c: "c \<in> set (nodes self)" "ns_node c = newest self" "\<forall>r \<in> set (nodes self). not_newer r c"
    and recv: "receive self from m eid =
      (Ok (max (ns_sequence c) (msg_sequence m)),
       \<lparr>nodes = (nodes self)[i := note_received m eid (nodes self ! i)],
        newest = (if not_newer (note_received m eid (nodes self ! i)) c then newest self else from)\<rparr>)"
    (is "_ = (_, ?self')")
    using receive_accepted [OF inv acc] by metis
  let ?n = "note_received m eid (nodes self ! i)"
  have node: "ns_node ?n = from" using i(3) by simp
  have inv': "channel_inv M ?self'" by (rule receive_inv [OF inv recv])
  have records: "node_record ?self' = (node_record self)(from \<mapsto> ?n)"
    using by_key.keyed_update [OF sorted, of ?n] i(1) node by (simp add: node_record_def)
  have old: "node_record self from = Some (nodes self ! i)"
    using i by (simp add: node_record_def by_key.search_keyed [OF sorted])
  have clock': "clock ?self' = (clock self)(from \<mapsto> msg_sequence m)"
    by (rule ext) (simp add: clock_def records)
  have keys': "channel_keys ?self' = channel_keys self"
    by (rule ext) (simp add: channel_keys_def records old)
  have cur: "current_sequence self = ns_sequence c"
    by (rule current_sequence_newest [OF sorted c(1,2)])
  have cur': "current_sequence ?self' = max (current_sequence self) (msg_sequence m)"
  proof (cases "not_newer ?n c")
    case True
    then have "msg_sequence m \<le> ns_sequence c" by (auto simp: not_newer_def note_received_def)
    moreover have "newest self \<noteq> from"
    proof
      assume "newest self = from"
      then have "c = nodes self ! i"
        using keys_sorted_key_inj [OF sorted c(1) nth_mem [OF i(2)]] c(2) i(3) by simp
      then have "ns_sequence c = sender_last m"
        using old acc by (simp add: clock_def acceptable_def)
      with calculation acc show False by (auto simp: acceptable_def)
    qed
    ultimately show ?thesis
      using True cur clock' by (simp add: current_sequence_def known_sequence_def max_def)
  next
    case False
    then have "ns_sequence c \<le> msg_sequence m"
      by (auto simp: not_newer_def note_received_def)
    with False cur clock' show ?thesis
      by (simp add: current_sequence_def known_sequence_def max_def)
  qed
  from that [OF _ inv' clock' keys' cur'] recv cur show thesis by simp
qed

lemma receive_ok_acceptable:
  assumes inv: "channel_inv M self" and step: "receive self from m eid = (r, self')" and ok: "is_ok r"
  shows "acceptable (clock self) from m"
proof (cases "receive_verdict (clock self) from m")
  case (Ok u)
  then show ?thesis by (simp flip: receive_verdict_Ok)
next
  case (Err e)
  with receive_rejected [OF channel_inv_sorted [OF inv] Err, of eid] step ok show ?thesis by auto
qed simp

lemma add_node_absent:
  assumes inv: "channel_inv M self" and absent: "clock self node = None"
    and room: "length (nodes self) < M"
  obtains self' where
    "add_node M self node key = (Ok (), self')" "channel_inv M self'"
    "clock self' = (clock self)(node \<mapsto> 0)"
    "channel_keys self' = (channel_keys self)(node \<mapsto> key)"
    "newest self' = newest self" "length (nodes self') = Suc (length (nodes self))"
proof -
  note sorted = channel_inv_sorted [OF inv]
  from sorted obtain i where i: "binary_search_by_key ns_node (nodes self) node = Inl i"
      "i \<le> length (nodes self)"
    using absent by (cases rule: by_key.search_cases [where k = node]) (auto simp: clock_def node_record_def)
  let ?r = "new_record node key"
  let ?self' = "self\<lparr>nodes := take i (nodes self) @ ?r # drop i (nodes self)\<rparr>"
  have step: "add_node M self node key = (Ok (), ?self')"
    using i room by (simp add: add_node_def vec_insert_def)
  have records: "node_record ?self' = (node_record self)(node \<mapsto> ?r)"
    using by_key.keyed_insert [OF sorted, of ?r i] i(1) by (simp add: node_record_def)
  have "clock ?self' = (clock self)(node \<mapsto> 0)"
    by (rule ext) (simp add: clock_def records)
  moreover have "channel_keys ?self' = (channel_keys self)(node \<mapsto> key)"
    by (rule ext) (simp add: channel_keys_def records)
  ultimately show thesis
    using that [OF step add_node_inv [OF inv step]] i(2) by simp
qed

lemma add_node_present:
  assumes "channel_inv M self" "clock self node \<noteq> None"
  shows "add_node M self node key = (Err NodeExists, self)"
  using channel_inv_sorted [OF assms(1)] assms(2)
  by (cases rule: by_key.search_cases [where k = node]) (auto simp: clock_def node_record_def add_node_def)

lemma add_node_full:
  assumes "channel_inv M self" "clock self node = None" "M \<le> length (nodes self)"
  shows "add_node M self node key = (Err (ClientMax M), self)"
  using channel_inv_sorted [OF assms(1)] assms(2,3)
  by (cases rule: by_key.search_cases [where k = node])
    (auto simp: clock_def node_record_def add_node_def vec_insert_def)

lemma get_node_key_lookup:
  assumes "keys_sorted ns_node (nodes self)"
  shows "get_node_key self node = ok_or (channel_keys self node) UnknownNode"
  using assms
  by (cases rule: by_key.search_cases [where k = node])
    (auto simp: get_node_key_def channel_keys_def node_record_def slice_get_def)

lemma address_spec:
  assumes inv: "channel_inv M self"
  shows "address self from data =
    (case clock self from of
       None \<Rightarrow> Err UnknownNode
     | Some sent \<Rightarrow>
         bind_ok (ok_or (checked_add (current_sequence self) 1) SequenceOverFlow) (\<lambda>sequence.
           Ok \<lparr>cause = newest self, sender_last = sent, msg_sequence = sequence, msg_data = data\<rparr>))"
proof -
  note sorted = channel_inv_sorted [OF inv]
  obtain c where c: "get_current self = Ok c" "c \<in> set (nodes self)" "ns_node c = newest self"
    using get_current_newest [OF inv] by metis
  have cur: "current_sequence self = ns_sequence c"
    by (rule current_sequence_newest [OF sorted c(2,3)])
  from sorted show ?thesis
  proof (cases rule: by_key.search_cases [where k = "from"])
    case (miss i)
    then show ?thesis by (simp add: address_def clock_def node_record_def)
  next
    case (hit i)
    then have last: "clock self from = Some (ns_sequence (nodes self ! i))"
      by (simp add: clock_def node_record_def)
    have "ns_sequence (nodes self ! i) \<le> ns_sequence c"
      using clock_le_current [OF inv last] cur by simp
    then have "\<not> ns_sequence c < ns_sequence (nodes self ! i)" by simp
    with hit c last cur show ?thesis
      by (simp add: address_def slice_get_def)
  qed
qed

subsection \<open>Properties of the operations\<close>

text \<open>A channel of two nodes on which the properties are evaluated.\<close>

definition example_channel :: "nat channel_state" where
  "example_channel =
     \<lparr>nodes =
        [\<lparr>public_key = 11, ns_node = NodeId (Id 1), ns_id = EnvelopeId (Id 5),
          first_sequence = 1, ns_sequence = 2\<rparr>,
         \<lparr>public_key = 12, ns_node = NodeId (Id 2), ns_id = EnvelopeId (Id 9),
          first_sequence = 3, ns_sequence = 3\<rparr>],
      newest = NodeId (Id 2)\<rparr>"

lemma example_channel_inv: "channel_inv 4 example_channel"
  by (simp add: channel_inv_def example_channel_def not_newer_def id_order_defs)

lemma example_channel_clock: "clock example_channel =
    [NodeId (Id 1) \<mapsto> 2, NodeId (Id 2) \<mapsto> 3]"
  by (rule ext) (simp add: clock_def node_record_def keyed_def example_channel_def)

lemma example_channel_current: "current_sequence example_channel = 3"
  by (simp add: current_sequence_def known_sequence_def example_channel_clock)
    (simp add: example_channel_def)

text \<open>
  C1. Receiving a message is decided by the clock of the channel alone, on every branch. A rejected
  message (unknown sender, already received, a gap behind the sender's last message, a cause that has
  not been seen) leaves the state as it was and returns exactly the error of \<open>receive_verdict\<close>; an
  accepted one moves the sender's entry of the clock to the message's sequence and nothing else,
  keeps the keys and the invariant, and returns the largest sequence of the channel. No branch panics.
\<close>

theorem receive_refines_verdict:
  assumes "channel_inv M self"
  shows "case receive_verdict (clock self) from m of
      Ok _ \<Rightarrow> \<exists>self'. receive self from m eid =
          (Ok (max (current_sequence self) (msg_sequence m)), self') \<and>
        clock self' = (clock self)(from \<mapsto> msg_sequence m) \<and>
        channel_keys self' = channel_keys self \<and> channel_inv M self' \<and>
        current_sequence self' = max (current_sequence self) (msg_sequence m)
    | Err e \<Rightarrow> receive self from m eid = (Err e, self)
    | Panic \<Rightarrow> False"
proof (cases "receive_verdict (clock self) from m")
  case (Ok u)
  then have "acceptable (clock self) from m" by (simp flip: receive_verdict_Ok)
  then obtain self' where
      "receive self from m eid = (Ok (max (current_sequence self) (msg_sequence m)), self')"
      "channel_inv M self'" "clock self' = (clock self)(from \<mapsto> msg_sequence m)"
      "channel_keys self' = channel_keys self"
      "current_sequence self' = max (current_sequence self) (msg_sequence m)"
    by (rule receive_effect [OF assms])
  with Ok show ?thesis by simp
next
  case (Err e)
  with receive_rejected [OF channel_inv_sorted [OF assms] Err] show ?thesis by simp
qed simp

lemma receive_refines_verdict_witness:
  "receive_verdict (clock example_channel) (NodeId (Id 1))
      \<lparr>cause = NodeId (Id 2), sender_last = 2, msg_sequence = 4, msg_data = ''m''\<rparr> = Ok () \<and>
   (\<exists>self'. receive example_channel (NodeId (Id 1))
        \<lparr>cause = NodeId (Id 2), sender_last = 2, msg_sequence = 4, msg_data = ''m''\<rparr>
        (EnvelopeId (Id 6)) = (Ok 4, self') \<and> clock self' (NodeId (Id 1)) = Some 4)"
proof -
  have verdict: "receive_verdict (clock example_channel) (NodeId (Id 1))
      \<lparr>cause = NodeId (Id 2), sender_last = 2, msg_sequence = 4, msg_data = ''m''\<rparr> = Ok ()"
    by (simp add: receive_verdict_def example_channel_clock known_sequence_def saturating_sub_def)
  then show ?thesis
    using receive_refines_verdict [OF example_channel_inv, of "NodeId (Id 1)"
        "\<lparr>cause = NodeId (Id 2), sender_last = 2, msg_sequence = 4, msg_data = ''m''\<rparr>"
        "EnvelopeId (Id 6)"]
    by (auto simp: example_channel_current)
qed

text \<open>
  C28. A sender cannot exhaust the sequence counter: whatever the message, receiving it raises the
  largest sequence of the channel by at most one, and never lowers it.
\<close>

theorem receive_sequence_growth:
  assumes "channel_inv M self" "receive self from m eid = (r, self')"
  shows "current_sequence self \<le> current_sequence self' \<and>
    unat (current_sequence self') \<le> Suc (unat (current_sequence self))"
proof (cases "receive_verdict (clock self) from m")
  case (Ok u)
  then have acc: "acceptable (clock self) from m" by (simp flip: receive_verdict_Ok)
  have "known_sequence (clock self) (cause m) \<le> current_sequence self"
    by (rule known_le_current [OF assms(1)])
  then have "unat (msg_sequence m) \<le> Suc (unat (current_sequence self))"
    using acc by (simp add: acceptable_def word_le_nat_alt)
  moreover have "current_sequence self' = max (current_sequence self) (msg_sequence m)"
    using receive_effect [OF assms(1) acc] assms(2) by (metis prod.inject)
  ultimately show ?thesis by (auto simp: max_def)
next
  case (Err e)
  with receive_rejected [OF channel_inv_sorted [OF assms(1)] Err] assms(2) show ?thesis by simp
qed simp

lemma receive_sequence_growth_witness:
  "\<exists>r self'. receive example_channel (NodeId (Id 1))
      \<lparr>cause = NodeId (Id 2), sender_last = 2, msg_sequence = 4, msg_data = ()\<rparr> (EnvelopeId (Id 6))
        = (r, self') \<and> unat (current_sequence self') \<le> 4"
proof -
  obtain r self' where step: "receive example_channel (NodeId (Id 1))
      \<lparr>cause = NodeId (Id 2), sender_last = 2, msg_sequence = 4, msg_data = ()\<rparr> (EnvelopeId (Id 6))
        = (r, self')" by fastforce
  from receive_sequence_growth [OF example_channel_inv step] step show ?thesis
    by (auto simp: example_channel_current)
qed

text \<open>
  A device can always receive what it addresses itself: if \<open>address\<close> returns a message, its
  sequence is one more than the largest of the channel, and receiving it (under any envelope id)
  succeeds and makes it the newest message. The only errors of \<open>address\<close> are a sender that is not a
  node of the channel and a sequence counter that has reached its last value.
\<close>

theorem address_then_receive:
  assumes "channel_inv M self"
  shows "case address self from data of
      Ok m \<Rightarrow> unat (msg_sequence m) = Suc (unat (current_sequence self)) \<and> msg_data m = data \<and>
        (\<exists>self'. receive self from m eid = (Ok (msg_sequence m), self') \<and>
           clock self' = (clock self)(from \<mapsto> msg_sequence m) \<and>
           current_sequence self' = msg_sequence m)
    | Err e \<Rightarrow> e = UnknownNode \<and> clock self from = None \<or>
        e = SequenceOverFlow \<and> unat (current_sequence self) = 2 ^ 64 - 1
    | Panic \<Rightarrow> False"
proof (cases "clock self from")
  case None
  then show ?thesis by (simp add: address_spec [OF assms])
next
  case (Some sent)
  show ?thesis
  proof (cases "checked_add (current_sequence self) 1")
    case None
    then have "unat (current_sequence self) = 2 ^ 64 - 1"
      using unat_bound [of "current_sequence self"] by (simp add: checked_add_None)
    with None Some show ?thesis by (simp add: address_spec [OF assms])
  next
    case (Some sequence)
    let ?m = "\<lparr>cause = newest self, sender_last = sent, msg_sequence = sequence, msg_data = data\<rparr>"
    have addressed: "address self from data = Ok ?m"
      using \<open>clock self from = Some sent\<close> Some by (simp add: address_spec [OF assms])
    have seq: "unat sequence = Suc (unat (current_sequence self))"
      using checked_add_Some [OF Some] by simp
    have "sent \<le> current_sequence self"
      by (rule clock_le_current [OF assms \<open>clock self from = Some sent\<close>])
    then have acc: "acceptable (clock self) from ?m"
      using seq \<open>clock self from = Some sent\<close>
      by (simp add: acceptable_def word_le_nat_alt word_less_nat_alt flip: current_sequence_def)
    have "max (current_sequence self) sequence = sequence"
      using seq by (simp add: max_def word_le_nat_alt)
    moreover obtain self' where "receive self from ?m eid = (Ok (max (current_sequence self) sequence), self')"
        "clock self' = (clock self)(from \<mapsto> sequence)"
        "current_sequence self' = max (current_sequence self) sequence"
      using receive_effect [OF assms acc] by simp metis
    ultimately show ?thesis using addressed seq by simp
  qed
qed

lemma address_then_receive_witness:
  "address example_channel (NodeId (Id 1)) ''hi'' =
      Ok \<lparr>cause = NodeId (Id 2), sender_last = 2, msg_sequence = 4, msg_data = ''hi''\<rparr> \<and>
   (\<exists>self'. receive example_channel (NodeId (Id 1))
      \<lparr>cause = NodeId (Id 2), sender_last = 2, msg_sequence = 4, msg_data = ''hi''\<rparr> (EnvelopeId (Id 3))
      = (Ok 4, self'))"
proof -
  have newest: "newest example_channel = NodeId (Id 2)" by (simp add: example_channel_def)
  have "address example_channel (NodeId (Id 1)) ''hi'' =
      Ok \<lparr>cause = NodeId (Id 2), sender_last = 2, msg_sequence = 4, msg_data = ''hi''\<rparr>"
    by (simp add: address_spec [OF example_channel_inv] example_channel_clock
        example_channel_current checked_add_def newest)
  then show ?thesis
    using address_then_receive [OF example_channel_inv, of "''hi''" "NodeId (Id 1)" "EnvelopeId (Id 3)"]
    by auto
qed

text \<open>
  Adding a node: a node that is known is refused and its key kept; a full channel refuses a new
  one; otherwise the node starts with sequence 0 and the given key, the other nodes, the newest
  message and the invariant are kept. Both refusals leave the state unchanged.
\<close>

theorem add_node_correct:
  assumes "channel_inv M self"
  shows "case add_node M self node node_key of
      (Ok _, self') \<Rightarrow> clock self node = None \<and> length (nodes self) < M \<and>
        clock self' = (clock self)(node \<mapsto> 0) \<and>
        channel_keys self' = (channel_keys self)(node \<mapsto> node_key) \<and>
        current_sequence self' = current_sequence self \<and> channel_inv M self'
    | (Err e, self') \<Rightarrow> self' = self \<and>
        e = (if clock self node \<noteq> None then NodeExists else ClientMax M) \<and>
        (clock self node = None \<longrightarrow> M \<le> length (nodes self))
    | (Panic, self') \<Rightarrow> False"
proof (cases "clock self node")
  case (Some s)
  then show ?thesis by (simp add: add_node_present [OF assms])
next
  case None
  show ?thesis
  proof (cases "length (nodes self) < M")
    case True
    obtain self' where self': "add_node M self node node_key = (Ok (), self')" "channel_inv M self'"
        "clock self' = (clock self)(node \<mapsto> 0)"
        "channel_keys self' = (channel_keys self)(node \<mapsto> node_key)" "newest self' = newest self"
      using add_node_absent [OF assms None True] by metis
    have "newest self \<noteq> node"
      using get_current_newest [OF assms] None clock_Some [OF channel_inv_sorted [OF assms]]
      by (metis option.distinct(1))
    with self' None True show ?thesis by (simp add: current_sequence_def known_sequence_def)
  next
    case False
    with None show ?thesis by (simp add: add_node_full [OF assms])
  qed
qed

lemma add_node_correct_witness:
  "case add_node 4 example_channel (NodeId (Id 7)) 13 of
      (Ok _, self') \<Rightarrow> channel_inv 4 self' \<and> clock self' (NodeId (Id 7)) = Some 0 | _ \<Rightarrow> False"
proof -
  have "is_ok (fst (add_node 4 example_channel (NodeId (Id 7)) 13))"
    by (simp add: add_node_def binary_search_by_key_def binary_search_from.simps vec_insert_def
        example_channel_def id_order_defs)
  then show ?thesis
    using add_node_correct [OF example_channel_inv, of "NodeId (Id 7)" 13]
    by (cases "add_node 4 example_channel (NodeId (Id 7)) 13") (auto split: result.splits)
qed

end
