(* ===== verification/Channel_Log.thy ===== *)
theory Channel_Log
  imports Channel "HOL-Library.Sublist"
begin

text \<open>
  Histories of a channel: \<open>channel_reach M self log\<close> holds when the state \<open>self\<close> of a device comes
  from \<^verbatim>\<open>ChannelState::new\<close> by any sequence of \<^verbatim>\<open>receive\<close> and \<^verbatim>\<open>add_node\<close> calls, whatever they return,
  and \<open>log\<close> lists the messages that were received, oldest first. The ordering guarantees of
  \<^verbatim>\<open>protocol/design.md\<close> (section Consistency) are invariants of these histories: the messages of a
  sender form a chain (\<open>chained\<close>), and that makes order, completeness and causality checkable.
\<close>

inductive channel_reach :: "nat \<Rightarrow> 'p channel_state \<Rightarrow> (node_id \<times> 't message) list \<Rightarrow> bool"
  for M :: nat
where
  start: "channel_new M initial node_key = Ok self \<Longrightarrow> channel_reach M self []"
| received: "channel_reach M self log \<Longrightarrow> receive self from m eid = (r, self') \<Longrightarrow>
    channel_reach M self' (if is_ok r then log @ [(from, m)] else log)"
| added: "channel_reach M self log \<Longrightarrow> add_node M self node node_key = (r, self') \<Longrightarrow>
    channel_reach M self' log"

definition sent_by :: "node_id \<Rightarrow> (node_id \<times> 't message) list \<Rightarrow> 't message list" where
  "sent_by n log = map snd (filter (\<lambda>entry. fst entry = n) log)"

fun chained :: "u64 \<Rightarrow> 't message list \<Rightarrow> bool" where
  "chained s [] = True"
| "chained s (m # ms) = (sender_last m = s \<and> s < msg_sequence m \<and> chained (msg_sequence m) ms)"

definition last_sequence :: "u64 \<Rightarrow> 't message list \<Rightarrow> u64" where
  "last_sequence s ms = (if ms = [] then s else msg_sequence (last ms))"

lemma last_sequence_simps [simp]:
  "last_sequence s [] = s"
  "last_sequence s (m # ms) = last_sequence (msg_sequence m) ms"
  "last_sequence s (ms @ [m]) = msg_sequence m"
  by (simp_all add: last_sequence_def)

lemma sent_by_simps [simp]:
  "sent_by n [] = []"
  "sent_by n (log @ [(from, m)]) = (if from = n then sent_by n log @ [m] else sent_by n log)"
  by (simp_all add: sent_by_def)

lemma set_sent_by: "m \<in> set (sent_by n log) \<longleftrightarrow> (n, m) \<in> set log"
  by (auto simp: sent_by_def image_iff)

subsection \<open>Chains\<close>

lemma chained_append:
  "chained s (ms @ ms') \<longleftrightarrow> chained s ms \<and> chained (last_sequence s ms) ms'"
  by (induction ms arbitrary: s) auto

lemma chained_last_ge: "chained s ms \<Longrightarrow> s \<le> last_sequence s ms"
  by (induction ms arbitrary: s) (auto intro: order_trans less_imp_le)

lemma chained_member:
  assumes "chained s ms" "m \<in> set ms"
  shows "s \<le> sender_last m" "sender_last m < msg_sequence m" "msg_sequence m \<le> last_sequence s ms"
  using assms
proof (induction ms arbitrary: s)
  case (Cons x ms)
  {
    case 1
    then show ?case using Cons.IH(1) by (auto intro: order_trans less_imp_le)
  next
    case 2
    then show ?case using Cons.IH(2) by auto
  next
    case 3
    then show ?case using Cons.IH(3) chained_last_ge by auto
  }
qed simp_all

text \<open>A chain whose messages all occur in another chain from the same point is a prefix of it.\<close>

lemma chained_subset_prefix:
  assumes "chained s ms" "chained s ms'" "set ms' \<subseteq> set ms"
  shows "prefix ms' ms"
  using assms
proof (induction ms arbitrary: s ms')
  case Nil
  then show ?case by simp
next
  case (Cons x ms)
  show ?case
  proof (cases ms')
    case Nil
    then show ?thesis by simp
  next
    case (Cons y ys)
    have "y = x"
    proof (rule ccontr)
      assume "y \<noteq> x"
      then have "y \<in> set ms" using Cons.prems(3) \<open>ms' = y # ys\<close> by auto
      then have "msg_sequence x \<le> sender_last y"
        using chained_member(1) [of "msg_sequence x" ms y] Cons.prems(1) by simp
      then show False using Cons.prems(1,2) \<open>ms' = y # ys\<close> by auto
    qed
    moreover have "x \<notin> set ys"
    proof
      assume "x \<in> set ys"
      then have "msg_sequence y \<le> sender_last x"
        using chained_member(1) [of "msg_sequence y" ys x] Cons.prems(2) \<open>ms' = y # ys\<close> by simp
      then show False using Cons.prems(1,2) \<open>ms' = y # ys\<close> by auto
    qed
    ultimately have "prefix ys ms"
      using Cons.IH [of "msg_sequence x" ys] Cons.prems \<open>ms' = y # ys\<close> by auto
    then show ?thesis using \<open>y = x\<close> \<open>ms' = y # ys\<close> by simp
  qed
qed

subsection \<open>The invariant of histories\<close>

definition log_inv :: "nat \<Rightarrow> 'p channel_state \<Rightarrow> (node_id \<times> 't message) list \<Rightarrow> bool" where
  "log_inv M self log \<longleftrightarrow> channel_inv M self \<and>
     (\<forall>n. chained 0 (sent_by n log) \<and> known_sequence (clock self) n = last_sequence 0 (sent_by n log))"

lemma log_inv_start:
  "channel_new M initial node_key = Ok self \<Longrightarrow> log_inv M self []"
  using channel_new_inv [of M initial node_key self]
  by (auto simp: log_inv_def channel_new_def vec_push_def known_sequence_def clock_def
      node_record_def keyed_def split: if_splits)

lemma log_inv_received:
  assumes "log_inv M self log" "receive self from m eid = (r, self')"
  shows "log_inv M self' (if is_ok r then log @ [(from, m)] else log)"
proof (cases "acceptable (clock self) from m")
  case True
  have inv: "channel_inv M self" using assms(1) by (simp add: log_inv_def)
  obtain s where r: "r = Ok s"
    and eff: "channel_inv M self'" "clock self' = (clock self)(from \<mapsto> msg_sequence m)"
    using receive_effect [OF inv True, of eid] assms(2) by (metis prod.inject)
  have old: "chained 0 (sent_by n log)" "known_sequence (clock self) n = last_sequence 0 (sent_by n log)" for n
    using assms(1) by (simp_all add: log_inv_def)
  have "last_sequence 0 (sent_by from log) = sender_last m"
    using True old(2) [of "from"] by (simp add: acceptable_def known_sequence_def)
  then have "chained 0 (sent_by n (log @ [(from, m)]))" for n
    using old(1) True by (auto simp: chained_append acceptable_def)
  moreover have "known_sequence (clock self') n = last_sequence 0 (sent_by n (log @ [(from, m)]))" for n
    using old(2) [of n] by (simp add: known_sequence_def eff(2))
  ultimately show ?thesis using r eff(1) by (simp add: log_inv_def)
next
  case False
  have inv: "channel_inv M self" using assms(1) by (simp add: log_inv_def)
  obtain e where "receive_verdict (clock self) from m = Err e"
    using False by (cases "receive_verdict (clock self) from m") (auto simp flip: receive_verdict_Ok)
  then have "receive self from m eid = (Err e, self)"
    by (rule receive_rejected [OF channel_inv_sorted [OF inv]])
  with assms show ?thesis by auto
qed

lemma log_inv_added:
  assumes "log_inv M self log" "add_node M self node node_key = (r, self')"
  shows "log_inv M self' log"
proof -
  have inv: "channel_inv M self" using assms(1) by (simp add: log_inv_def)
  have "clock self' = clock self \<or> clock self node = None \<and> clock self' = (clock self)(node \<mapsto> 0)"
    using add_node_correct [OF inv, of node node_key] assms(2) by (auto split: result.splits)
  then have "known_sequence (clock self') n = known_sequence (clock self) n" for n
    by (auto simp: known_sequence_def)
  then show ?thesis
    using assms add_node_inv [OF inv assms(2)] by (simp add: log_inv_def)
qed

lemma reach_log_inv: "channel_reach M self log \<Longrightarrow> log_inv M self log"
  by (induction rule: channel_reach.induct)
    (blast intro: log_inv_start log_inv_received log_inv_added)+

subsection \<open>The guarantees of the design\<close>

text \<open>Two devices of a channel: the owner has sent two messages, the other device has the first.\<close>

definition log_message1 :: "unit message" where
  "log_message1 = \<lparr>cause = NodeId (Id 1), sender_last = 0, msg_sequence = 1, msg_data = ()\<rparr>"

definition log_message2 :: "unit message" where
  "log_message2 = \<lparr>cause = NodeId (Id 1), sender_last = 1, msg_sequence = 2, msg_data = ()\<rparr>"

definition log_state :: "envelope_id \<Rightarrow> u64 \<Rightarrow> u64 \<Rightarrow> nat channel_state" where
  "log_state eid first s =
     \<lparr>nodes = [\<lparr>public_key = 11, ns_node = NodeId (Id 1), ns_id = eid,
        first_sequence = first, ns_sequence = s\<rparr>], newest = NodeId (Id 1)\<rparr>"

lemmas log_example_defs =
  log_state_def log_message1_def log_message2_def channel_new_def vec_push_def new_record_def
  envelope_id_new_def receive_def check_receive_worker_def get_current_def slice_get_def
  binary_search_by_key_def binary_search_from.simps saturating_sub_def

lemma log_example_start: "channel_reach 2 (log_state (EnvelopeId (Id 0)) 0 0) []"
  by (rule channel_reach.start [of 2 "NodeId (Id 1)" 11]) (simp add: log_example_defs)

lemma log_example_one:
  "channel_reach 2 (log_state (EnvelopeId (Id 5)) 1 1) [(NodeId (Id 1), log_message1)]"
proof -
  have "receive (log_state (EnvelopeId (Id 0)) 0 0) (NodeId (Id 1)) log_message1 (EnvelopeId (Id 5))
      = (Ok 1, log_state (EnvelopeId (Id 5)) 1 1)"
    by (simp add: log_example_defs)
  from channel_reach.received [OF log_example_start this] show ?thesis by simp
qed

lemma log_example_two:
  "channel_reach 2 (log_state (EnvelopeId (Id 6)) 1 2)
    [(NodeId (Id 1), log_message1), (NodeId (Id 1), log_message2)]"
proof -
  have "receive (log_state (EnvelopeId (Id 5)) 1 1) (NodeId (Id 1)) log_message2 (EnvelopeId (Id 6))
      = (Ok 2, log_state (EnvelopeId (Id 6)) 1 2)"
    by (simp add: log_example_defs word_le_nat_alt)
  from channel_reach.received [OF log_example_one this] show ?thesis by simp
qed

text \<open>
  C2. Consistent order (the first guarantee of the design document): take the messages a sender has
  recorded on its own device and a second device to which only such messages are attributed. Then the
  second device has received them in the sender's order and without a gap: its list of messages from
  the sender is a prefix of the sender's own list, whatever either device did in between.
\<close>

theorem sender_order_consistent:
  assumes "channel_reach M1 self1 log1" "channel_reach M2 self2 log2"
    and "set (sent_by n log2) \<subseteq> set (sent_by n log1)"
  shows "prefix (sent_by n log2) (sent_by n log1)"
proof (rule chained_subset_prefix [OF _ _ assms(3)])
  show "chained 0 (sent_by n log1)" "chained 0 (sent_by n log2)"
    using assms(1,2) [THEN reach_log_inv] by (auto simp: log_inv_def)
qed

lemma sender_order_consistent_witness:
  "prefix (sent_by (NodeId (Id 1)) [(NodeId (Id 1), log_message1)])
    (sent_by (NodeId (Id 1)) [(NodeId (Id 1), log_message1), (NodeId (Id 1), log_message2)])"
  by (rule sender_order_consistent [OF log_example_two log_example_one]) (simp add: sent_by_def)

text \<open>
  C13. Gaps are detected (the second guarantee): a device that has received the first messages of a
  sender and is handed a later one refuses it, names the sender, the sequence it has and the sequence
  that is missing, and stays as it was. The sender's messages are those of its own device.
\<close>

theorem gap_detected:
  assumes "channel_reach M1 self1 log1" "sent_by n log1 = ms @ missing # gap @ m # later"
    and "channel_reach M2 self2 log2" "sent_by n log2 = ms"
    and "clock self2 n \<noteq> None"
  shows "receive self2 n m eid =
    (Err (MissingFromSender n (last_sequence 0 ms) (last_sequence (msg_sequence missing) gap)), self2)"
proof -
  have inv: "log_inv M1 self1 log1" "log_inv M2 self2 log2"
    using assms(1,3) by (auto intro: reach_log_inv)
  then have chain: "chained 0 (ms @ missing # gap @ m # later)"
    using assms(2) by (metis log_inv_def)
  then have "sender_last missing = last_sequence 0 ms" "sender_last missing < msg_sequence missing"
    and prev: "sender_last m = last_sequence (msg_sequence missing) gap" "sender_last m < msg_sequence m"
    and "msg_sequence missing \<le> last_sequence (msg_sequence missing) gap"
    by (auto simp: chained_append chained_last_ge)
  then have behind: "last_sequence 0 ms < sender_last m" by simp
  have "clock self2 n = Some (last_sequence 0 ms)"
    using inv(2) assms(4,5) by (auto simp: log_inv_def known_sequence_def split: option.splits)
  then have "receive_verdict (clock self2) n m =
      Err (MissingFromSender n (last_sequence 0 ms) (last_sequence (msg_sequence missing) gap))"
    using behind prev by (auto simp: receive_verdict_def)
  moreover have "keys_sorted ns_node (nodes self2)"
    using inv(2) channel_inv_sorted by (auto simp: log_inv_def)
  ultimately show ?thesis by (simp add: receive_rejected)
qed

lemma gap_detected_witness:
  "receive (log_state (EnvelopeId (Id 0)) 0 0) (NodeId (Id 1)) log_message2 (EnvelopeId (Id 6)) =
    (Err (MissingFromSender (NodeId (Id 1)) 0 1), log_state (EnvelopeId (Id 0)) 0 0)"
proof -
  have sent: "sent_by (NodeId (Id 1)) [(NodeId (Id 1), log_message1), (NodeId (Id 1), log_message2)]
      = [] @ log_message1 # [] @ log_message2 # []"
    by (simp add: sent_by_def)
  have known: "clock (log_state (EnvelopeId (Id 0)) 0 0) (NodeId (Id 1)) \<noteq> None"
    by (simp add: clock_def node_record_def keyed_def log_state_def)
  show ?thesis
    using gap_detected [OF log_example_two sent log_example_start sent_by_simps(1) known,
        of "EnvelopeId (Id 6)"] by (simp add: log_message1_def)
qed

text \<open>
  C14. Causality (the third guarantee): a message is received only after a message of the node its
  cause names whose sequence is at least its own minus one, unless its own sequence is 1.
\<close>

theorem cause_received_before:
  assumes "channel_reach M self log" "log = before @ (from, m) # after" "1 < unat (msg_sequence m)"
  shows "\<exists>c. (cause m, c) \<in> set before \<and> unat (msg_sequence m) \<le> Suc (unat (msg_sequence c))"
  using assms
proof (induction arbitrary: "after" rule: channel_reach.induct)
  case (start initial node_key self)
  then show ?case by simp
next
  case (added self log node node_key r self')
  then show ?case by blast
next
  case (received self log sender msg eid r self')
  show ?case
  proof (cases "is_ok r \<and> after = []")
    case False
    then obtain rest where "log = before @ (from, m) # rest"
      using received.prems(1) by (cases "after" rule: rev_cases) (auto split: if_splits)
    with received.IH received.prems(2) show ?thesis by blast
  next
    case True
    then have m: "log = before" "sender = from" "msg = m"
      using received.prems(1) by auto
    have inv: "log_inv M self before"
      using received.hyps(1) reach_log_inv m by blast
    then have "channel_inv M self" by (simp add: log_inv_def)
    then have acc: "acceptable (clock self) from m"
      using receive_ok_acceptable [OF _ received.hyps(2)] True m by simp
    have known: "known_sequence (clock self) (cause m) = last_sequence 0 (sent_by (cause m) before)"
      using inv by (simp add: log_inv_def)
    have "sent_by (cause m) before \<noteq> []"
      using acc received.prems(2) known by (auto simp: acceptable_def)
    then have "(cause m, last (sent_by (cause m) before)) \<in> set before"
      and "last_sequence 0 (sent_by (cause m) before) = msg_sequence (last (sent_by (cause m) before))"
      by (simp_all add: last_sequence_def flip: set_sent_by)
    with acc known show ?thesis by (auto simp: acceptable_def)
  qed
qed

lemma cause_received_before_witness:
  "\<exists>c. (NodeId (Id 1), c) \<in> set [(NodeId (Id 1), log_message1)] \<and> 2 \<le> Suc (unat (msg_sequence c))"
  using cause_received_before [OF log_example_two, of "[(NodeId (Id 1), log_message1)]"
      "NodeId (Id 1)" log_message2 "[]"]
  by (simp add: log_message2_def)

text \<open>
  Nothing is received twice: every message in the history of a device, offered again under any
  envelope id, is answered with \<open>AlreadyReceived\<close> and leaves the device unchanged.
\<close>

theorem received_once:
  assumes "channel_reach M self log" "(n, m) \<in> set log"
  shows "receive self n m eid = (Err AlreadyReceived, self)"
proof -
  have inv: "log_inv M self log" using assms(1) by (rule reach_log_inv)
  have "chained 0 (sent_by n log)" "m \<in> set (sent_by n log)"
    using inv assms(2) by (simp_all add: log_inv_def set_sent_by)
  note member = chained_member [OF this]
  have "known_sequence (clock self) n = last_sequence 0 (sent_by n log)"
    using inv by (simp add: log_inv_def)
  then have "msg_sequence m \<le> known_sequence (clock self) n" "known_sequence (clock self) n \<noteq> 0"
    using member by auto
  then have "receive_verdict (clock self) n m = Err AlreadyReceived"
    by (auto simp: receive_verdict_def known_sequence_def split: option.splits)
  moreover have "keys_sorted ns_node (nodes self)"
    using inv channel_inv_sorted by (auto simp: log_inv_def)
  ultimately show ?thesis by (simp add: receive_rejected)
qed

lemma received_once_witness:
  "receive (log_state (EnvelopeId (Id 6)) 1 2) (NodeId (Id 1)) log_message1 (EnvelopeId (Id 9)) =
    (Err AlreadyReceived, log_state (EnvelopeId (Id 6)) 1 2)"
  by (rule received_once [OF log_example_two]) simp

end
