(* ===== verification/Chat.thy ===== *)
theory Chat
  imports Ids
begin

text \<open>
  \<^verbatim>\<open>protocol/src/chat.rs\<close>: the messages of a chat and the membership state that decides which of
  them a device accepts. Names and texts are \<^verbatim>\<open>heapless::String\<close>s, kept as the list of their bytes.
  \<open>compute_id\<close>, the function from a public key to its node id, belongs to the \<^verbatim>\<open>Crypto\<close> trait and is
  an argument here.

  \<open>chat_inv\<close> is the well-formedness of the user table, which every message keeps; the properties say
  who may do what, on every branch.
\<close>

subsection \<open>Data\<close>

definition NAME_MAX :: nat where
  "NAME_MAX = 128"

definition CHAT_MAX :: nat where
  "CHAT_MAX = 1024"

record 'p new_channel =
  nc_nonce :: u128
  nc_name :: string
  nc_owner :: 'p

record 'p add_user_message =
  au_name :: string
  au_key :: 'p

record chat_message =
  chat_text :: string

datatype 'p protocol =
    AddUser "'p add_user_message"
  | NewChannel "'p new_channel"
  | ChatMessage chat_message

datatype chat_error =
    UnexpectedId
  | MaxUsersExceeded
  | Uninitlized
  | Unauthorized
  | Chat_Unreachable

record 'p chat =
  chat_id :: channel_id
  owner_id :: "node_id option"
  users :: "(node_id \<times> 'p) list"
  chat_message_count :: u64

datatype 'p accept_result = Accept_AddUser 'p | Accept_NewMessage u64 | Accept_None

subsection \<open>Operations\<close>

definition chat_new :: "channel_id \<Rightarrow> 'p chat" where
  "chat_new cid = \<lparr>chat_id = cid, owner_id = None, users = [], chat_message_count = 0\<rparr>"

definition message_count :: "'p chat \<Rightarrow> u64" where
  "message_count self = chat_message_count self"

definition add_user ::
  "('p \<Rightarrow> node_id) \<Rightarrow> nat \<Rightarrow> 'p chat \<Rightarrow> 'p \<Rightarrow> (node_id, chat_error) result \<times> 'p chat" where
  "add_user compute_id MAX_USERS self key =
     (let nid = compute_id key in
      case index_map_insert MAX_USERS nid key (users self) of
        None \<Rightarrow> (Err MaxUsersExceeded, self)
      | Some users' \<Rightarrow> (Ok nid, self\<lparr>users := users'\<rparr>))"

definition accept_message ::
  "('p \<Rightarrow> node_id) \<Rightarrow> nat \<Rightarrow> 'p chat \<Rightarrow> channel_id \<Rightarrow> node_id \<Rightarrow> 'p protocol \<Rightarrow>
     ('p accept_result, chat_error) result \<times> 'p chat" where
  "accept_message compute_id MAX_USERS self cid author msg =
     (case msg of
        NewChannel new_channel \<Rightarrow>
          if cid \<noteq> chat_id self then (Err UnexpectedId, self)
          else
            (let (added, self) = add_user compute_id MAX_USERS self (nc_owner new_channel) in
             or_return added self (\<lambda>oid.
               (Ok Accept_None, self\<lparr>owner_id := Some oid\<rparr>)))
      | AddUser add_user_msg \<Rightarrow>
          (case owner_id self of
             None \<Rightarrow> (Err Uninitlized, self)
           | Some oid \<Rightarrow>
               if author \<noteq> oid then (Err Unauthorized, self)
               else
                 (let (added, self) = add_user compute_id MAX_USERS self (au_key add_user_msg) in
                  or_return added self (\<lambda>_. (Ok (Accept_AddUser (au_key add_user_msg)), self))))
      | ChatMessage _ \<Rightarrow>
          if map_of (users self) author = None then (Err Unauthorized, self)
          else
            or_return (ok_or (checked_add (chat_message_count self) 1) Chat_Unreachable) self (\<lambda>count.
              (Ok (Accept_NewMessage count), self\<lparr>chat_message_count := count\<rparr>)))"

subsection \<open>The user table\<close>

definition chat_inv :: "('p \<Rightarrow> node_id) \<Rightarrow> nat \<Rightarrow> 'p chat \<Rightarrow> bool" where
  "chat_inv compute_id MAX_USERS self \<longleftrightarrow>
     distinct (map fst (users self)) \<and> length (users self) \<le> MAX_USERS \<and>
     (\<forall>(nid, key) \<in> set (users self). nid = compute_id key) \<and>
     (case owner_id self of None \<Rightarrow> users self = [] | Some oid \<Rightarrow> map_of (users self) oid \<noteq> None)"

definition members :: "'p chat \<Rightarrow> node_id set" where
  "members self = fst ` set (users self)"

lemma members_iff: "nid \<in> members self \<longleftrightarrow> map_of (users self) nid \<noteq> None"
  by (force simp: members_def map_of_eq_None_iff)

lemma chat_new_inv [invariant_intros]: "chat_inv compute_id M (chat_new cid)"
  by (simp add: chat_inv_def chat_new_def)

lemma set_index_map_insert:
  "index_map_insert cap k v m = Some m' \<Longrightarrow> set m' \<subseteq> insert (k, v) (set m)"
proof -
  have "set (AList.update k v m) \<subseteq> insert (k, v) (set m)" for m :: "('a \<times> 'b) list"
    by (induction m) auto
  then show "index_map_insert cap k v m = Some m' \<Longrightarrow> set m' \<subseteq> insert (k, v) (set m)"
    by (auto simp: index_map_insert_def split: if_splits)
qed

lemma add_user_Ok:
  assumes "add_user compute_id M self key = (Ok nid, self')"
  shows "nid = compute_id key" "self' = self\<lparr>users := users self'\<rparr>"
    "index_map_insert M nid key (users self) = Some (users self')"
    "members self' = insert nid (members self)"
proof -
  from assms obtain us where us: "index_map_insert M (compute_id key) key (users self) = Some us"
      and self': "nid = compute_id key" "self' = self\<lparr>users := us\<rparr>"
    by (auto simp: add_user_def Let_def split: option.splits)
  then show "nid = compute_id key" "self' = self\<lparr>users := users self'\<rparr>"
    "index_map_insert M nid key (users self) = Some (users self')" by simp_all
  from us have "users self' = AList.update (compute_id key) key (users self)"
    using self' by (auto simp: index_map_insert_def split: if_splits)
  then have "members self' = insert (compute_id key) (members self)"
    by (simp add: members_def dom_update)
  with self' show "members self' = insert nid (members self)" by simp
qed

lemma add_user_Err: "add_user compute_id M self key = (Err e, self') \<Longrightarrow> e = MaxUsersExceeded \<and> self' = self"
  by (auto simp: add_user_def Let_def split: option.splits)

lemma add_user_not_Panic [simp]: "add_user compute_id M self key \<noteq> (Panic, self')"
  by (auto simp: add_user_def Let_def split: option.splits)

text \<open>The three ways a message is accepted, and the one way it is refused.\<close>

lemma accept_Err_unchanged:
  "accept_message compute_id M self cid author msg = (Err e, self') \<Longrightarrow> self' = self"
  by (auto simp: accept_message_def split: protocol.splits if_splits option.splits prod.splits
      result.splits elim!: or_return.elims ok_or.elims dest: add_user_Err)

lemma accept_not_Panic: "accept_message compute_id M self cid author msg \<noteq> (Panic, self')"
  by (auto simp: accept_message_def split: protocol.splits if_splits option.splits prod.splits
      elim!: or_return.elims ok_or.elims)

lemma accept_AddUser_Ok:
  assumes "accept_message compute_id M self cid author (AddUser u) = (Ok r, self')"
  shows "owner_id self = Some author" "r = Accept_AddUser (au_key u)"
    "add_user compute_id M self (au_key u) = (Ok (compute_id (au_key u)), self')"
  using assms add_user_Ok(1) [of compute_id M self "au_key u"]
  by (auto simp: accept_message_def split: if_splits option.splits prod.splits elim!: or_return.elims)

lemma accept_NewChannel_Ok:
  assumes "accept_message compute_id M self cid author (NewChannel nc) = (Ok r, self')"
  obtains self1 where "cid = chat_id self" "r = Accept_None"
    "add_user compute_id M self (nc_owner nc) = (Ok (compute_id (nc_owner nc)), self1)"
    "self' = self1\<lparr>owner_id := Some (compute_id (nc_owner nc))\<rparr>"
proof (cases "add_user compute_id M self (nc_owner nc)")
  case (Pair added self1)
  show thesis
  proof (cases added)
    case (Ok nid)
    from Pair Ok have "nid = compute_id (nc_owner nc)" by (simp add: add_user_Ok(1))
    with Pair Ok assms that show thesis by (simp add: accept_message_def split: if_splits)
  qed (use Pair assms in \<open>simp_all add: accept_message_def split: if_splits\<close>)
qed

lemma accept_ChatMessage_Ok:
  assumes "accept_message compute_id M self cid author (ChatMessage c) = (Ok r, self')"
  obtains n where "author \<in> members self" "r = Accept_NewMessage n"
    "unat n = Suc (unat (chat_message_count self))" "self' = self\<lparr>chat_message_count := n\<rparr>"
proof (cases "checked_add (chat_message_count self) 1")
  case None
  with assms show thesis by (simp add: accept_message_def split: if_splits)
next
  case (Some n)
  with assms have "author \<in> members self" "r = Accept_NewMessage n" "self' = self\<lparr>chat_message_count := n\<rparr>"
    by (auto simp: accept_message_def members_iff split: if_splits)
  with that checked_add_Some [OF Some] show thesis by simp
qed

lemma chat_inv_add_user:
  assumes "chat_inv compute_id M self" "add_user compute_id M self key = (Ok nid, self')"
  shows "distinct (map fst (users self'))" "length (users self') \<le> M"
    "\<forall>(n, k) \<in> set (users self'). n = compute_id k"
    "map_of (users self') = (map_of (users self))(nid \<mapsto> key)"
  using assms add_user_Ok(1,3) [OF assms(2)] index_map_insert_distinct [of M nid key "users self"]
    index_map_insert_length [of M nid key "users self"] set_index_map_insert [of M nid key "users self"]
    index_map_insert_Some [of M nid key "users self"]
  by (auto simp: chat_inv_def)

lemma accept_message_inv [invariant_intros]:
  assumes inv: "chat_inv compute_id M self"
    and step: "accept_message compute_id M self cid author msg = (r, self')"
  shows "chat_inv compute_id M self'"
proof (cases r)
  case (Ok a)
  show ?thesis
  proof (cases msg)
    case (AddUser u)
    with step Ok have acc: "accept_message compute_id M self cid author (AddUser u) = (Ok a, self')" by simp
    note add = accept_AddUser_Ok [OF acc]
    have "owner_id self' = owner_id self"
      using add_user_Ok(2) [OF add(3)] by (metis chat.select_convs(2) chat.surjective chat.update_convs(3))
    with chat_inv_add_user [OF inv add(3)] inv add(1) show ?thesis
      by (auto simp: chat_inv_def)
  next
    case (NewChannel nc)
    with step Ok have "accept_message compute_id M self cid author (NewChannel nc) = (Ok a, self')" by simp
    then obtain self1 where
        add: "add_user compute_id M self (nc_owner nc) = (Ok (compute_id (nc_owner nc)), self1)"
      and self': "self' = self1\<lparr>owner_id := Some (compute_id (nc_owner nc))\<rparr>"
      by (rule accept_NewChannel_Ok)
    from chat_inv_add_user [OF inv add] self' show ?thesis by (simp add: chat_inv_def)
  next
    case (ChatMessage c)
    with step Ok have "accept_message compute_id M self cid author (ChatMessage c) = (Ok a, self')" by simp
    then show ?thesis
      by (rule accept_ChatMessage_Ok) (use inv in \<open>auto simp: chat_inv_def split: option.splits dest: map_of_SomeD\<close>)
  qed
qed (use accept_Err_unchanged accept_not_Panic step inv in \<open>metis+\<close>)

subsection \<open>Properties\<close>

text \<open>
  C25. Every outcome of \<open>accept_message\<close>. An error leaves the chat unchanged and nothing panics. A user
  is added only on the word of the current owner; a chat message is taken only from a member and
  raises the message count by exactly one, which is the number returned; a new channel must name this
  channel, and makes the key it carries the owner. The user table stays well formed.
\<close>

theorem accept_message_effect:
  assumes "chat_inv compute_id M self"
    and "accept_message compute_id M self cid author msg = (r, self')"
  shows "chat_inv compute_id M self' \<and>
    (case r of
       Err e \<Rightarrow> self' = self
     | Panic \<Rightarrow> False
     | Ok (Accept_AddUser key) \<Rightarrow>
         owner_id self = Some author \<and> owner_id self' = owner_id self \<and>
         map_of (users self') = (map_of (users self))(compute_id key \<mapsto> key) \<and>
         message_count self' = message_count self
     | Ok (Accept_NewMessage n) \<Rightarrow>
         author \<in> members self \<and> unat n = Suc (unat (message_count self)) \<and>
         self' = self\<lparr>chat_message_count := n\<rparr>
     | Ok Accept_None \<Rightarrow>
         (\<exists>nc. msg = NewChannel nc \<and> cid = chat_id self \<and>
            owner_id self' = Some (compute_id (nc_owner nc)) \<and>
            map_of (users self') = (map_of (users self))(compute_id (nc_owner nc) \<mapsto> nc_owner nc) \<and>
            message_count self' = message_count self))"
proof (cases r)
  case (Ok a)
  have inv': "chat_inv compute_id M self'" by (rule accept_message_inv [OF assms])
  show ?thesis
  proof (cases msg)
    case (AddUser u)
    with assms(2) Ok have acc: "accept_message compute_id M self cid author (AddUser u) = (Ok a, self')"
      by simp
    note add = accept_AddUser_Ok [OF acc]
    obtain us where "self' = self\<lparr>users := us\<rparr>" using add_user_Ok(2) [OF add(3)] by blast
    with add(1,2) chat_inv_add_user(4) [OF assms(1) add(3)] Ok inv' show ?thesis
      by (simp add: message_count_def)
  next
    case (NewChannel nc)
    with assms(2) Ok have "accept_message compute_id M self cid author (NewChannel nc) = (Ok a, self')"
      by simp
    then obtain self1 where a: "cid = chat_id self" "a = Accept_None"
      and add: "add_user compute_id M self (nc_owner nc) = (Ok (compute_id (nc_owner nc)), self1)"
      and self': "self' = self1\<lparr>owner_id := Some (compute_id (nc_owner nc))\<rparr>"
      by (rule accept_NewChannel_Ok)
    obtain us where "self1 = self\<lparr>users := us\<rparr>" using add_user_Ok(2) [OF add] by blast
    with a self' chat_inv_add_user(4) [OF assms(1) add] Ok inv' NewChannel show ?thesis
      by (simp add: message_count_def)
  next
    case (ChatMessage c)
    with assms(2) Ok have "accept_message compute_id M self cid author (ChatMessage c) = (Ok a, self')"
      by simp
    then show ?thesis
      by (rule accept_ChatMessage_Ok) (use Ok inv' in \<open>simp add: message_count_def\<close>)
  qed
qed (use assms in \<open>auto dest: accept_Err_unchanged simp: accept_not_Panic\<close>)

text \<open>A chat with an owner and one member, over keys that are their own ids.\<close>

definition example_id :: "nat \<Rightarrow> node_id" where
  "example_id k = NodeId (Id (of_nat k))"

definition example_chat :: "nat chat" where
  "example_chat = \<lparr>chat_id = ChannelId (Id 3), owner_id = Some (example_id 1),
     users = [(example_id 1, 1), (example_id 2, 2)], chat_message_count = 5\<rparr>"

lemma example_chat_inv: "chat_inv example_id 4 example_chat"
  by (simp add: chat_inv_def example_chat_def example_id_def)

lemma accept_message_effect_witness:
  "accept_message example_id 4 example_chat (ChannelId (Id 3)) (example_id 2)
      (ChatMessage \<lparr>chat_text = ''hello''\<rparr>) =
    (Ok (Accept_NewMessage 6), example_chat\<lparr>chat_message_count := 6\<rparr>) \<and>
   chat_inv example_id 4 (example_chat\<lparr>chat_message_count := 6\<rparr>)"
proof -
  have "accept_message example_id 4 example_chat (ChannelId (Id 3)) (example_id 2)
      (ChatMessage \<lparr>chat_text = ''hello''\<rparr>) =
    (Ok (Accept_NewMessage 6), example_chat\<lparr>chat_message_count := 6\<rparr>)"
    by (simp add: accept_message_def example_chat_def example_id_def checked_add_def)
  with accept_message_effect [OF example_chat_inv this] show ?thesis by simp
qed

text \<open>
  C33. Any author can take a channel over: a \<^verbatim>\<open>NewChannel\<close> message that names the channel replaces the
  owner by the key it carries, whoever sent it and whoever owned the channel before, as long as the
  user table has room for the key. From then on the previous owner can no longer add users.
\<close>

theorem new_channel_takes_over:
  assumes "chat_inv compute_id M self" "owner_id self = Some old_owner"
    and "map_of (users self) (compute_id (nc_owner nc)) \<noteq> None \<or> length (users self) < M"
    and "compute_id (nc_owner nc) \<noteq> old_owner"
  shows "\<exists>self'. accept_message compute_id M self (chat_id self) author (NewChannel nc) =
      (Ok Accept_None, self') \<and>
    owner_id self' = Some (compute_id (nc_owner nc)) \<and>
    accept_message compute_id M self' (chat_id self) old_owner (AddUser u) = (Err Unauthorized, self')"
  using assms(3,4) by (auto simp: accept_message_def add_user_def index_map_insert_def Let_def)

lemma new_channel_takes_over_witness:
  "\<exists>self'. accept_message example_id 4 example_chat (chat_id example_chat) (example_id 2)
      (NewChannel \<lparr>nc_nonce = 0, nc_name = ''mine'', nc_owner = 2\<rparr>) = (Ok Accept_None, self') \<and>
    owner_id self' = Some (example_id 2) \<and>
    accept_message example_id 4 self' (chat_id example_chat) (example_id 1)
      (AddUser \<lparr>au_name = ''x'', au_key = 3\<rparr>) = (Err Unauthorized, self')"
  using new_channel_takes_over [OF example_chat_inv, of "example_id 1"
      "\<lparr>nc_nonce = 0, nc_name = ''mine'', nc_owner = 2\<rparr>" "example_id 2" "\<lparr>au_name = ''x'', au_key = 3\<rparr>"]
  by (simp add: example_chat_def example_id_def)

end
