(* ===== verification/Storage.thy ===== *)
theory Storage
  imports Ids
begin

text \<open>
  \<^verbatim>\<open>protocol/src/storage.rs\<close> and \<^verbatim>\<open>storage/slab.rs\<close>: records in slabs of bytes, cursors into them, the
  \<^verbatim>\<open>IO\<close> trait of a slab device and the store on top of it.

  \<^item> The \<^verbatim>\<open>postcard\<close> crate, which turns values into bytes, is a parameter: a value of type
    \<open>'a serde\<close> holds its two functions for the type \<open>'a\<close>. \<open>serde_ok S enc\<close> is what its
    documentation promises of them, for the encoding \<open>enc\<close>.
  \<^item> The trait \<^verbatim>\<open>IO\<close> is the record \<open>io_trait\<close> of its methods over a device state \<open>'i\<close>, and the code
    that is generic in \<^verbatim>\<open>I: IO\<close> takes that record as an argument.
  \<^item> The locale \<open>slab_io\<close> is the contract of a device; the store's operations are proved against it.
    \<^verbatim>\<open>MemIO\<close> is shown to meet the contract in the theory \<open>Mem_IO\<close>.
\<close>

subsection \<open>Serialisation, a third-party interface\<close>

datatype postcard_error = SerializeBufferFull | OtherPostcardError nat

record 'a serde =
  to_slice :: "'a \<Rightarrow> u8 list \<Rightarrow> (u8 list, postcard_error) result \<times> u8 list"
  from_bytes :: "u8 list \<Rightarrow> ('a, postcard_error) result"

text \<open>
  \<open>to_slice x buf\<close> answers with the bytes written and the buffer afterwards. The value is written at
  the start of the buffer; a buffer that is too small is refused, with contents that are not
  specified but of the same length. Reading the bytes of a value gives the value back, and reading
  does not panic on any bytes.
\<close>

definition serde_ok :: "'a serde \<Rightarrow> ('a \<Rightarrow> u8 list) \<Rightarrow> bool" where
  "serde_ok S enc \<longleftrightarrow>
     (\<forall>x buf. length (enc x) \<le> length buf \<longrightarrow> to_slice S x buf = (Ok (enc x), overwrite buf 0 (enc x))) \<and>
     (\<forall>x buf. length buf < length (enc x) \<longrightarrow>
        fst (to_slice S x buf) = Err SerializeBufferFull \<and> length (snd (to_slice S x buf)) = length buf) \<and>
     (\<forall>x. from_bytes S (enc x) = Ok x) \<and> (\<forall>x. enc x \<noteq> []) \<and>
     (\<forall>bs. from_bytes S bs \<noteq> Panic)"

lemma serde_to_slice_fits:
  "serde_ok S enc \<Longrightarrow> length (enc x) \<le> length buf \<Longrightarrow>
    to_slice S x buf = (Ok (enc x), overwrite buf 0 (enc x))"
  by (simp add: serde_ok_def)

lemma serde_to_slice_full:
  assumes "serde_ok S enc" "length buf < length (enc x)"
  obtains buf' where "to_slice S x buf = (Err SerializeBufferFull, buf')" "length buf' = length buf"
  using assms by (metis serde_ok_def prod.collapse)

lemma serde_from_bytes [simp]: "serde_ok S enc \<Longrightarrow> from_bytes S (enc x) = Ok x"
  by (simp add: serde_ok_def)

lemma serde_no_panic: "serde_ok S enc \<Longrightarrow> from_bytes S bs \<noteq> Panic"
  by (simp add: serde_ok_def)

lemma serde_nonempty: "serde_ok S enc \<Longrightarrow> 0 < length (enc x)"
  by (simp add: serde_ok_def)

subsection \<open>Data\<close>

datatype storage_error =
    DbFull
  | RecordTooLarge nat
  | Storage_Unreachable
  | CorruptDB
  | OutOfBounds
  | Unimplemented
  | PostcardError postcard_error
  | SlabFull
  | OutOfOrder

fun storage_error_from :: "postcard_error \<Rightarrow> storage_error" where
  "storage_error_from SerializeBufferFull = SlabFull"
| "storage_error_from value = PostcardError value"

record cursor =
  cur_slab :: nat
  cur_offset :: nat
  cur_read_count :: u32

record stored =
  rec_max_sequence :: u64
  rec_message_count :: u64
  rec_sequence :: u64
  rec_sender :: node_id
  rec_data :: "u8 list"

lemma stored_eta [simp]:
  "\<lparr>rec_max_sequence = rec_max_sequence r, rec_message_count = rec_message_count r,
    rec_sequence = rec_sequence r, rec_sender = rec_sender r, rec_data = rec_data r\<rparr> = (r :: stored)"
  by (cases r) simp

record slab =
  slab_slab :: nat
  slab_offset :: nat
  slab_count :: u32
  slab_max_sequence :: u64
  slab_records :: "u8 list"

record 'i slab_writer =
  w_count :: u32
  w_slab_max_sequence :: u64
  w_slab_offset :: nat
  w_offset :: nat
  w_end :: nat
  w_io :: 'i

record 'i io_trait =
  io_truncate :: "'i \<Rightarrow> (unit, storage_error) result \<times> 'i"
  io_slab_size :: "'i \<Rightarrow> nat"
  io_free_slabs :: "'i \<Rightarrow> (nat, storage_error) result"
  io_slab_count :: "'i \<Rightarrow> (nat, storage_error) result"
  io_get_slab :: "'i \<Rightarrow> nat \<Rightarrow> (slab, storage_error) result"
  io_new_writer :: "'i \<Rightarrow> ('i slab_writer, storage_error) result"
  io_write_record :: "'i \<Rightarrow> nat \<Rightarrow> nat \<Rightarrow> stored \<Rightarrow> (nat, storage_error) result \<times> 'i"
  io_commit :: "'i \<Rightarrow> u32 \<Rightarrow> u64 \<Rightarrow> nat \<Rightarrow> (unit, storage_error) result \<times> 'i"
  io_get_head :: "'i \<Rightarrow> (nat, storage_error) result"

record 'i storage =
  storage_io :: 'i

subsection \<open>Reading and writing integers\<close>

definition read_arr :: "nat \<Rightarrow> u8 list \<Rightarrow> nat \<Rightarrow> (u8 list \<times> nat, storage_error) result" where
  "read_arr SIZE data offset =
     bind_ok (ok_or (checked_add_usize offset SIZE) CorruptDB) (\<lambda>fin.
     bind_ok (ok_or (range_get data offset fin) OutOfBounds) (\<lambda>slice.
     if length slice = SIZE then Ok (slice, fin) else Err Storage_Unreachable))"

definition write_arr :: "u8 list \<Rightarrow> u8 list \<Rightarrow> nat \<Rightarrow> (nat, storage_error) result \<times> u8 list" where
  "write_arr data target offset =
     or_return (ok_or (checked_add_usize offset (length data)) CorruptDB) target (\<lambda>fin.
     or_return (ok_or (range_get target offset fin) OutOfBounds) target (\<lambda>_.
     (Ok fin, overwrite target offset data)))"

definition read_u32 :: "u8 list \<Rightarrow> nat \<Rightarrow> (u32 \<times> nat, storage_error) result" where
  "read_u32 data offset =
     bind_ok (read_arr 4 data offset) (\<lambda>(len_arr, len_end). Ok (from_be_bytes len_arr, len_end))"

definition write_u32 :: "u32 \<Rightarrow> u8 list \<Rightarrow> nat \<Rightarrow> (nat, storage_error) result \<times> u8 list" where
  "write_u32 value target offset = write_arr (to_be_bytes value) target offset"

definition read_u64 :: "u8 list \<Rightarrow> nat \<Rightarrow> (u64 \<times> nat, storage_error) result" where
  "read_u64 data offset =
     bind_ok (read_arr 8 data offset) (\<lambda>(len_arr, len_end). Ok (from_be_bytes len_arr, len_end))"

definition write_u64 :: "u64 \<Rightarrow> u8 list \<Rightarrow> nat \<Rightarrow> (nat, storage_error) result \<times> u8 list" where
  "write_u64 value target offset = write_arr (to_be_bytes value) target offset"

subsection \<open>Slabs\<close>

definition slab_new :: "u8 list \<Rightarrow> nat \<Rightarrow> (slab, storage_error) result" where
  "slab_new data index =
     bind_ok (read_u32 data 0) (\<lambda>(count, offset).
     bind_ok (read_u64 data offset) (\<lambda>(max_sequence, offset).
     Ok \<lparr>slab_slab = index, slab_offset = offset, slab_count = count,
        slab_max_sequence = max_sequence, slab_records = data\<rparr>))"

definition record_count :: "slab \<Rightarrow> u32" where
  "record_count self = slab_count self"

definition slab_get_head :: "slab \<Rightarrow> cursor" where
  "slab_get_head self =
     \<lparr>cur_slab = slab_slab self, cur_offset = slab_offset self, cur_read_count = 0\<rparr>"

definition slab_read ::
  "stored serde \<Rightarrow> slab \<Rightarrow> cursor \<Rightarrow> ((stored \<times> cursor) option, storage_error) result" where
  "slab_read S self cursor =
     (if cur_read_count cursor \<ge> record_count self then Ok None
      else
        bind_ok (read_u32 (slab_records self) (cur_offset cursor)) (\<lambda>(len, offset).
        if len = 0 then Ok None
        else
          bind_ok (ok_or (checked_add_usize offset (unat len)) CorruptDB) (\<lambda>end_offset.
          bind_ok (ok_or (range_get (slab_records self) offset end_offset) CorruptDB) (\<lambda>slice.
          bind_ok (map_err storage_error_from (from_bytes S slice)) (\<lambda>record.
          bind_ok (ok_or (checked_add (cur_read_count cursor) 1) Storage_Unreachable) (\<lambda>read_count.
          Ok (Some (record,
            cursor\<lparr>cur_offset := end_offset, cur_read_count := read_count\<rparr>))))))))"

definition INITIAL_OFFSET :: nat where
  "INITIAL_OFFSET = 4 + 8"

definition slab_writer_new :: "'i \<Rightarrow> nat \<Rightarrow> nat \<Rightarrow> ('i slab_writer, storage_error) result" where
  "slab_writer_new io offset fin =
     (if offset \<le> fin \<and> INITIAL_OFFSET < fin - offset then
        Ok \<lparr>w_count = 0, w_slab_max_sequence = 0, w_slab_offset = offset,
           w_offset = offset + INITIAL_OFFSET, w_end = fin, w_io = io\<rparr>
      else Panic)"

definition write_record ::
  "'i io_trait \<Rightarrow> 'i slab_writer \<Rightarrow> u64 \<Rightarrow> u64 \<Rightarrow> u64 \<Rightarrow> node_id \<Rightarrow> u8 list \<Rightarrow>
     (unit, storage_error) result \<times> 'i slab_writer" where
  "write_record T self max_sequence message_count sequence sender data =
     (let record = \<lparr>rec_max_sequence = max_sequence, rec_message_count = message_count,
        rec_sequence = sequence, rec_sender = sender, rec_data = data\<rparr> in
      if w_slab_max_sequence self > rec_max_sequence record then (Err OutOfOrder, self)
      else
        (let (wrote, io) = io_write_record T (w_io self) (w_offset self) (w_end self) record;
             self = self\<lparr>w_io := io\<rparr> in
         or_return wrote self (\<lambda>fin.
         or_return (ok_or (checked_add (w_count self) 1) Storage_Unreachable) self (\<lambda>count.
         (Ok (), self\<lparr>w_count := count, w_slab_max_sequence := rec_max_sequence record,
            w_offset := fin\<rparr>)))))"

definition commit :: "'i io_trait \<Rightarrow> 'i slab_writer \<Rightarrow> (unit, storage_error) result \<times> 'i" where
  "commit T self =
     io_commit T (w_io self) (w_count self) (w_slab_max_sequence self) (w_slab_offset self)"

subsection \<open>The store\<close>

definition storage_new :: "'i \<Rightarrow> 'i storage" where
  "storage_new io = \<lparr>storage_io = io\<rparr>"

lemma slab_read_SomeE:
  assumes "slab_read S self cursor = Ok (Some (record, nxt))"
  obtains len offset slice read_count where
    "cur_read_count cursor < slab_count self"
    "read_u32 (slab_records self) (cur_offset cursor) = Ok (len, offset)" "len \<noteq> 0"
    "offset + unat len < usize_limit"
    "range_get (slab_records self) offset (offset + unat len) = Some slice"
    "from_bytes S slice = Ok record"
    "checked_add (cur_read_count cursor) 1 = Some read_count"
    "nxt = cursor\<lparr>cur_offset := offset + unat len, cur_read_count := read_count\<rparr>"
proof -
  have lt: "cur_read_count cursor < slab_count self"
    using assms by (simp add: slab_read_def record_count_def not_le split: if_splits)
  with assms obtain p where p: "read_u32 (slab_records self) (cur_offset cursor) = Ok p"
      "(\<lambda>(len, offset). if len = 0 then Ok None else
          bind_ok (ok_or (checked_add_usize offset (unat len)) CorruptDB) (\<lambda>end_offset.
          bind_ok (ok_or (range_get (slab_records self) offset end_offset) CorruptDB) (\<lambda>slice.
          bind_ok (map_err storage_error_from (from_bytes S slice)) (\<lambda>record.
          bind_ok (ok_or (checked_add (cur_read_count cursor) 1) Storage_Unreachable) (\<lambda>read_count.
          Ok (Some (record, cursor\<lparr>cur_offset := end_offset, cur_read_count := read_count\<rparr>)))))))
        p = Ok (Some (record, nxt))"
    unfolding slab_read_def record_count_def by (simp only: not_le [symmetric] if_False) (erule bind_ok_OkE)
  obtain len offset where eq: "p = (len, offset)" by (cases p)
  from p(2) have len: "len \<noteq> 0" unfolding eq by auto
  with p(2) show thesis
    unfolding eq prod.case if_not_P [OF len]
    by (elim bind_ok_OkE) (use lt p(1) eq len in \<open>auto simp: result_simps intro: that\<close>)
qed

lemma slab_read_progress:
  assumes "slab_read S self cursor = Ok (Some (record, nxt))"
  shows "unat (cur_read_count cursor) < unat (slab_count self)"
    "unat (cur_read_count nxt) = Suc (unat (cur_read_count cursor))"
    "cur_slab nxt = cur_slab cursor"
  using assms
  by (elim slab_read_SomeE; simp add: word_less_nat_alt checked_add_Some)+

lemma slab_read_decreases:
  assumes "slab_read S self cursor = Ok (Some (record, nxt))"
  shows "unat (slab_count self) - unat (cur_read_count nxt)
    < unat (slab_count self) - unat (cur_read_count cursor)"
  using slab_read_progress [OF assms] by linarith

text \<open>
  The two searches differ in the test on the record only. \<open>scan_slab\<close> is their inner loop, over the
  records of a slab, and \<open>scan_slabs\<close> the outer one, over the slabs from \<open>index\<close> on. The first ends
  because every read counts up to the slab's record count, the second because an index of type
  \<^verbatim>\<open>usize\<close> runs out.
\<close>

function scan_slab ::
  "stored serde \<Rightarrow> (stored \<Rightarrow> bool) \<Rightarrow> slab \<Rightarrow> cursor \<Rightarrow> cursor \<Rightarrow> (cursor option, storage_error) result" where
  "scan_slab S found slab cursor curosr_copy =
     (case slab_read S slab cursor of
        Err e \<Rightarrow> Err e
      | Panic \<Rightarrow> Panic
      | Ok None \<Rightarrow> Ok None
      | Ok (Some (record, nxt)) \<Rightarrow>
          if found record then Ok (Some curosr_copy) else scan_slab S found slab nxt nxt)"
  by pat_completeness auto
termination
  by (relation "measure (\<lambda>(S, found, slab, cursor, cc). unat (slab_count slab) - unat (cur_read_count cursor))")
    (auto intro: slab_read_decreases)

declare scan_slab.simps [simp del]

function scan_slabs ::
  "'i io_trait \<Rightarrow> stored serde \<Rightarrow> (stored \<Rightarrow> bool) \<Rightarrow> 'i \<Rightarrow> nat \<Rightarrow> (cursor option, storage_error) result" where
  "scan_slabs T S found io index =
     (case io_get_slab T io index of
        Err OutOfBounds \<Rightarrow> Ok None
      | Err e \<Rightarrow> Err e
      | Panic \<Rightarrow> Panic
      | Ok slab \<Rightarrow>
          (case scan_slab S found slab (slab_get_head slab) (slab_get_head slab) of
             Err e \<Rightarrow> Err e
           | Panic \<Rightarrow> Panic
           | Ok (Some c) \<Rightarrow> Ok (Some c)
           | Ok None \<Rightarrow>
               (case checked_add_usize index 1 of
                  Some v \<Rightarrow> scan_slabs T S found io v
                | None \<Rightarrow> Ok None)))"
  by pat_completeness auto
termination
  by (relation "measure (\<lambda>(T, S, found, io, index). usize_limit - index)") auto

declare scan_slabs.simps [simp del]

definition get_cursor_from_sequence ::
  "'i io_trait \<Rightarrow> stored serde \<Rightarrow> 'i storage \<Rightarrow> u64 \<Rightarrow> (cursor option, storage_error) result" where
  "get_cursor_from_sequence T S self sequence =
     bind_ok (io_get_head T (storage_io self)) (\<lambda>index.
       scan_slabs T S (\<lambda>record. rec_max_sequence record \<ge> sequence) (storage_io self) index)"

definition get_cursor_from_index ::
  "'i io_trait \<Rightarrow> stored serde \<Rightarrow> 'i storage \<Rightarrow> u64 \<Rightarrow> (cursor option, storage_error) result" where
  "get_cursor_from_index T S self message_index =
     bind_ok (io_get_head T (storage_io self)) (\<lambda>index.
       scan_slabs T S (\<lambda>record. rec_message_count record \<ge> message_index) (storage_io self) index)"

definition storage_read ::
  "'i io_trait \<Rightarrow> stored serde \<Rightarrow> 'i storage \<Rightarrow> cursor \<Rightarrow> ((u8 list \<times> cursor) option, storage_error) result" where
  "storage_read T S self cursor =
     (let slab_index = cur_slab cursor in
      bind_ok (io_get_slab T (storage_io self) slab_index) (\<lambda>slab.
      bind_ok (slab_read S slab cursor) (\<lambda>r.
      case r of
        Some (record, nxt) \<Rightarrow> Ok (Some (rec_data record, nxt))
      | None \<Rightarrow>
          (case checked_add_usize slab_index 1 of
             None \<Rightarrow> Ok None
           | Some next_index \<Rightarrow>
               bind_ok (io_slab_count T (storage_io self)) (\<lambda>count.
               if next_index \<ge> count then Ok None
               else
                 bind_ok (io_get_slab T (storage_io self) next_index) (\<lambda>slab.
                 bind_ok (slab_read S slab (slab_get_head slab)) (\<lambda>r.
                 case r of
                   Some (record, nxt) \<Rightarrow> Ok (Some (rec_data record, nxt))
                 | None \<Rightarrow> Err Storage_Unreachable)))))))"

definition get_writer ::
  "'i io_trait \<Rightarrow> 'i storage \<Rightarrow> ('i slab_writer, storage_error) result" where
  "get_writer T self = io_new_writer T (storage_io self)"

end
