(* ===== verification/Crypto.thy ===== *)
theory Crypto
  imports Channel Chat Storage
begin

text \<open>
  \<^verbatim>\<open>protocol/src/crypto.rs\<close>: key pairs, sealed envelopes, and the trait \<^verbatim>\<open>Crypto\<close> as the record of
  its methods over a state \<open>'c\<close>, a private key type \<open>'s\<close> and a public key type \<open>'p\<close>. The client
  seals and opens messages whose data is a \<^verbatim>\<open>Protocol\<close>, so that is the type of message here. The
  default method \<^verbatim>\<open>get_id\<close>, which panics and is never called, is left out.
\<close>

definition MAX_SIG :: nat where
  "MAX_SIG = 256"

definition MAX_ENVELOPE :: nat where
  "MAX_ENVELOPE = 1024 - MAX_SIG"

record ('s, 'p) key_pair =
  kp_public :: 'p
  kp_private :: 's

record sealed_envelope =
  env_from :: node_id
  env_to :: recipient
  env_serialized :: "u8 list"
  env_signature :: "u8 list"

datatype crypto_error =
    Crypto_PostcardError postcard_error
  | Crypto_Unreachable
  | InternalError
  | MaxEnvelope
  | MaxSig
  | VerifyError

definition vec_from_slice :: "nat \<Rightarrow> 'a list \<Rightarrow> 'a list option" where
  "vec_from_slice cap xs = (if length xs \<le> cap then Some xs else None)"

definition sealed_envelope_new ::
  "nat \<Rightarrow> nat \<Rightarrow> node_id \<Rightarrow> recipient \<Rightarrow> u8 list \<Rightarrow> u8 list \<Rightarrow> (sealed_envelope, crypto_error) result" where
  "sealed_envelope_new MAX_ENV MAX_SIGNATURE from to serialized signature =
     (case vec_from_slice MAX_ENV serialized of
        None \<Rightarrow> Err MaxEnvelope
      | Some data_vec \<Rightarrow>
          (case vec_from_slice MAX_SIGNATURE signature of
             None \<Rightarrow> Err MaxSig
           | Some sig_vec \<Rightarrow>
               Ok \<lparr>env_from = from, env_to = to, env_serialized = data_vec, env_signature = sig_vec\<rparr>))"

record ('c, 's, 'p) crypto_trait =
  compute_id :: "'p \<Rightarrow> node_id"
  envelope_id_of :: "'c \<Rightarrow> sealed_envelope \<Rightarrow> envelope_id"
  seal :: "'c \<Rightarrow> node_id \<Rightarrow> recipient \<Rightarrow> ('s, 'p) key_pair \<Rightarrow> 'p protocol message \<Rightarrow> u8 list \<Rightarrow>
    (sealed_envelope, crypto_error) result \<times> u8 list"
  open_envelope :: "'c \<Rightarrow> 'p \<Rightarrow> sealed_envelope \<Rightarrow> ('p protocol message, crypto_error) result"
  nonce :: "'c \<Rightarrow> u128 \<times> 'c"
  make_signing_keys :: "'c \<Rightarrow> (('s, 'p) key_pair, crypto_error) result \<times> 'c"
  channel_id_from_bytes :: "'c \<Rightarrow> u8 list \<Rightarrow> channel_id"

text \<open>
  The contract the client's exchange of messages rests on: an envelope carries its sender and its
  recipient, fits the buffers of the client, and opens under the public key of the pair that sealed
  it to the message that was sealed; opening does not panic. \<open>matching\<close> says which pairs belong together.
\<close>

locale sealing =
  fixes C :: "('c, 's, 'p) crypto_trait" and matching :: "('s, 'p) key_pair \<Rightarrow> bool"
  assumes seal_fields: "matching kp \<Longrightarrow> seal C c from to kp m target = (Ok env, target') \<Longrightarrow>
      env_from env = from \<and> env_to env = to \<and> length (env_serialized env) \<le> MAX_ENVELOPE \<and>
      length (env_signature env) \<le> MAX_SIG \<and> length target' = length target"
    and seal_open: "matching kp \<Longrightarrow> seal C c from to kp m target = (Ok env, target') \<Longrightarrow>
      open_envelope C c' (kp_public kp) env = Ok m"
    and open_no_panic: "matching kp \<Longrightarrow> open_envelope C c key env' \<noteq> Panic"
begin

lemma open_sealed:
  assumes "matching kp" "seal C c from to kp m target = (Ok env, target')" "key = kp_public kp"
  shows "env_from env = from" "open_envelope C c' key env = Ok m"
  using seal_fields [OF assms(1,2)] seal_open [OF assms(1,2)] assms(3) by simp_all

end

end
