(* ===== verification/Sync.thy ===== *)
theory Sync
  imports Ids
begin

text \<open>
  \<^verbatim>\<open>protocol/src/sync.rs\<close>: the state and the messages of a synchronisation between two devices. The
  vectors of capacity \<^verbatim>\<open>MAX_NODES\<close> are lists; the operations that push to them check the capacity.
\<close>

record sync_clock =
  clk_node :: node_id
  clk_sequence :: u64

definition sync_clock_new :: "node_id \<Rightarrow> u64 \<Rightarrow> sync_clock" where
  "sync_clock_new node sequence = \<lparr>clk_node = node, clk_sequence = sequence\<rparr>"

record sync_request =
  req_session_id :: u32
  req_bytes_budget :: u32
  req_vector_clock :: "sync_clock list"

record sync_responder_state =
  rs_session_id :: u32
  rs_bytes_budget :: u32
  rs_bytes_sent :: u32
  rs_last_command_index :: u64
  rs_vector_clock :: "sync_clock list"

record sync_requester_state =
  rq_session_id :: u32
  rq_bytes_budget :: u32
  rq_bytes_received :: u32
  rq_last_received_timestamp :: u64

record sync_response =
  resp_session_id :: u32
  resp_count :: u32
  resp_data :: "u8 list"

definition sync_responder_new :: "sync_request \<Rightarrow> sync_responder_state" where
  "sync_responder_new request =
     \<lparr>rs_session_id = req_session_id request, rs_bytes_budget = req_bytes_budget request,
      rs_bytes_sent = 0, rs_last_command_index = 0, rs_vector_clock = []\<rparr>"

definition get_min_sequence :: "sync_responder_state \<Rightarrow> u64 option" where
  "get_min_sequence self =
     (case slice_get (rs_vector_clock self) 0 of
        None \<Rightarrow> None
      | Some first \<Rightarrow>
          Some (foldl (\<lambda>m c. if m > clk_sequence c then clk_sequence c else m)
            (clk_sequence first) (rs_vector_clock self)))"

definition sync_response_new :: "nat \<Rightarrow> u32 \<Rightarrow> sync_response" where
  "sync_response_new RESPONSE_MAX session_id =
     \<lparr>resp_session_id = session_id, resp_count = 0, resp_data = replicate RESPONSE_MAX 0\<rparr>"

text \<open>The loop computes the least sequence of the vector.\<close>

lemma foldl_min:
  "foldl (\<lambda>m c. if m > f c then f c else m) (a :: 'a::linorder) cs = Min (insert a (f ` set cs))"
proof (induction cs arbitrary: a)
  case Nil
  then show ?case by simp
next
  case (Cons c cs)
  have step: "(if a > f c then f c else a) = min a (f c)" by (auto simp: min_def)
  have "Min (insert (min a (f c)) (f ` set cs)) = Min (insert a (insert (f c) (f ` set cs)))"
  proof (cases "cs = []")
    case False
    then show ?thesis by (simp add: min.assoc)
  qed simp
  then show ?case by (simp only: foldl.simps step Cons.IH list.set image_insert)
qed

lemma get_min_sequence_Min:
  "get_min_sequence self =
    (if rs_vector_clock self = [] then None
     else Some (Min (clk_sequence ` set (rs_vector_clock self))))"
  by (cases "rs_vector_clock self") (auto simp: get_min_sequence_def slice_get_def foldl_min insert_absorb)

end
