(* ===== verification/Client.thy ===== *)
theory Client
  imports Crypto Sync
begin

text \<open>
  \<^verbatim>\<open>protocol/src/lib.rs\<close>: the client, which ties a channel's state, chat and storage together. The
  code is generic in the device, the cryptography and two capacities, and it calls \<^verbatim>\<open>postcard\<close> at
  three types; the record \<open>deps\<close> holds what it is given. A method with \<^verbatim>\<open>&mut self\<close> returns its result
  with the client afterwards, on every path, so that what an early return leaves behind is visible.
\<close>

subsection \<open>Data\<close>

datatype client_error =
    SerializationError postcard_error
  | ChannelError channel_error
  | CryptoError crypto_error
  | ChatError chat_error
  | StorageError storage_error
  | ChannelLimit
  | Client_Unreachable
  | StringTooLarge
  | UnknownChannel
  | MessageToLarge
  | SafeStaticError
  | MessageIndexOutOfBounds

record ('p, 'i) channel =
  ch_state :: "'p channel_state"
  ch_storage :: "'i storage"
  ch_chat :: "'p chat"

type_synonym ('p, 'i) client_channels = "(channel_id \<times> ('p, 'i) channel) list"

definition client_channels_new :: "('p, 'i) client_channels" where
  "client_channels_new = []"

definition LEN_SIZE :: nat where
  "LEN_SIZE = 4"

record ('c, 's, 'p, 'i) client =
  cl_crypto :: 'c
  cl_node_id :: node_id
  cl_key_pair :: "('s, 'p) key_pair"
  cl_channels :: "('p, 'i) client_channels"

record ('c, 's, 'p, 'i) deps =
  d_crypto :: "('c, 's, 'p) crypto_trait"
  d_io :: "'i io_trait"
  d_records :: "stored serde"
  d_envelopes :: "sealed_envelope serde"
  d_new_channels :: "'p new_channel serde"
  d_max_nodes :: nat
  d_max_channels :: nat

definition client_new ::
  "('c, 's, 'p, 'i) deps \<Rightarrow> ('s, 'p) key_pair \<Rightarrow> 'c \<Rightarrow> ('p, 'i) client_channels \<Rightarrow> ('c, 's, 'p, 'i) client" where
  "client_new D key_pair crypto channels =
     \<lparr>cl_crypto = crypto, cl_node_id = compute_id (d_crypto D) (kp_public key_pair),
      cl_key_pair = key_pair, cl_channels = channels\<rparr>"

definition get_pub_key :: "('c, 's, 'p, 'i) client \<Rightarrow> 'p" where
  "get_pub_key self = kp_public (cl_key_pair self)"

definition get_node_id :: "('c, 's, 'p, 'i) client \<Rightarrow> node_id" where
  "get_node_id self = cl_node_id self"

definition find_channel :: "('c, 's, 'p, 'i) client \<Rightarrow> channel_id \<Rightarrow> (('p, 'i) channel, client_error) result" where
  "find_channel self cid = ok_or (map_of (cl_channels self) cid) UnknownChannel"

definition put_channel ::
  "channel_id \<Rightarrow> ('p, 'i) channel \<Rightarrow> ('c, 's, 'p, 'i) client \<Rightarrow> ('c, 's, 'p, 'i) client" where
  "put_channel cid ch self = self\<lparr>cl_channels := AList.update cid ch (cl_channels self)\<rparr>"

text \<open>\<^verbatim>\<open>String::try_from\<close> into a string of the given capacity.\<close>

definition string_try_from :: "nat \<Rightarrow> string \<Rightarrow> string option" where
  "string_try_from cap s = (if length s \<le> cap then Some s else None)"

subsection \<open>Storing a message\<close>

definition write_and_commit ::
  "'i io_trait \<Rightarrow> 'i slab_writer \<Rightarrow> u64 \<Rightarrow> u64 \<Rightarrow> u64 \<Rightarrow> node_id \<Rightarrow> u8 list \<Rightarrow>
     (unit, client_error) result \<times> 'i storage" where
  "write_and_commit T slab_writer max_sequence count sequence from bytes =
     (let (wrote, slab_writer) = write_record T slab_writer max_sequence count sequence from bytes in
      or_return (map_err StorageError wrote) \<lparr>storage_io = w_io slab_writer\<rparr> (\<lambda>_.
      let (committed, io) = commit T slab_writer in
      or_return (map_err StorageError committed) \<lparr>storage_io = io\<rparr> (\<lambda>_.
      (Ok (), \<lparr>storage_io = io\<rparr>))))"

definition remember_key ::
  "('c, 's, 'p, 'i) deps \<Rightarrow> ('p, 'i) channel \<Rightarrow> 'p accept_result \<Rightarrow>
     (unit, client_error) result \<times> ('p, 'i) channel" where
  "remember_key D channel result =
     (case result of
        Accept_AddUser new_pub_key \<Rightarrow>
          (let node_id = compute_id (d_crypto D) new_pub_key;
               (added, state) = add_node (d_max_nodes D) (ch_state channel) node_id new_pub_key in
           (map_err ChannelError added, channel\<lparr>ch_state := state\<rparr>))
      | _ \<Rightarrow> (Ok (), channel))"

text \<open>
  What \<^verbatim>\<open>do_send\<close> and \<^verbatim>\<open>do_receive\<close> both do with a message that has passed the check: the chat
  accepts it, the state receives it, and the key of an added user is kept.
\<close>

definition take_message ::
  "('c, 's, 'p, 'i) deps \<Rightarrow> ('p, 'i) channel \<Rightarrow> channel_id \<Rightarrow> node_id \<Rightarrow> 'p protocol message \<Rightarrow> envelope_id \<Rightarrow>
     (u64, client_error) result \<times> ('p, 'i) channel" where
  "take_message D channel cid from message eid =
     (let (accepted, chat) = accept_message (compute_id (d_crypto D)) (d_max_nodes D) (ch_chat channel)
            cid from (msg_data message);
          channel = channel\<lparr>ch_chat := chat\<rparr> in
      or_return (map_err ChatError accepted) channel (\<lambda>result.
      let (received, state) = receive (ch_state channel) from message eid;
          channel = channel\<lparr>ch_state := state\<rparr> in
      or_return (map_err (\<lambda>_. Client_Unreachable) received) channel (\<lambda>max_sequence.
      let (added, channel) = remember_key D channel result in
      or_return added channel (\<lambda>_. (Ok max_sequence, channel)))))"

subsection \<open>Sending\<close>

definition do_send ::
  "('c, 's, 'p, 'i) deps \<Rightarrow> ('c, 's, 'p, 'i) client \<Rightarrow> channel_id \<Rightarrow> 'p protocol \<Rightarrow>
     (unit, client_error) result \<times> ('c, 's, 'p, 'i) client" where
  "do_send D self cid data =
     (let from = cl_node_id self;
          to = Channel cid;
          target = replicate 4096 0 in
      or_return (find_channel self cid) self (\<lambda>channel.
      or_return (map_err ChannelError (address (ch_state channel) from data)) self (\<lambda>message.
      let sequence = msg_sequence message;
          (sealed, target) = seal (d_crypto D) (cl_crypto self) from to (cl_key_pair self) message target in
      or_return (map_err CryptoError sealed) self (\<lambda>envelope.
      let eid = envelope_id_of (d_crypto D) (cl_crypto self) envelope in
      or_return (map_err ChannelError (check_receive (ch_state channel) from message eid)) self (\<lambda>_.
      let (taken, channel) = take_message D channel cid from message eid in
      or_return taken (put_channel cid channel self) (\<lambda>max_sequence.
      let count = message_count (ch_chat channel) in
      or_return (map_err StorageError (get_writer (d_io D) (ch_storage channel)))
        (put_channel cid channel self) (\<lambda>slab_writer.
      let (serialized, target) = to_slice (d_envelopes D) envelope target in
      or_return (map_err SerializationError serialized) (put_channel cid channel self) (\<lambda>serialized_envelope.
      let (stored, storage) = write_and_commit (d_io D) slab_writer max_sequence count sequence from
            serialized_envelope;
          channel = channel\<lparr>ch_storage := storage\<rparr> in
      or_return stored (put_channel cid channel self) (\<lambda>_.
      (Ok (), put_channel cid channel self))))))))))"

definition send_message ::
  "('c, 's, 'p, 'i) deps \<Rightarrow> ('c, 's, 'p, 'i) client \<Rightarrow> channel_id \<Rightarrow> string \<Rightarrow>
     (unit, client_error) result \<times> ('c, 's, 'p, 'i) client" where
  "send_message D self cid msg =
     (case string_try_from CHAT_MAX msg of
        None \<Rightarrow> (Err MessageToLarge, self)
      | Some text \<Rightarrow> do_send D self cid (ChatMessage \<lparr>chat_text = text\<rparr>))"

definition client_add_node ::
  "('c, 's, 'p, 'i) deps \<Rightarrow> ('c, 's, 'p, 'i) client \<Rightarrow> channel_id \<Rightarrow> 'p \<Rightarrow> string \<Rightarrow>
     (unit, client_error) result \<times> ('c, 's, 'p, 'i) client" where
  "client_add_node D self cid pub_key name =
     (case string_try_from NAME_MAX name of
        None \<Rightarrow> (Err MessageToLarge, self)
      | Some name_string \<Rightarrow> do_send D self cid (AddUser \<lparr>au_name = name_string, au_key = pub_key\<rparr>))"

definition remove_node ::
  "('c, 's, 'p, 'i) client \<Rightarrow> channel_id \<Rightarrow> node_id \<Rightarrow> (unit, client_error) result \<times> ('c, 's, 'p, 'i) client" where
  "remove_node self cid nid = (Panic, self)"

subsection \<open>Receiving\<close>

definition do_receive ::
  "('c, 's, 'p, 'i) deps \<Rightarrow> ('c, 's, 'p, 'i) client \<Rightarrow> channel_id \<Rightarrow> u8 list \<Rightarrow>
     (unit, client_error) result \<times> ('c, 's, 'p, 'i) client" where
  "do_receive D self cid bytes =
      or_return (map_err SerializationError (from_bytes (d_envelopes D) bytes)) self (\<lambda>sealed_envelope.
      let from = env_from sealed_envelope in
      or_return (find_channel self cid) self (\<lambda>channel.
      or_return (map_err ChannelError (get_node_key (ch_state channel) from)) self (\<lambda>key.
      or_return (map_err CryptoError (open_envelope (d_crypto D) (cl_crypto self) key sealed_envelope)) self (\<lambda>message.
      let sequence = msg_sequence message;
          eid = envelope_id_of (d_crypto D) (cl_crypto self) sealed_envelope in
      or_return (map_err ChannelError (check_receive (ch_state channel) from message eid)) self (\<lambda>_.
      let (taken, channel) = take_message D channel cid from message eid in
      or_return taken (put_channel cid channel self) (\<lambda>max_sequence.
      let count = message_count (ch_chat channel) in
      or_return (map_err StorageError (get_writer (d_io D) (ch_storage channel)))
        (put_channel cid channel self) (\<lambda>slab_writer.
      let (stored, storage) = write_and_commit (d_io D) slab_writer max_sequence count sequence from bytes;
          channel = channel\<lparr>ch_storage := storage\<rparr> in
      or_return stored (put_channel cid channel self) (\<lambda>_.
      (Ok (), put_channel cid channel self)))))))))"

fun receive_loop ::
  "('c, 's, 'p, 'i) deps \<Rightarrow> ('c, 's, 'p, 'i) client \<Rightarrow> channel_id \<Rightarrow> u8 list \<Rightarrow> nat \<Rightarrow> nat \<Rightarrow>
     (unit, client_error) result \<times> ('c, 's, 'p, 'i) client" where
  "receive_loop D self cid buffer offset 0 = (Ok (), self)"
| "receive_loop D self cid buffer offset (Suc n) =
     or_return (map_err StorageError (read_u32 buffer offset)) self (\<lambda>(len, offset).
     or_return (usize_add offset (unat len)) self (\<lambda>fin.
     or_return (ok_or (range_get buffer offset fin) Client_Unreachable) self (\<lambda>envelope_bytes.
     case do_receive D self cid envelope_bytes of
       (Ok _, self) \<Rightarrow> receive_loop D self cid buffer fin n
     | (Err err, self) \<Rightarrow>
         if err = ChannelError AlreadyReceived then receive_loop D self cid buffer fin n
         else (Err err, self)
     | (Panic, self) \<Rightarrow> (Panic, self))))"

definition receive_buffer ::
  "('c, 's, 'p, 'i) deps \<Rightarrow> ('c, 's, 'p, 'i) client \<Rightarrow> channel_id \<Rightarrow> u8 list \<Rightarrow> u32 \<Rightarrow>
     (unit, client_error) result \<times> ('c, 's, 'p, 'i) client" where
  "receive_buffer D self cid buffer count = receive_loop D self cid buffer 0 (unat count)"

subsection \<open>Reading\<close>

definition client_message_count :: "('c, 's, 'p, 'i) client \<Rightarrow> channel_id \<Rightarrow> (u64, client_error) result" where
  "client_message_count self cid =
     bind_ok (find_channel self cid) (\<lambda>channel. Ok (message_count (ch_chat channel)))"

definition get_message ::
  "('c, 's, 'p, 'i) deps \<Rightarrow> ('c, 's, 'p, 'i) client \<Rightarrow> channel_id \<Rightarrow> u64 \<Rightarrow> (chat_message, client_error) result" where
  "get_message D self cid index =
     bind_ok (find_channel self cid) (\<lambda>channel.
     bind_ok (map_err StorageError (get_cursor_from_index (d_io D) (d_records D) (ch_storage channel) index)) (\<lambda>found.
     bind_ok (ok_or found MessageIndexOutOfBounds) (\<lambda>cursor.
     bind_ok (map_err StorageError (storage_read (d_io D) (d_records D) (ch_storage channel) cursor)) (\<lambda>r.
     bind_ok (ok_or r Client_Unreachable) (\<lambda>(bytes, _).
     bind_ok (map_err SerializationError (from_bytes (d_envelopes D) bytes)) (\<lambda>envelope.
     bind_ok (map_err ChannelError (get_node_key (ch_state channel) (env_from envelope))) (\<lambda>key.
     bind_ok (map_err CryptoError (open_envelope (d_crypto D) (cl_crypto self) key envelope)) (\<lambda>message.
     case msg_data message of
       ChatMessage message \<Rightarrow> Ok message
     | _ \<Rightarrow> Err Client_Unreachable))))))))"

definition client_list_nodes ::
  "('c, 's, 'p, 'i) client \<Rightarrow> channel_id \<Rightarrow> ('p node_sequence list, client_error) result" where
  "client_list_nodes self cid =
     bind_ok (find_channel self cid) (\<lambda>channel. Ok (list_nodes (ch_state channel)))"

subsection \<open>Opening and creating channels\<close>

definition insert_channel ::
  "('c, 's, 'p, 'i) deps \<Rightarrow> ('c, 's, 'p, 'i) client \<Rightarrow> channel_id \<Rightarrow> ('p, 'i) channel \<Rightarrow>
     (unit, client_error) result \<times> ('c, 's, 'p, 'i) client" where
  "insert_channel D self cid full_channel =
     (case index_map_insert (d_max_channels D) cid full_channel (cl_channels self) of
        None \<Rightarrow> (Err ChannelLimit, self)
      | Some channels \<Rightarrow> (Ok (), self\<lparr>cl_channels := channels\<rparr>))"

definition add_channel ::
  "('c, 's, 'p, 'i) deps \<Rightarrow> ('c, 's, 'p, 'i) client \<Rightarrow> 'p \<Rightarrow> channel_id \<Rightarrow> 'i \<Rightarrow>
     (unit, client_error) result \<times> ('c, 's, 'p, 'i) client" where
  "add_channel D self from cid io =
     (let my_id = compute_id (d_crypto D) from in
      or_return (map_err ChannelError (channel_new (d_max_nodes D) my_id from)) self (\<lambda>channel.
      insert_channel D self cid
        \<lparr>ch_state = channel, ch_storage = storage_new io, ch_chat = chat_new cid\<rparr>))"

text \<open>One turn of the loop of \<^verbatim>\<open>open_chat\<close>: a stored envelope is checked and taken into the state.\<close>

definition replay_record ::
  "('c, 's, 'p, 'i) deps \<Rightarrow> 'c \<Rightarrow> channel_id \<Rightarrow> u8 list \<Rightarrow> 'p channel_state \<Rightarrow> 'p chat \<Rightarrow>
     ('p channel_state \<times> 'p chat, client_error) result" where
  "replay_record D crypto cid data channel chat =
     bind_ok (map_err SerializationError (from_bytes (d_envelopes D) data)) (\<lambda>sealed_envelope.
     let eid = envelope_id_of (d_crypto D) crypto sealed_envelope;
         from = env_from sealed_envelope in
     bind_ok (map_err ChannelError (get_node_key channel from)) (\<lambda>pub_key.
     bind_ok (map_err CryptoError (open_envelope (d_crypto D) crypto pub_key sealed_envelope)) (\<lambda>message.
     bind_ok (map_err ChannelError (check_receive channel from message eid)) (\<lambda>_.
     let (accepted, chat) = accept_message (compute_id (d_crypto D)) (d_max_nodes D) chat cid from
           (msg_data message) in
     bind_ok (map_err ChatError accepted) (\<lambda>accept_result.
     let (added, channel) =
       (case accept_result of
          Accept_AddUser new_pub_key \<Rightarrow>
            add_node (d_max_nodes D) channel (compute_id (d_crypto D) new_pub_key) new_pub_key
        | _ \<Rightarrow> (Ok (), channel)) in
     bind_ok (map_err ChannelError added) (\<lambda>_.
     let (received, channel) = receive channel from message eid in
     bind_ok (map_err (\<lambda>_. Client_Unreachable) received) (\<lambda>_. Ok (channel, chat))))))))"

partial_function (option) replay_loop ::
  "('c, 's, 'p, 'i) deps \<Rightarrow> 'c \<Rightarrow> channel_id \<Rightarrow> 'i storage \<Rightarrow> cursor \<Rightarrow> 'p channel_state \<Rightarrow> 'p chat \<Rightarrow>
     ('p channel_state \<times> 'p chat, client_error) result option" where
  "replay_loop D crypto cid storage cursor channel chat =
     (case storage_read (d_io D) (d_records D) storage cursor of
        Err e \<Rightarrow> Some (Err (StorageError e))
      | Panic \<Rightarrow> Some Panic
      | Ok None \<Rightarrow> Some (Ok (channel, chat))
      | Ok (Some (data, cursor)) \<Rightarrow>
          (case replay_record D crypto cid data channel chat of
             Err e \<Rightarrow> Some (Err e)
           | Panic \<Rightarrow> Some Panic
           | Ok (channel, chat) \<Rightarrow> replay_loop D crypto cid storage cursor channel chat))"

definition open_chat ::
  "('c, 's, 'p, 'i) deps \<Rightarrow> ('c, 's, 'p, 'i) client \<Rightarrow> channel_id \<Rightarrow> 'i \<Rightarrow>
     ((unit, client_error) result \<times> ('c, 's, 'p, 'i) client) option" where
  "open_chat D self cid io =
     (let key = kp_public (cl_key_pair self);
          my_id = compute_id (d_crypto D) key;
          storage = storage_new io in
      case channel_new (d_max_nodes D) my_id key of
        Err e \<Rightarrow> Some (Err (ChannelError e), self)
      | Panic \<Rightarrow> Some (Panic, self)
      | Ok channel \<Rightarrow>
          (let chat = chat_new cid;
               loaded =
                 (case get_cursor_from_sequence (d_io D) (d_records D) storage 0 of
                    Err e \<Rightarrow> Some (Err (StorageError e))
                  | Panic \<Rightarrow> Some Panic
                  | Ok None \<Rightarrow> Some (Ok (channel, chat))
                  | Ok (Some cursor) \<Rightarrow> replay_loop D (cl_crypto self) cid storage cursor channel chat) in
           map_option (\<lambda>loaded.
             or_return loaded self (\<lambda>(channel, chat).
             insert_channel D self cid
               \<lparr>ch_state = channel, ch_storage = storage, ch_chat = chat\<rparr>)) loaded))"

definition init_chat ::
  "('c, 's, 'p, 'i) deps \<Rightarrow> ('c, 's, 'p, 'i) client \<Rightarrow> string \<Rightarrow> 'i \<Rightarrow>
     (channel_id, client_error) result \<times> ('c, 's, 'p, 'i) client" where
  "init_chat D self name_str io =
     (let (n, crypto) = nonce (d_crypto D) (cl_crypto self);
          self = self\<lparr>cl_crypto := crypto\<rparr> in
      or_return (ok_or (string_try_from NAME_MAX name_str) StringTooLarge) self (\<lambda>name.
      let key = kp_public (cl_key_pair self);
          new_message = \<lparr>nc_nonce = n, nc_name = name, nc_owner = key\<rparr>;
          target = replicate 4096 0;
          (serialized, target) = to_slice (d_new_channels D) new_message target in
      or_return (map_err SerializationError serialized) self (\<lambda>serialized.
      let cid = channel_id_from_bytes (d_crypto D) crypto serialized;
          my_id = compute_id (d_crypto D) key in
      or_return (map_err ChannelError (channel_new (d_max_nodes D) my_id key)) self (\<lambda>channel.
      let chat = chat_new cid;
          storage = storage_new io;
          protocol = NewChannel new_message;
          to = Channel cid in
      or_return (map_err ChannelError (address channel my_id protocol)) self (\<lambda>message.
      let sequence = msg_sequence message;
          (sealed, target) = seal (d_crypto D) crypto my_id to (cl_key_pair self) message target in
      or_return (map_err CryptoError sealed) self (\<lambda>sealed_envelope.
      let eid = envelope_id_of (d_crypto D) crypto sealed_envelope in
      or_return (map_err ChannelError (check_receive channel my_id message eid)) self (\<lambda>_.
      let (accepted, chat) = accept_message (compute_id (d_crypto D)) (d_max_nodes D) chat cid my_id
            (msg_data message) in
      or_return (map_err ChatError accepted) self (\<lambda>_.
      let (received, channel) = receive channel my_id message eid in
      or_return (map_err ChannelError received) self (\<lambda>max_sequence.
      let count = message_count chat in
      or_return (map_err StorageError (get_writer (d_io D) storage)) self (\<lambda>slab_writer.
      let (serialized, target) = to_slice (d_envelopes D) sealed_envelope target in
      or_return (map_err SerializationError serialized) self (\<lambda>serialized_envelope.
      let (stored, storage) = write_and_commit (d_io D) slab_writer max_sequence count sequence my_id
            serialized_envelope in
      or_return stored self (\<lambda>_.
      let (inserted, self) = insert_channel D self cid
            \<lparr>ch_state = channel, ch_storage = storage, ch_chat = chat\<rparr> in
      or_return inserted self (\<lambda>_. (Ok cid, self))))))))))))))"

end
