(* ===== verification/Slab_Store.thy ===== *)
theory Slab_Store
  imports Storage
begin

text \<open>
  What the bytes of a slab mean, and the store over any device that keeps slabs of this form.

  \<^item> A slab holds a list of records: the number of records and the largest sequence in twelve bytes,
    then each record as a frame, its length in four bytes and its encoding (\<open>slab_holds\<close>). \<open>cursor_at\<close>
    is the cursor in front of a record.
  \<^item> The locale \<open>slab_io\<close> is the contract between the store and a device: the device keeps a list of
    committed slabs, and a writer adds one. Inside it, the store's operations are shown to work on
    the records of all slabs in order, as one list.
\<close>

subsection \<open>The layout of a slab\<close>

definition frame :: "('a \<Rightarrow> u8 list) \<Rightarrow> 'a \<Rightarrow> u8 list" where
  "frame enc r = to_be_bytes (of_nat (length (enc r)) :: u32) @ enc r"

definition frames :: "('a \<Rightarrow> u8 list) \<Rightarrow> 'a list \<Rightarrow> u8 list" where
  "frames enc rs = concat (map (frame enc) rs)"

definition slab_image :: "('a \<Rightarrow> u8 list) \<Rightarrow> 'a list \<Rightarrow> u64 \<Rightarrow> u8 list \<Rightarrow> u8 list" where
  "slab_image enc rs m rest =
     to_be_bytes (of_nat (length rs) :: u32) @ to_be_bytes m @ frames enc rs @ rest"

definition slab_holds :: "(stored \<Rightarrow> u8 list) \<Rightarrow> slab \<Rightarrow> nat \<Rightarrow> stored list \<Rightarrow> bool" where
  "slab_holds enc sl i rs \<longleftrightarrow>
     slab_slab sl = i \<and> slab_offset sl = INITIAL_OFFSET \<and> slab_count sl = of_nat (length rs) \<and>
     length rs < 2 ^ 32 \<and> length (slab_records sl) < usize_limit \<and>
     (\<exists>m rest. slab_records sl = slab_image enc rs m rest)"

definition cursor_at :: "(stored \<Rightarrow> u8 list) \<Rightarrow> nat \<Rightarrow> stored list \<Rightarrow> nat \<Rightarrow> cursor" where
  "cursor_at enc i rs n =
     \<lparr>cur_slab = i, cur_offset = INITIAL_OFFSET + length (frames enc (take n rs)), cur_read_count = of_nat n\<rparr>"

lemma frames_simps [simp]:
  "frames enc [] = []" "frames enc (r # rs) = frame enc r @ frames enc rs"
  "frames enc (rs @ qs) = frames enc rs @ frames enc qs"
  by (simp_all add: frames_def)

lemma length_frame [simp]: "length (frame enc r) = 4 + length (enc r)"
  by (simp add: frame_def)

lemma length_slab_image [simp]:
  "length (slab_image enc rs m rest) = INITIAL_OFFSET + length (frames enc rs) + length rest"
  by (simp add: slab_image_def INITIAL_OFFSET_def)

lemma length_records: "length rs \<le> length (frames enc rs)"
  by (induction rs) auto

lemma read_u32_at:
  assumes "xs = a @ to_be_bytes (w :: u32) @ b" "length xs < usize_limit"
  shows "read_u32 xs (length a) = Ok (w, length a + 4)"
  using assms by (simp add: read_u32_def read_arr_def range_get_def)

lemma read_u64_at:
  assumes "xs = a @ to_be_bytes (w :: u64) @ b" "length xs < usize_limit"
  shows "read_u64 xs (length a) = Ok (w, length a + 8)"
  using assms by (simp add: read_u64_def read_arr_def range_get_def)

lemma write_u32_in:
  "o1 + 4 \<le> length xs \<Longrightarrow> length xs < usize_limit \<Longrightarrow>
    write_u32 w xs o1 = (Ok (o1 + 4), overwrite xs o1 (to_be_bytes w))"
  by (simp add: write_u32_def write_arr_def range_get_def)

lemma write_u64_in:
  "o1 + 8 \<le> length xs \<Longrightarrow> length xs < usize_limit \<Longrightarrow>
    write_u64 w xs o1 = (Ok (o1 + 8), overwrite xs o1 (to_be_bytes w))"
  by (simp add: write_u64_def write_arr_def range_get_def)

lemma slab_new_image:
  assumes "xs = slab_image enc rs m rest" "length xs < usize_limit"
  shows "slab_new xs i = Ok \<lparr>slab_slab = i, slab_offset = INITIAL_OFFSET,
    slab_count = of_nat (length rs), slab_max_sequence = m, slab_records = xs\<rparr>"
  using read_u32_at [of xs "[]" "of_nat (length rs)" "to_be_bytes m @ frames enc rs @ rest"]
    read_u64_at [of xs "to_be_bytes (of_nat (length rs) :: u32)" m "frames enc rs @ rest"] assms
  by (simp add: slab_new_def slab_image_def INITIAL_OFFSET_def)

lemma slab_get_head_holds: "slab_holds enc sl i rs \<Longrightarrow> slab_get_head sl = cursor_at enc i rs 0"
  by (simp add: slab_holds_def slab_get_head_def cursor_at_def)

lemma slab_holds_split:
  assumes "slab_holds enc sl i rs" "n < length rs"
  obtains a b where "slab_records sl = a @ frame enc (rs ! n) @ b"
    "length a = INITIAL_OFFSET + length (frames enc (take n rs))"
proof -
  obtain m rest where img: "slab_records sl = slab_image enc rs m rest"
    using assms(1) by (auto simp: slab_holds_def)
  let ?a = "to_be_bytes (of_nat (length rs) :: u32) @ to_be_bytes m @ frames enc (take n rs)"
  have "frames enc rs = frames enc (take n rs @ rs ! n # drop (Suc n) rs)"
    using assms(2) by (simp flip: id_take_nth_drop)
  then have "slab_records sl = ?a @ frame enc (rs ! n) @ frames enc (drop (Suc n) rs) @ rest"
    by (simp add: img slab_image_def)
  then show thesis by (rule that) (simp add: INITIAL_OFFSET_def)
qed

text \<open>Reading at a record gives the record and the cursor behind it; reading at the end gives nothing.\<close>

lemma slab_read_at:
  assumes "serde_ok S enc" and holds: "slab_holds enc sl i rs" and n: "n < length rs"
  shows "slab_read S sl (cursor_at enc i rs n) = Ok (Some (rs ! n, cursor_at enc i rs (Suc n)))"
proof -
  obtain a b where ab: "slab_records sl = a @ frame enc (rs ! n) @ b"
      "length a = INITIAL_OFFSET + length (frames enc (take n rs))"
    by (rule slab_holds_split [OF holds n])
  let ?e = "enc (rs ! n)"
  have bounds: "length rs < 2 ^ 32" "slab_count sl = of_nat (length rs)"
      "length (slab_records sl) < usize_limit"
    using holds by (auto simp: slab_holds_def)
  have le: "length a + 4 + length ?e \<le> length (slab_records sl)"
    by (simp add: ab(1))
  have len: "unat (of_nat (length ?e) :: u32) = length ?e"
    using le bounds(3) by (simp add: unat_of_nat usize_limit_def)
  have "0 < length ?e" using assms(1) by (rule serde_nonempty)
  then have nz: "(of_nat (length ?e) :: u32) \<noteq> 0" using len by (metis unat_0 less_numeral_extra(3))
  have rd: "read_u32 (slab_records sl) (length a) = Ok (of_nat (length ?e), length a + 4)"
    by (rule read_u32_at [of _ _ _ "?e @ b"]) (use ab bounds in \<open>simp_all add: frame_def\<close>)
  have range: "range_get (slab_records sl) (length a + 4) (length a + 4 + length ?e) = Some ?e"
    by (simp add: ab(1) range_get_def frame_def)
  have un: "unat (of_nat n :: u32) = n" "unat (of_nat (length rs) :: u32) = length rs"
    using n bounds(1) by (simp_all add: unat_of_nat)
  have cnt: "\<not> slab_count sl \<le> of_nat n"
    unfolding bounds(2) word_le_nat_alt un using n by simp
  have "(of_nat (Suc n) :: u32) = of_nat n + 1" by (simp add: add.commute)
  then have inc: "checked_add (of_nat n :: u32) 1 = Some (of_nat (Suc n))"
    unfolding checked_add_def un unat_1 using n bounds(1) by simp
  have "frames enc (take (Suc n) rs) = frames enc (take n rs) @ frame enc (rs ! n)"
    using n by (simp add: take_Suc_conv_app_nth)
  then have next_at: "cursor_at enc i rs (Suc n) =
      (cursor_at enc i rs n)\<lparr>cur_offset := length a + 4 + length ?e, cur_read_count := of_nat (Suc n)\<rparr>"
    by (simp add: cursor_at_def ab(2))
  have at: "cur_read_count (cursor_at enc i rs n) = of_nat n" "cur_offset (cursor_at enc i rs n) = length a"
    by (simp_all add: cursor_at_def ab(2))
  have "from_bytes S ?e = Ok (rs ! n)" using assms(1) by simp
  moreover have "length a + 4 + length ?e < usize_limit" using le bounds(3) by simp
  ultimately show ?thesis
    by (simp only: slab_read_def record_count_def at cnt inc rd nz len range next_at if_False
        bind_ok.simps prod.case ok_or.simps checked_add_usize_in map_err.simps)
qed

lemma slab_read_end:
  assumes "slab_holds enc sl i rs"
  shows "slab_read S sl (cursor_at enc i rs (length rs)) = Ok None"
  using assms by (simp add: slab_read_def record_count_def cursor_at_def slab_holds_def)

subsection \<open>Scanning a slab\<close>

text \<open>The first record that passes the test, as a position.\<close>

definition find_index :: "('a \<Rightarrow> bool) \<Rightarrow> 'a list \<Rightarrow> nat option" where
  "find_index P xs = (if \<exists>x\<in>set xs. P x then Some (length (takeWhile (\<lambda>x. \<not> P x) xs)) else None)"

lemma find_index_Nil [simp]: "find_index P [] = None"
  by (simp add: find_index_def)

lemma find_index_Cons:
  "find_index P (x # xs) = (if P x then Some 0 else map_option Suc (find_index P xs))"
  by (auto simp: find_index_def)

lemma find_index_SomeD:
  assumes "find_index P xs = Some n"
  shows "n < length xs" "P (xs ! n)" "dropWhile (\<lambda>x. \<not> P x) xs = drop n xs"
proof -
  have n: "n = length (takeWhile (\<lambda>x. \<not> P x) xs)" and ex: "\<exists>x\<in>set xs. P x"
    using assms by (auto simp: find_index_def split: if_splits)
  have "takeWhile (\<lambda>x. \<not> P x) xs \<noteq> xs" using ex by (auto simp: takeWhile_eq_all_conv)
  then show "n < length xs"
    using length_takeWhile_le [of "\<lambda>x. \<not> P x" xs] takeWhile_eq_take [of "\<lambda>x. \<not> P x" xs]
    by (auto simp: n le_less)
  then show "P (xs ! n)" using nth_length_takeWhile [of "\<lambda>x. \<not> P x" xs] by (simp add: n)
  show "dropWhile (\<lambda>x. \<not> P x) xs = drop n xs" by (simp add: n dropWhile_eq_drop)
qed

lemma find_index_None: "find_index P xs = None \<longleftrightarrow> dropWhile (\<lambda>x. \<not> P x) xs = []"
  by (auto simp: find_index_def)

lemma scan_slab_at:
  assumes "serde_ok S enc" and holds: "slab_holds enc sl i rs" and "n \<le> length rs"
  shows "scan_slab S P sl (cursor_at enc i rs n) (cursor_at enc i rs n) =
    Ok (map_option (\<lambda>k. cursor_at enc i rs (n + k)) (find_index P (drop n rs)))"
  using \<open>n \<le> length rs\<close>
proof (induction "length rs - n" arbitrary: n)
  case 0
  then have "n = length rs" by simp
  then show ?case by (subst scan_slab.simps) (simp add: slab_read_end [OF holds])
next
  case (Suc d)
  then have n: "n < length rs" and IH: "scan_slab S P sl (cursor_at enc i rs (Suc n)) (cursor_at enc i rs (Suc n)) =
      Ok (map_option (\<lambda>k. cursor_at enc i rs (Suc n + k)) (find_index P (drop (Suc n) rs)))"
    by auto
  have "drop n rs = rs ! n # drop (Suc n) rs" using n by (simp add: Cons_nth_drop_Suc)
  then show ?case
    by (subst scan_slab.simps)
      (simp add: slab_read_at [OF assms(1) holds n] IH find_index_Cons option.map_comp comp_def)
qed

subsection \<open>The records of all slabs\<close>

text \<open>
  \<open>stands enc rss c rem\<close>: the cursor \<open>c\<close> is a position in the committed slabs \<open>rss\<close>, and \<open>rem\<close> are
  the records from there to the end of the last slab. \<open>first_cursor\<close> is the position of the first
  record, in slab order, that passes a test.
\<close>

definition stands :: "(stored \<Rightarrow> u8 list) \<Rightarrow> stored list list \<Rightarrow> cursor \<Rightarrow> stored list \<Rightarrow> bool" where
  "stands enc rss c rem \<longleftrightarrow>
     (\<exists>i n. i < length rss \<and> n \<le> length (rss ! i) \<and> c = cursor_at enc i (rss ! i) n \<and>
        rem = drop n (rss ! i) @ concat (drop (Suc i) rss))"

lemma stands_cursor_at:
  "i < length rss \<Longrightarrow> n \<le> length (rss ! i) \<Longrightarrow>
    stands enc rss (cursor_at enc i (rss ! i) n) (drop n (rss ! i) @ concat (drop (Suc i) rss))"
  unfolding stands_def by blast

fun first_cursor ::
  "(stored \<Rightarrow> u8 list) \<Rightarrow> (stored \<Rightarrow> bool) \<Rightarrow> nat \<Rightarrow> stored list list \<Rightarrow> cursor option" where
  "first_cursor enc P i [] = None"
| "first_cursor enc P i (rs # rss) =
     (case find_index P rs of
        Some n \<Rightarrow> Some (cursor_at enc i rs n)
      | None \<Rightarrow> first_cursor enc P (Suc i) rss)"

lemma first_cursor_spec:
  "case first_cursor enc P i (drop i rss) of
     None \<Rightarrow> dropWhile (\<lambda>r. \<not> P r) (concat (drop i rss)) = []
   | Some c \<Rightarrow> stands enc rss c (dropWhile (\<lambda>r. \<not> P r) (concat (drop i rss))) \<and>
       dropWhile (\<lambda>r. \<not> P r) (concat (drop i rss)) \<noteq> []"
proof (induction "length rss - i" arbitrary: i)
  case 0
  then show ?case by simp
next
  case (Suc d)
  then have i: "i < length rss" by simp
  then have eq: "drop i rss = rss ! i # drop (Suc i) rss" by (simp add: Cons_nth_drop_Suc)
  show ?case
  proof (cases "find_index P (rss ! i)")
    case None
    then have "\<forall>r\<in>set (rss ! i). \<not> P r" by (auto simp: find_index_def split: if_splits)
    then have "dropWhile (\<lambda>r. \<not> P r) (concat (drop i rss))
        = dropWhile (\<lambda>r. \<not> P r) (concat (drop (Suc i) rss))"
      by (simp add: eq dropWhile_append2)
    moreover have "d = length rss - Suc i" using Suc.hyps(2) by simp
    ultimately show ?thesis
      using Suc.hyps(1) [of "Suc i"] by (simp only: eq first_cursor.simps None option.case)
  next
    case (Some n)
    note n = find_index_SomeD [OF Some]
    have "dropWhile (\<lambda>r. \<not> P r) (rss ! i @ concat (drop (Suc i) rss))
        = drop n (rss ! i) @ concat (drop (Suc i) rss)"
      using n by (metis dropWhile_append1 nth_mem)
    then show ?thesis
      using stands_cursor_at [OF i less_imp_le [OF n(1)]] n(1) by (simp add: eq Some)
  qed
qed

subsection \<open>The contract of a slab device\<close>

text \<open>
  \<open>slab_source\<close> is what reading relies on: \<open>holds io rss\<close> says the device has committed the slabs
  \<open>rss\<close>. A slab past the last committed one is either out of bounds or empty.
\<close>

locale slab_source =
  fixes T :: "'i io_trait" and S :: "stored serde" and enc :: "stored \<Rightarrow> u8 list"
    and holds :: "'i \<Rightarrow> stored list list \<Rightarrow> bool"
  assumes serde: "holds io rss \<Longrightarrow> serde_ok S enc"
    and head: "holds io rss \<Longrightarrow> io_get_head T io = Ok 0"
    and count: "holds io rss \<Longrightarrow> io_slab_count T io = Ok (length rss)"
    and count_bound: "holds io rss \<Longrightarrow> length rss < usize_limit"
    and get_slab_in: "holds io rss \<Longrightarrow> i < length rss \<Longrightarrow>
      \<exists>sl. io_get_slab T io i = Ok sl \<and> slab_holds enc sl i (rss ! i)"
    and get_slab_out: "holds io rss \<Longrightarrow> length rss \<le> i \<Longrightarrow>
      io_get_slab T io i = Err OutOfBounds \<or> (\<exists>sl. io_get_slab T io i = Ok sl \<and> slab_holds enc sl i [])"
begin

lemma scan_one:
  assumes "holds io rss" "slab_holds enc sl i rs"
  shows "scan_slab S P sl (slab_get_head sl) (slab_get_head sl) =
    Ok (map_option (cursor_at enc i rs) (find_index P rs))"
  using scan_slab_at [OF serde [OF assms(1)] assms(2), of 0 P]
  by (simp add: slab_get_head_holds [OF assms(2)])

lemma scan_past_end: "holds io rss \<Longrightarrow> length rss \<le> i \<Longrightarrow> scan_slabs T S P io i = Ok None"
proof (induction "usize_limit - i" arbitrary: i rule: less_induct)
  case less
  from get_slab_out [OF less.prems] show ?case
  proof (elim disjE exE conjE)
    assume "io_get_slab T io i = Err OutOfBounds"
    then show ?thesis by (subst scan_slabs.simps) simp
  next
    fix sl assume "io_get_slab T io i = Ok sl" "slab_holds enc sl i []"
    then show ?thesis
      using less.hyps [of "Suc i"] less.prems
      by (subst scan_slabs.simps)
        (auto simp: scan_one [OF less.prems(1)] checked_add_usize_def simp del: checked_add_usize_in)
  qed
qed

lemma scan_all:
  "holds io rss \<Longrightarrow> i \<le> length rss \<Longrightarrow>
    scan_slabs T S P io i = Ok (first_cursor enc P i (drop i rss))"
proof (induction "length rss - i" arbitrary: i)
  case 0
  then show ?case by (simp add: scan_past_end)
next
  case (Suc d)
  then have i: "i < length rss" by simp
  obtain sl where sl: "io_get_slab T io i = Ok sl" "slab_holds enc sl i (rss ! i)"
    using get_slab_in [OF Suc.prems(1) i] by blast
  have "scan_slabs T S P io (Suc i) = Ok (first_cursor enc P (Suc i) (drop (Suc i) rss))"
    using Suc i by simp
  moreover have "drop i rss = rss ! i # drop (Suc i) rss" using i by (simp add: Cons_nth_drop_Suc)
  ultimately show ?case
    using i count_bound [OF Suc.prems(1)]
    by (subst scan_slabs.simps)
      (simp add: sl(1) scan_one [OF Suc.prems(1) sl(2)] split: option.split)
qed

text \<open>A search gives the cursor in front of the first record that passes, in the order of all slabs.\<close>

lemma search_spec:
  assumes "holds io rss"
  shows "case bind_ok (io_get_head T io) (scan_slabs T S P io) of
      Ok None \<Rightarrow> dropWhile (\<lambda>r. \<not> P r) (concat rss) = []
    | Ok (Some c) \<Rightarrow> stands enc rss c (dropWhile (\<lambda>r. \<not> P r) (concat rss)) \<and>
        dropWhile (\<lambda>r. \<not> P r) (concat rss) \<noteq> []
    | _ \<Rightarrow> False"
  using first_cursor_spec [where enc = enc and P = P and i = 0 and rss = rss]
  by (cases "first_cursor enc P 0 rss") (simp_all add: head [OF assms] scan_all [OF assms])

text \<open>Reading walks through the records that remain, across the ends of slabs.\<close>

lemma read_spec:
  assumes holds: "holds (storage_io st) rss" and at: "stands enc rss c rem" and ne: "[] \<notin> set rss"
  shows "case rem of
      [] \<Rightarrow> storage_read T S st c = Ok None
    | r # rs \<Rightarrow> \<exists>c'. storage_read T S st c = Ok (Some (rec_data r, c')) \<and> stands enc rss c' rs"
proof -
  let ?io = "storage_io st"
  obtain i n where i: "i < length rss" "n \<le> length (rss ! i)" "c = cursor_at enc i (rss ! i) n"
      "rem = drop n (rss ! i) @ concat (drop (Suc i) rss)"
    using at by (auto simp: stands_def)
  obtain sl where sl: "io_get_slab T ?io i = Ok sl" "slab_holds enc sl i (rss ! i)"
    using get_slab_in [OF holds i(1)] by blast
  have slab: "cur_slab c = i" by (simp add: i(3) cursor_at_def)
  have lim: "Suc i < usize_limit" using i(1) count_bound [OF holds] by simp
  consider (here) "n < length (rss ! i)" | (over) "n = length (rss ! i)" "Suc i < length rss"
    | (ended) "n = length (rss ! i)" "Suc i = length rss"
    using i(1,2) by linarith
  then show ?thesis
  proof cases
    case here
    then have rem: "rem = rss ! i ! n # drop (Suc n) (rss ! i) @ concat (drop (Suc i) rss)"
      by (simp add: i(4) Cons_nth_drop_Suc [symmetric])
    have "stands enc rss (cursor_at enc i (rss ! i) (Suc n)) (drop (Suc n) (rss ! i) @ concat (drop (Suc i) rss))"
      using stands_cursor_at [OF i(1), of "Suc n"] here by simp
    then show ?thesis
      using slab_read_at [OF serde [OF holds] sl(2) here]
      by (simp add: rem storage_read_def slab sl(1) i(3) [symmetric])
  next
    case over
    obtain sl' where sl': "io_get_slab T ?io (Suc i) = Ok sl'" "slab_holds enc sl' (Suc i) (rss ! Suc i)"
      using get_slab_in [OF holds over(2)] by blast
    have pos: "0 < length (rss ! Suc i)" using ne over(2) by (metis length_greater_0_conv nth_mem)
    then have "drop 0 (rss ! Suc i) = rss ! Suc i ! 0 # drop (Suc 0) (rss ! Suc i)"
      by (rule Cons_nth_drop_Suc [symmetric])
    moreover have "concat (drop (Suc i) rss) = rss ! Suc i @ concat (drop (Suc (Suc i)) rss)"
      using over(2) by (metis Cons_nth_drop_Suc concat.simps(2))
    ultimately have rem: "rem = rss ! Suc i ! 0 # drop 1 (rss ! Suc i) @ concat (drop (Suc (Suc i)) rss)"
      using over(1) by (simp add: i(4))
    have ends: "slab_read S sl c = Ok None" using slab_read_end [OF sl(2)] by (simp add: i(3) over(1))
    have first: "slab_read S sl' (slab_get_head sl')
        = Ok (Some (rss ! Suc i ! 0, cursor_at enc (Suc i) (rss ! Suc i) 1))"
      using slab_read_at [OF serde [OF holds] sl'(2) pos] by (simp add: slab_get_head_holds [OF sl'(2)])
    have "stands enc rss (cursor_at enc (Suc i) (rss ! Suc i) 1)
        (drop 1 (rss ! Suc i) @ concat (drop (Suc (Suc i)) rss))"
      using stands_cursor_at [OF over(2), of 1] pos by simp
    then show ?thesis
      using over(2) lim
      by (simp add: rem storage_read_def slab sl(1) sl'(1) ends first count [OF holds])
  next
    case ended
    have ends: "slab_read S sl c = Ok None" using slab_read_end [OF sl(2)] by (simp add: i(3) ended(1))
    show ?thesis
      using ended lim by (simp add: i(4) storage_read_def slab sl(1) ends count [OF holds])
  qed
qed

end

text \<open>Writing the records of a list, as one writer would take them.\<close>

fun write_all ::
  "'i io_trait \<Rightarrow> 'i slab_writer \<Rightarrow> stored list \<Rightarrow> (unit, storage_error) result \<times> 'i slab_writer" where
  "write_all T w [] = (Ok (), w)"
| "write_all T w (r # rs) =
     (let (res, w) = write_record T w (rec_max_sequence r) (rec_message_count r) (rec_sequence r)
        (rec_sender r) (rec_data r) in
      or_return res w (\<lambda>_. write_all T w rs))"

text \<open>
  \<open>slab_io\<close> adds writing. \<open>writing w rss rs\<close>: the writer \<open>w\<close> was opened on a device that had committed
  \<open>rss\<close> and has written the records \<open>rs\<close> so far. Nothing a writer does is visible before \<^verbatim>\<open>commit\<close>.
\<close>

locale slab_io = slab_source T S enc holds
  for T :: "'i io_trait" and S :: "stored serde" and enc :: "stored \<Rightarrow> u8 list"
    and holds :: "'i \<Rightarrow> stored list list \<Rightarrow> bool" +
  fixes writing :: "'i slab_writer \<Rightarrow> stored list list \<Rightarrow> stored list \<Rightarrow> bool"
  assumes new_writer: "holds io rss \<Longrightarrow> io_new_writer T io = Ok w \<Longrightarrow> writing w rss []"
    and writing_count: "writing w rss rs \<Longrightarrow> w_count w = of_nat (length rs)"
    and write_ok: "writing w rss rs \<Longrightarrow>
      io_write_record T (w_io w) (w_offset w) (w_end w) r = (Ok fin, io') \<Longrightarrow>
      Suc (length rs) < 2 ^ 32 \<and>
      writing (w\<lparr>w_io := io', w_count := of_nat (Suc (length rs)), w_slab_max_sequence := m,
        w_offset := fin\<rparr>) rss (rs @ [r])"
    and write_err: "writing w rss rs \<Longrightarrow>
      io_write_record T (w_io w) (w_offset w) (w_end w) r = (Err e, io') \<Longrightarrow>
      writing (w\<lparr>w_io := io'\<rparr>) rss rs"
    and commit_ok: "writing w rss rs \<Longrightarrow> rs \<noteq> [] \<Longrightarrow>
      io_commit T (w_io w) (w_count w) m (w_slab_offset w) = (Ok (), io') \<Longrightarrow>
      holds io' (rss @ [rs])"
    and commit_err: "writing w rss rs \<Longrightarrow> rs \<noteq> [] \<Longrightarrow>
      io_commit T (w_io w) (w_count w) m (w_slab_offset w) = (Err e, io') \<Longrightarrow> holds io' rss"
    and abandon: "writing w rss rs \<Longrightarrow> holds (w_io w) rss"
begin

text \<open>The writer's own check keeps the records of a slab in the order of their largest sequence.\<close>

lemma write_record_cases:
  assumes wr: "writing w rss rs" and res: "write_record T w m n s nd d = (res, w')"
    and r: "r = \<lparr>rec_max_sequence = m, rec_message_count = n, rec_sequence = s, rec_sender = nd, rec_data = d\<rparr>"
  shows "case res of
      Ok _ \<Rightarrow> w_slab_max_sequence w \<le> m \<and> w_slab_max_sequence w' = m \<and> writing w' rss (rs @ [r])
    | Err _ \<Rightarrow> writing w' rss rs \<and> w_slab_max_sequence w' = w_slab_max_sequence w
    | Panic \<Rightarrow> True"
proof (cases "m < w_slab_max_sequence w")
  case True
  then show ?thesis using res wr by (auto simp: write_record_def Let_def)
next
  case False
  obtain wrote io' where io: "io_write_record T (w_io w) (w_offset w) (w_end w) r = (wrote, io')"
    by (cases "io_write_record T (w_io w) (w_offset w) (w_end w) r")
  have body: "or_return wrote (w\<lparr>w_io := io'\<rparr>) (\<lambda>fin.
      or_return (ok_or (checked_add (w_count w) 1) Storage_Unreachable) (w\<lparr>w_io := io'\<rparr>) (\<lambda>count.
      (Ok (), w\<lparr>w_io := io', w_count := count, w_slab_max_sequence := m, w_offset := fin\<rparr>))) = (res, w')"
    using res False io by (simp add: write_record_def r Let_def)
  show ?thesis
  proof (cases wrote)
    case (Ok fin)
    have lim: "Suc (length rs) < 2 ^ 32" and next_w: "writing (w\<lparr>w_io := io',
        w_count := of_nat (Suc (length rs)), w_slab_max_sequence := m, w_offset := fin\<rparr>) rss (rs @ [r])"
      using write_ok [OF wr] io Ok by auto
    have un: "unat (of_nat (length rs) :: u32) = length rs"
      using lim by (simp add: unat_of_nat)
    have "(of_nat (Suc (length rs)) :: u32) = of_nat (length rs) + 1" by (simp add: add.commute)
    then have "checked_add (w_count w) 1 = Some (of_nat (Suc (length rs)))"
      unfolding writing_count [OF wr] checked_add_def un unat_1 using lim by simp
    then have "res = Ok ()" "w' = w\<lparr>w_io := io', w_count := of_nat (Suc (length rs)),
        w_slab_max_sequence := m, w_offset := fin\<rparr>"
      using body Ok by auto
    then show ?thesis using next_w False by simp
  next
    case (Err e)
    then show ?thesis using body write_err [OF wr] io by auto
  next
    case Panic
    then show ?thesis using body by auto
  qed
qed

text \<open>Adding one record, as the client does: open a writer, write, commit.\<close>

lemma append_spec:
  assumes "holds (storage_io st) rss" and "get_writer T st = Ok w"
    and "write_record T w m n s nd d = (Ok (), w')" and "commit T w' = (Ok (), io')"
  shows "holds io' (rss @ [[\<lparr>rec_max_sequence = m, rec_message_count = n, rec_sequence = s,
    rec_sender = nd, rec_data = d\<rparr>]])"
proof -
  have "writing w rss []" using new_writer assms(1,2) by (simp add: get_writer_def)
  from write_record_cases [OF this assms(3) refl]
  have "writing w' rss [\<lparr>rec_max_sequence = m, rec_message_count = n, rec_sequence = s,
      rec_sender = nd, rec_data = d\<rparr>]" by simp
  from commit_ok [OF this] assms(4) show ?thesis by (simp add: commit_def)
qed

lemma failed_commit:
  assumes "holds (storage_io st) rss" and "get_writer T st = Ok w"
    and "write_record T w m n s nd d = (Ok (), w')" and "commit T w' = (Err e, io')"
  shows "holds io' rss"
proof -
  have "writing w rss []" using new_writer assms(1,2) by (simp add: get_writer_def)
  from write_record_cases [OF this assms(3) refl] show ?thesis
    using commit_err assms(4) by (fastforce simp: commit_def)
qed

text \<open>A writer that failed, or that is dropped, leaves the committed slabs as they were.\<close>

lemma failed_write:
  assumes "holds (storage_io st) rss" and "get_writer T st = Ok w"
    and "write_record T w m n s nd d = (Err e, w')"
  shows "holds (w_io w') rss"
proof -
  have "writing w rss []" using new_writer assms(1,2) by (simp add: get_writer_def)
  from write_record_cases [OF this assms(3) refl] show ?thesis by (auto dest: abandon)
qed

lemma write_all_writing:
  "writing w rss rs \<Longrightarrow> write_all T w qs = (Ok (), w') \<Longrightarrow>
    writing w' rss (rs @ qs) \<and> sorted_wrt (\<le>) (w_slab_max_sequence w # map rec_max_sequence qs)"
proof (induction qs arbitrary: w rs)
  case Nil
  then show ?case by simp
next
  case (Cons q qs)
  obtain res w1 where step: "write_record T w (rec_max_sequence q) (rec_message_count q)
      (rec_sequence q) (rec_sender q) (rec_data q) = (res, w1)" by fastforce
  with Cons.prems(2) have res: "res = Ok ()" and rest: "write_all T w1 qs = (Ok (), w')"
    by (cases res; simp)+
  have "q = \<lparr>rec_max_sequence = rec_max_sequence q, rec_message_count = rec_message_count q,
      rec_sequence = rec_sequence q, rec_sender = rec_sender q, rec_data = rec_data q\<rparr>" by simp
  from write_record_cases [OF Cons.prems(1) step this]
  have le: "w_slab_max_sequence w \<le> rec_max_sequence q" "w_slab_max_sequence w1 = rec_max_sequence q"
    and w1: "writing w1 rss (rs @ [q])" by (simp_all add: res)
  show ?case using Cons.IH [OF w1 rest] le by force
qed

lemma commit_all:
  assumes "holds (storage_io st) rss" "get_writer T st = Ok w" "qs \<noteq> []"
    and "write_all T w qs = (Ok (), w')" "commit T w' = (Ok (), io')"
  shows "holds io' (rss @ [qs]) \<and> sorted_wrt (\<le>) (map rec_max_sequence qs)"
proof -
  have "writing w rss []" using new_writer assms(1,2) by (simp add: get_writer_def)
  from write_all_writing [OF this assms(4)] show ?thesis
    using commit_ok [of w' rss qs] assms(3,5) by (simp add: commit_def)
qed

end

end
