(* ===== verification/Mem_IO.thy ===== *)
theory Mem_IO
  imports Slab_Store
begin

text \<open>
  \<^verbatim>\<open>protocol/src/storage/mem_io.rs\<close>: the slab device over a byte buffer, and the proof that it
  meets the contract \<open>slab_io\<close> of the store. \<open>SLAB_SIZE\<close>, a const generic in the code, is an argument.
\<close>

record mem_io =
  mem_slab_count :: nat
  max_index :: nat
  start_offset :: nat
  mem_data :: "u8 list"

definition checked_div :: "nat \<Rightarrow> nat \<Rightarrow> nat option" where
  "checked_div a b = (if b = 0 then None else Some (a div b))"

definition mem_io_new :: "nat \<Rightarrow> u8 list \<Rightarrow> (mem_io, storage_error) result" where
  "mem_io_new SLAB_SIZE data =
     bind_ok (ok_or (checked_div (length data) SLAB_SIZE) Storage_Unreachable) (\<lambda>mi.
     Ok \<lparr>mem_slab_count = 0, max_index = mi, start_offset = 0, mem_data = data\<rparr>)"

definition mem_truncate :: "mem_io \<Rightarrow> (unit, storage_error) result \<times> mem_io" where
  "mem_truncate self = (Err Unimplemented, self)"

definition mem_free_slabs :: "nat \<Rightarrow> mem_io \<Rightarrow> (nat, storage_error) result" where
  "mem_free_slabs SLAB_SIZE self =
     bind_ok (usize_mul (mem_slab_count self) SLAB_SIZE) (\<lambda>used.
     bind_ok (usize_sub (length (mem_data self)) used) (\<lambda>rest.
     expect (checked_div rest SLAB_SIZE)))"

definition mem_get_slab_count :: "mem_io \<Rightarrow> (nat, storage_error) result" where
  "mem_get_slab_count self = Ok (mem_slab_count self)"

definition mem_new_writer :: "nat \<Rightarrow> mem_io \<Rightarrow> (mem_io slab_writer, storage_error) result" where
  "mem_new_writer SLAB_SIZE self =
     bind_ok (usize_mul (mem_slab_count self) SLAB_SIZE) (\<lambda>used.
     bind_ok (usize_add (start_offset self) used) (\<lambda>start.
     bind_ok (usize_add start SLAB_SIZE) (\<lambda>fin.
     slab_writer_new self start fin)))"

definition mem_get_slab :: "nat \<Rightarrow> mem_io \<Rightarrow> nat \<Rightarrow> (slab, storage_error) result" where
  "mem_get_slab SLAB_SIZE self index =
     (if index \<ge> max_index self then Err OutOfBounds
      else
        bind_ok (usize_mul index SLAB_SIZE) (\<lambda>o1.
        bind_ok (usize_add (start_offset self) o1) (\<lambda>o2.
        bind_ok (if length (mem_data self) = 0 then Panic else Ok (o2 mod length (mem_data self))) (\<lambda>slab_start.
        bind_ok (usize_add slab_start SLAB_SIZE) (\<lambda>slab_end.
        bind_ok (expect (range_get (mem_data self) slab_start slab_end)) (\<lambda>slab_slice.
        slab_new slab_slice index))))))"

definition mem_write_record ::
  "stored serde \<Rightarrow> mem_io \<Rightarrow> nat \<Rightarrow> nat \<Rightarrow> stored \<Rightarrow> (nat, storage_error) result \<times> mem_io" where
  "mem_write_record S self offset fin record =
     (let len_offset = offset in
      or_return (ok_or (checked_add_usize len_offset 4) OutOfBounds) self (\<lambda>offset.
      or_return (expect (range_get (mem_data self) offset fin)) self (\<lambda>target.
      let (wrote, target) = to_slice S record target;
          self = self\<lparr>mem_data := overwrite (mem_data self) offset target\<rparr> in
      or_return (map_err storage_error_from wrote) self (\<lambda>wrote.
      let wrote_len = length wrote;
          (res, data) = write_u32 (of_nat wrote_len) (mem_data self) len_offset;
          self = self\<lparr>mem_data := data\<rparr> in
      or_return res self (\<lambda>_.
      or_return (ok_or (checked_add_usize offset wrote_len) OutOfBounds) self (\<lambda>fin.
      (Ok fin, self)))))))"

definition mem_commit ::
  "mem_io \<Rightarrow> u32 \<Rightarrow> u64 \<Rightarrow> nat \<Rightarrow> (unit, storage_error) result \<times> mem_io" where
  "mem_commit self committed max_sequence offset =
     (let (res, data) = write_u32 committed (mem_data self) offset;
          self = self\<lparr>mem_data := data\<rparr> in
      or_return res self (\<lambda>offset.
      let (res, data) = write_u64 max_sequence (mem_data self) offset;
          self = self\<lparr>mem_data := data\<rparr> in
      or_return res self (\<lambda>_.
      or_return (ok_or (checked_add_usize (mem_slab_count self) 1) Storage_Unreachable) self (\<lambda>count.
      (Ok (), self\<lparr>mem_slab_count := count\<rparr>)))))"

definition mem_get_head :: "mem_io \<Rightarrow> (nat, storage_error) result" where
  "mem_get_head self = Ok (start_offset self)"

definition mem_io_trait :: "nat \<Rightarrow> stored serde \<Rightarrow> mem_io io_trait" where
  "mem_io_trait SLAB_SIZE S =
     \<lparr>io_truncate = mem_truncate, io_slab_size = (\<lambda>_. SLAB_SIZE), io_free_slabs = mem_free_slabs SLAB_SIZE,
      io_slab_count = mem_get_slab_count, io_get_slab = mem_get_slab SLAB_SIZE,
      io_new_writer = mem_new_writer SLAB_SIZE, io_write_record = mem_write_record S,
      io_commit = mem_commit, io_get_head = mem_get_head\<rparr>"

subsection \<open>What the buffer holds\<close>

text \<open>
  \<open>slab_at\<close>: the region of a slab holds records. \<open>mem_holds\<close>: the regions of the committed slabs hold
  them, and the count of every other region is zero, as it is in a zeroed buffer. A writer's records
  are the frames behind the twelve bytes of the next region.
\<close>

definition slab_at :: "nat \<Rightarrow> (stored \<Rightarrow> u8 list) \<Rightarrow> u8 list \<Rightarrow> nat \<Rightarrow> stored list \<Rightarrow> bool" where
  "slab_at SLAB enc data i rs \<longleftrightarrow>
     length rs < 2 ^ 32 \<and> INITIAL_OFFSET + length (frames enc rs) \<le> SLAB \<and> i * SLAB + SLAB \<le> length data \<and>
     range_get data (i * SLAB) (i * SLAB + 4) = Some (to_be_bytes (of_nat (length rs) :: u32)) \<and>
     range_get data (i * SLAB + INITIAL_OFFSET) (i * SLAB + INITIAL_OFFSET + length (frames enc rs))
       = Some (frames enc rs)"

definition mem_holds ::
  "nat \<Rightarrow> stored serde \<Rightarrow> (stored \<Rightarrow> u8 list) \<Rightarrow> mem_io \<Rightarrow> stored list list \<Rightarrow> bool" where
  "mem_holds SLAB S enc io rss \<longleftrightarrow>
     serde_ok S enc \<and> INITIAL_OFFSET < SLAB \<and> start_offset io = 0 \<and> length (mem_data io) < usize_limit \<and>
     max_index io = length (mem_data io) div SLAB \<and> mem_slab_count io = length rss \<and>
     length rss \<le> max_index io \<and>
     (\<forall>i<max_index io. slab_at SLAB enc (mem_data io) i (if i < length rss then rss ! i else []))"

definition mem_writing ::
  "nat \<Rightarrow> stored serde \<Rightarrow> (stored \<Rightarrow> u8 list) \<Rightarrow> mem_io slab_writer \<Rightarrow> stored list list \<Rightarrow> stored list \<Rightarrow> bool" where
  "mem_writing SLAB S enc w rss rs \<longleftrightarrow>
     mem_holds SLAB S enc (w_io w) rss \<and> w_count w = of_nat (length rs) \<and> length rs < 2 ^ 32 \<and>
     w_slab_offset w = length rss * SLAB \<and> w_end w = length rss * SLAB + SLAB \<and>
     w_offset w = length rss * SLAB + INITIAL_OFFSET + length (frames enc rs) \<and>
     (rs \<noteq> [] \<longrightarrow> w_offset w \<le> w_end w \<and> w_end w \<le> length (mem_data (w_io w)) \<and>
       range_get (mem_data (w_io w)) (length rss * SLAB + INITIAL_OFFSET) (w_offset w) = Some (frames enc rs))"

lemma index_bound:
  assumes "i < length data div SLAB"
  shows "i * SLAB + SLAB \<le> length (data :: u8 list)"
proof -
  have "Suc i * SLAB \<le> length data div SLAB * SLAB" using assms by (intro mult_le_mono1) simp
  also have "\<dots> \<le> length data" by simp
  finally show ?thesis by (simp add: add.commute)
qed

lemma regions_disjoint:
  assumes "i \<noteq> (j :: nat)"
  shows "i * SLAB + SLAB \<le> j * SLAB \<or> j * SLAB + SLAB \<le> i * SLAB"
proof -
  have "Suc i \<le> j \<or> Suc j \<le> i" using assms by linarith
  then have "Suc i * SLAB \<le> j * SLAB \<or> Suc j * SLAB \<le> i * SLAB" using mult_le_mono1 by blast
  then show ?thesis by (simp add: add.commute)
qed

lemma range_get_prefix:
  assumes "range_get xs a b = Some ys"
  shows "xs = take a xs @ ys @ drop b xs"
  using assms by (auto simp: range_get_def split: if_splits)
    (metis append_take_drop_id drop_drop le_add_diff_inverse2)

lemma split_in_four:
  "xs = take a xs @ take b (drop a xs) @ take c (drop (a + b) xs) @ drop (a + b + c) xs"
proof -
  have "drop (a + b) xs = take c (drop (a + b) xs) @ drop (a + b + c) xs"
    by (metis add.commute append_take_drop_id drop_drop)
  moreover have "drop a xs = take b (drop a xs) @ drop (a + b) xs"
    by (metis add.commute append_take_drop_id drop_drop)
  ultimately show ?thesis by (metis append_take_drop_id)
qed

lemma slab_at_image:
  assumes at: "slab_at SLAB enc data i rs"
  obtains m rest where "range_get data (i * SLAB) (i * SLAB + SLAB) = Some (slab_image enc rs m rest)"
proof -
  let ?o = "i * SLAB"
  let ?slab = "take SLAB (drop ?o data)"
  have le: "INITIAL_OFFSET + length (frames enc rs) \<le> SLAB" "?o + SLAB \<le> length data"
    using at by (auto simp: slab_at_def)
  then have fits: "length (frames enc rs) \<le> SLAB - 12" by (simp add: INITIAL_OFFSET_def)
  have count: "take 4 (drop ?o data) = to_be_bytes (of_nat (length rs) :: u32)"
    and body: "take (length (frames enc rs)) (drop (?o + INITIAL_OFFSET) data) = frames enc rs"
    using at by (auto simp: slab_at_def range_get_def split: if_splits)
  let ?m = "from_be_bytes (take 8 (drop (?o + 4) data)) :: u64"
  have m: "to_be_bytes ?m = take 8 (drop (?o + 4) data)"
    using le by (intro to_from_be_bytes) (simp_all add: INITIAL_OFFSET_def)
  have "?slab = take 4 ?slab @ take 8 (drop 4 ?slab) @ take (length (frames enc rs)) (drop 12 ?slab)
      @ drop (12 + length (frames enc rs)) ?slab"
    using split_in_four [of ?slab 4 8 "length (frames enc rs)"] by simp
  also have "take 4 ?slab = to_be_bytes (of_nat (length rs) :: u32)"
    using le count by (simp add: INITIAL_OFFSET_def min_def)
  also have "take 8 (drop 4 ?slab) = to_be_bytes ?m"
    using le by (simp add: m INITIAL_OFFSET_def drop_take min_def add.commute)
  also have "take (length (frames enc rs)) (drop 12 ?slab) = frames enc rs"
    using body fits by (simp add: INITIAL_OFFSET_def drop_take min_def add.commute)
  finally have "?slab = slab_image enc rs ?m (drop (12 + length (frames enc rs)) ?slab)"
    by (simp add: slab_image_def)
  moreover have "range_get data ?o (?o + SLAB) = Some ?slab" using le by (simp add: range_get_def)
  ultimately show thesis using that by metis
qed

text \<open>Writes outside a region do not change what it holds.\<close>

lemma slab_at_overwrite:
  assumes "slab_at SLAB enc data i rs" "a + length ys \<le> length data"
    and "a + length ys \<le> i * SLAB \<or> i * SLAB + SLAB \<le> a"
  shows "slab_at SLAB enc (overwrite data a ys) i rs"
  using assms by (auto simp: slab_at_def range_get_overwrite_outside INITIAL_OFFSET_def)

lemma slab_at_overwrite_empty:
  assumes "slab_at SLAB enc data i []" "a + length ys \<le> length data" "i * SLAB + 4 \<le> a"
  shows "slab_at SLAB enc (overwrite data a ys) i []"
  using assms(1,2) range_get_overwrite_before [OF assms(3,2), of "i * SLAB"]
  by (simp add: slab_at_def range_get_def)

subsection \<open>Reading the buffer\<close>

lemma mem_get_slab_holds:
  assumes "mem_holds SLAB S enc io rss" "i < max_index io"
  shows "\<exists>sl. mem_get_slab SLAB io i = Ok sl \<and>
    slab_holds enc sl i (if i < length rss then rss ! i else [])"
proof -
  let ?rs = "if i < length rss then rss ! i else []"
  have io: "start_offset io = 0" "length (mem_data io) < usize_limit" "INITIAL_OFFSET < SLAB"
      "max_index io = length (mem_data io) div SLAB" and at: "slab_at SLAB enc (mem_data io) i ?rs"
    using assms by (auto simp: mem_holds_def)
  have le: "i * SLAB + SLAB \<le> length (mem_data io)" using at by (simp add: slab_at_def)
  with io(3) have ne: "mem_data io \<noteq> []" by auto
  obtain m rest where img: "range_get (mem_data io) (i * SLAB) (i * SLAB + SLAB) = Some (slab_image enc ?rs m rest)"
    using slab_at_image [OF at] .
  then have "length (slab_image enc ?rs m rest) < usize_limit"
    using io(2) range_get_length [OF img] by linarith
  note new = slab_new_image [OF refl this, of i]
  have "mem_get_slab SLAB io i = slab_new (slab_image enc ?rs m rest) i"
    using assms(2) io le img ne by (simp add: mem_get_slab_def)
  moreover have "length ?rs < 2 ^ 32" using at unfolding slab_at_def by blast
  ultimately show ?thesis
    using \<open>length (slab_image enc ?rs m rest) < usize_limit\<close>
    by (simp add: new slab_holds_def) blast
qed

interpretation mem_source: slab_source "mem_io_trait SLAB S" S enc "mem_holds SLAB S enc"
proof
  fix io rss i
  assume h: "mem_holds SLAB S enc io rss"
  show "serde_ok S enc" using h by (simp add: mem_holds_def)
  show "io_get_head (mem_io_trait SLAB S) io = Ok 0"
    "io_slab_count (mem_io_trait SLAB S) io = Ok (length rss)"
    using h by (simp_all add: mem_holds_def mem_io_trait_def mem_get_head_def mem_get_slab_count_def)
  have "length rss \<le> length (mem_data io) div SLAB" "length (mem_data io) < usize_limit"
    using h by (auto simp: mem_holds_def)
  then show "length rss < usize_limit"
    using div_le_dividend [of "length (mem_data io)" SLAB] by linarith
  show "i < length rss \<Longrightarrow>
      \<exists>sl. io_get_slab (mem_io_trait SLAB S) io i = Ok sl \<and> slab_holds enc sl i (rss ! i)"
    using mem_get_slab_holds [OF h, of i] h by (auto simp: mem_io_trait_def mem_holds_def)
  show "length rss \<le> i \<Longrightarrow> io_get_slab (mem_io_trait SLAB S) io i = Err OutOfBounds \<or>
      (\<exists>sl. io_get_slab (mem_io_trait SLAB S) io i = Ok sl \<and> slab_holds enc sl i [])"
    using mem_get_slab_holds [OF h, of i]
    by (cases "i < max_index io") (auto simp: mem_io_trait_def mem_get_slab_def)
qed

subsection \<open>Writing into the buffer\<close>

lemma mem_write_fits:
  assumes "serde_ok S enc" "length (mem_data io) < usize_limit"
    and "o1 + 4 + length (enc r) \<le> e" "e \<le> length (mem_data io)"
  shows "mem_write_record S io o1 e r =
    (Ok (o1 + length (frame enc r)), io\<lparr>mem_data := overwrite (mem_data io) o1 (frame enc r)\<rparr>)"
proof -
  let ?d = "mem_data io"
  let ?d1 = "overwrite ?d (o1 + 4) (enc r)"
  have target: "range_get ?d (o1 + 4) e = Some (take (e - (o1 + 4)) (drop (o1 + 4) ?d))"
    using assms by (simp add: range_get_def)
  have "to_slice S r (take (e - (o1 + 4)) (drop (o1 + 4) ?d))
      = (Ok (enc r), overwrite (take (e - (o1 + 4)) (drop (o1 + 4) ?d)) 0 (enc r))"
    using assms by (intro serde_to_slice_fits) auto
  moreover have "overwrite ?d (o1 + 4) (overwrite (take (e - (o1 + 4)) (drop (o1 + 4) ?d)) 0 (enc r)) = ?d1"
    using assms by (intro overwrite_in_slice) auto
  moreover have "length ?d1 = length ?d" using assms by simp
  then have "write_u32 (of_nat (length (enc r))) ?d1 o1
      = (Ok (o1 + 4), overwrite ?d1 o1 (to_be_bytes (of_nat (length (enc r)) :: u32)))"
    using assms by (intro write_u32_in) auto
  moreover have "overwrite ?d1 o1 (to_be_bytes (of_nat (length (enc r)) :: u32)) = overwrite ?d o1 (frame enc r)"
    using overwrite_overwrite_before [of o1 "to_be_bytes (of_nat (length (enc r)) :: u32)" "enc r" ?d] assms
    by (simp add: frame_def)
  ultimately show ?thesis
    using assms target by (simp add: mem_write_record_def)
qed

lemma mem_write_full:
  assumes "serde_ok S enc" "length (mem_data io) < usize_limit"
    and "o1 + 4 \<le> e" "e < o1 + 4 + length (enc r)" "e \<le> length (mem_data io)"
  obtains buf where "length buf = e - (o1 + 4)"
    "mem_write_record S io o1 e r = (Err SlabFull, io\<lparr>mem_data := overwrite (mem_data io) (o1 + 4) buf\<rparr>)"
proof -
  let ?t = "take (e - (o1 + 4)) (drop (o1 + 4) (mem_data io))"
  have "length ?t = e - (o1 + 4)" using assms by simp
  then have "length ?t < length (enc r)" using assms by linarith
  then obtain buf where "to_slice S r ?t = (Err SerializeBufferFull, buf)" "length buf = length ?t"
    by (rule serde_to_slice_full [OF assms(1)])
  then show thesis
    using assms that by (simp add: mem_write_record_def range_get_def)
qed

lemma mem_write_outside:
  assumes "o1 + 4 < usize_limit" "\<not> (o1 + 4 \<le> e \<and> e \<le> length (mem_data io))"
  shows "mem_write_record S io o1 e r = (Panic, io)"
  using assms(1) range_get_None [of "mem_data io" "o1 + 4" e] assms(2) by (simp add: mem_write_record_def)

lemma mem_write_Ok_bounds:
  assumes "mem_write_record S io o1 e r = (Ok fin, io')"
  shows "o1 + 4 \<le> e" "e \<le> length (mem_data io)"
  using assms by (auto simp: mem_write_record_def Let_def result_simps slice_simps)

lemma mem_write_Err_bounds:
  assumes "mem_write_record S io o1 e r = (Err x, io')"
  shows "io' = io \<or> o1 + 4 \<le> e \<and> e \<le> length (mem_data io)"
proof (cases "o1 + 4 < usize_limit")
  case True
  then show ?thesis using mem_write_outside [OF True, of e io S r] assms by auto
next
  case False
  then have "ok_or (checked_add_usize o1 4) OutOfBounds = Err OutOfBounds"
    by (simp add: checked_add_usize_def)
  then show ?thesis using assms by (simp add: mem_write_record_def)
qed

lemma mem_commit_in:
  assumes "o1 + INITIAL_OFFSET \<le> length (mem_data io)" "length (mem_data io) < usize_limit"
    and "Suc (mem_slab_count io) < usize_limit"
  shows "mem_commit io n m o1 = (Ok (), io\<lparr>mem_data :=
    overwrite (overwrite (mem_data io) o1 (to_be_bytes n)) (o1 + 4) (to_be_bytes m),
    mem_slab_count := Suc (mem_slab_count io)\<rparr>)"
proof -
  have "write_u32 n (mem_data io) o1 = (Ok (o1 + 4), overwrite (mem_data io) o1 (to_be_bytes n))"
    using assms by (intro write_u32_in) (simp_all add: INITIAL_OFFSET_def)
  moreover have "write_u64 m (overwrite (mem_data io) o1 (to_be_bytes n)) (o1 + 4)
      = (Ok (o1 + 4 + 8), overwrite (overwrite (mem_data io) o1 (to_be_bytes n)) (o1 + 4) (to_be_bytes m))"
    using assms by (intro write_u64_in) (simp_all add: INITIAL_OFFSET_def)
  ultimately show ?thesis using assms(3) by (simp add: mem_commit_def)
qed

subsection \<open>The buffer meets the contract\<close>

lemma mem_holds_overwrite:
  assumes h: "mem_holds SLAB S enc io rss" and a: "length rss * SLAB + 4 \<le> a"
    and e: "a + length ys \<le> length rss * SLAB + SLAB" "a + length ys \<le> length (mem_data io)"
  shows "mem_holds SLAB S enc (io\<lparr>mem_data := overwrite (mem_data io) a ys\<rparr>) rss"
proof -
  have "slab_at SLAB enc (overwrite (mem_data io) a ys) i (if i < length rss then rss ! i else [])"
    if "i < max_index io" for i
  proof (cases "i = length rss")
    case True
    then show ?thesis using h that a e slab_at_overwrite_empty [of SLAB enc "mem_data io" i a ys]
      by (auto simp: mem_holds_def)
  next
    case False
    have "slab_at SLAB enc (mem_data io) i (if i < length rss then rss ! i else [])"
      using h that by (simp add: mem_holds_def)
    moreover have "a + length ys \<le> i * SLAB \<or> i * SLAB + SLAB \<le> a"
      using regions_disjoint [OF False, of SLAB] a e by linarith
    ultimately show ?thesis using slab_at_overwrite e(2) by blast
  qed
  then show ?thesis using h e(2) by (simp add: mem_holds_def)
qed

lemma mem_new_writer_writing:
  assumes h: "mem_holds SLAB S enc io rss" and w: "mem_new_writer SLAB io = Ok w"
  shows "mem_writing SLAB S enc w rss []"
proof -
  have io: "start_offset io = 0" "mem_slab_count io = length rss"
    using h by (auto simp: mem_holds_def)
  have w_eq: "w = \<lparr>w_count = 0, w_slab_max_sequence = 0, w_slab_offset = length rss * SLAB,
      w_offset = length rss * SLAB + INITIAL_OFFSET, w_end = length rss * SLAB + SLAB, w_io = io\<rparr>"
    using w by (auto simp: mem_new_writer_def slab_writer_new_def io result_simps split: if_splits)
  show ?thesis unfolding w_eq using h by (simp add: mem_writing_def)
qed

lemma mem_write_writing:
  assumes wr: "mem_writing SLAB S enc w rss rs"
    and ok: "mem_write_record S (w_io w) (w_offset w) (w_end w) r = (Ok fin, io')"
  shows "Suc (length rs) < 2 ^ 32 \<and> mem_writing SLAB S enc (w\<lparr>w_io := io',
    w_count := of_nat (Suc (length rs)), w_slab_max_sequence := m, w_offset := fin\<rparr>) rss (rs @ [r])"
proof -
  let ?d = "mem_data (w_io w)" and ?b = "length rss * SLAB"
  have h: "mem_holds SLAB S enc (w_io w) rss" and off: "w_offset w = ?b + INITIAL_OFFSET + length (frames enc rs)"
    and e: "w_end w = ?b + SLAB" "w_slab_offset w = ?b"
    using wr by (auto simp: mem_writing_def)
  have io: "serde_ok S enc" "length ?d < usize_limit" using h by (auto simp: mem_holds_def)
  have bound: "w_offset w + 4 \<le> w_end w" "w_end w \<le> length ?d" using mem_write_Ok_bounds [OF ok] by auto
  have fits: "w_offset w + 4 + length (enc r) \<le> w_end w"
  proof (rule ccontr)
    assume "\<not> ?thesis"
    then show False using ok by (auto intro: mem_write_full [OF io bound(1) _ bound(2), of r])
  qed
  note eff = mem_write_fits [OF io fits bound(2)]
  have fin: "fin = w_offset w + length (frame enc r)"
    and io': "io' = (w_io w)\<lparr>mem_data := overwrite ?d (w_offset w) (frame enc r)\<rparr>"
    using eff ok by auto
  have body: "range_get ?d (?b + INITIAL_OFFSET) (w_offset w) = Some (frames enc rs)"
    using wr bound off by (cases "rs = []") (auto simp: mem_writing_def range_get_def)
  have "range_get (overwrite ?d (w_offset w) (frame enc r)) (?b + INITIAL_OFFSET) (w_offset w + length (frame enc r))
      = Some (frames enc rs @ frame enc r)"
    using fits bound by (intro range_get_extend [OF body]) simp
  moreover have "mem_holds SLAB S enc io' rss"
    unfolding io' using fits bound e off by (intro mem_holds_overwrite [OF h]) (auto simp: INITIAL_OFFSET_def)
  moreover have "Suc (length rs) \<le> length (frames enc (rs @ [r]))"
    using length_records [of "rs @ [r]" enc] by simp
  then have "Suc (length rs) < 2 ^ 32"
    using fits bound io(2) off by (simp add: usize_limit_def)
  ultimately show ?thesis
    using fits bound e off io' fin by (simp add: mem_writing_def)
qed

lemma mem_write_err_writing:
  assumes wr: "mem_writing SLAB S enc w rss rs"
    and err: "mem_write_record S (w_io w) (w_offset w) (w_end w) r = (Err x, io')"
  shows "mem_writing SLAB S enc (w\<lparr>w_io := io'\<rparr>) rss rs"
proof (cases "io' = w_io w")
  case True
  then show ?thesis using wr by simp
next
  case False
  let ?d = "mem_data (w_io w)" and ?b = "length rss * SLAB"
  have h: "mem_holds SLAB S enc (w_io w) rss" and off: "w_offset w = ?b + INITIAL_OFFSET + length (frames enc rs)"
    and e: "w_end w = ?b + SLAB"
    using wr by (auto simp: mem_writing_def)
  have io: "serde_ok S enc" "length ?d < usize_limit" using h by (auto simp: mem_holds_def)
  have bound: "w_offset w + 4 \<le> w_end w" "w_end w \<le> length ?d"
    using mem_write_Err_bounds [OF err] False by auto
  have "\<not> w_offset w + 4 + length (enc r) \<le> w_end w"
    using mem_write_fits [OF io _ bound(2)] err by fastforce
  then have "w_end w < w_offset w + 4 + length (enc r)" by simp
  then obtain buf where buf: "length buf = w_end w - (w_offset w + 4)"
      "mem_write_record S (w_io w) (w_offset w) (w_end w) r
        = (Err SlabFull, (w_io w)\<lparr>mem_data := overwrite ?d (w_offset w + 4) buf\<rparr>)"
    by (rule mem_write_full [OF io bound(1) _ bound(2)])
  then have io': "io' = (w_io w)\<lparr>mem_data := overwrite ?d (w_offset w + 4) buf\<rparr>"
    using err by simp
  have "mem_holds SLAB S enc io' rss"
    unfolding io' using bound e off buf(1) by (intro mem_holds_overwrite [OF h]) (auto simp: INITIAL_OFFSET_def)
  moreover have "range_get (overwrite ?d (w_offset w + 4) buf) (?b + INITIAL_OFFSET) (w_offset w)
      = range_get ?d (?b + INITIAL_OFFSET) (w_offset w)"
    using bound buf(1) by (intro range_get_overwrite_before) auto
  ultimately show ?thesis
    using wr bound buf(1) io' off by (auto simp: mem_writing_def)
qed

lemma mem_commit_writing:
  assumes wr: "mem_writing SLAB S enc w rss rs" and ne: "rs \<noteq> []"
  shows "\<exists>io'. mem_commit (w_io w) (w_count w) m (w_slab_offset w) = (Ok (), io') \<and>
    mem_holds SLAB S enc io' (rss @ [rs])"
proof -
  let ?io = "w_io w" and ?b = "length rss * SLAB" and ?n = "length rss"
  let ?d = "mem_data ?io"
  have h: "mem_holds SLAB S enc ?io rss" and off: "w_offset w = ?b + INITIAL_OFFSET + length (frames enc rs)"
    and e: "w_offset w \<le> ?b + SLAB" "?b + SLAB \<le> length ?d" "w_slab_offset w = ?b"
    and count: "w_count w = of_nat (length rs)" "length rs < 2 ^ 32"
    and body: "range_get ?d (?b + INITIAL_OFFSET) (w_offset w) = Some (frames enc rs)"
    using wr ne by (auto simp: mem_writing_def)
  have io: "length ?d < usize_limit" "max_index ?io = length ?d div SLAB" "INITIAL_OFFSET < SLAB"
      "mem_slab_count ?io = ?n" using h by (auto simp: mem_holds_def)
  have "Suc ?n * SLAB \<le> length ?d" using e(2) by simp
  then have room: "Suc ?n \<le> max_index ?io"
    unfolding io(2) using io(3) by (simp add: less_eq_div_iff_mult_less_eq)
  have "Suc ?n < usize_limit"
    using room io(1,2) div_le_dividend [of "length ?d" SLAB] by linarith
  moreover define d' where "d' = overwrite (overwrite ?d ?b (to_be_bytes (w_count w))) (?b + 4) (to_be_bytes m)"
  ultimately have eff: "mem_commit ?io (w_count w) m (w_slab_offset w)
      = (Ok (), ?io\<lparr>mem_data := d', mem_slab_count := Suc ?n\<rparr>)"
    using mem_commit_in [of ?b ?io "w_count w" m] off e io by (simp add: d'_def)
  have len: "length (overwrite ?d ?b (to_be_bytes (w_count w))) = length ?d" "length d' = length ?d"
    using off e by (simp_all add: d'_def INITIAL_OFFSET_def)
  have d': "d' = overwrite ?d ?b (to_be_bytes (w_count w) @ to_be_bytes m)"
    using off e by (simp add: d'_def overwrite_def INITIAL_OFFSET_def add.commute)
  have "slab_at SLAB enc d' i (if i < Suc ?n then (rss @ [rs]) ! i else [])" if "i < max_index ?io" for i
  proof (cases "i = ?n")
    case True
    have "range_get d' ?b (?b + 4) = Some (to_be_bytes (w_count w))"
    proof -
      have "range_get (overwrite ?d ?b (to_be_bytes (w_count w))) ?b (?b + length (to_be_bytes (w_count w)))
          = Some (to_be_bytes (w_count w))"
        using off e by (intro range_get_overwrite_same) (simp add: INITIAL_OFFSET_def)
      moreover have "range_get d' ?b (?b + 4) = range_get (overwrite ?d ?b (to_be_bytes (w_count w))) ?b (?b + 4)"
        unfolding d'_def using off e len by (intro range_get_overwrite_before) (simp_all add: INITIAL_OFFSET_def)
      ultimately show ?thesis by simp
    qed
    moreover have "range_get d' (?b + INITIAL_OFFSET) (w_offset w) = Some (frames enc rs)"
      unfolding d' using off e body by (subst range_get_overwrite_after) (simp_all add: INITIAL_OFFSET_def)
    ultimately show ?thesis
      using True off e count len by (simp add: slab_at_def)
  next
    case False
    have "slab_at SLAB enc ?d i (if i < ?n then rss ! i else [])"
      using h that by (simp add: mem_holds_def)
    moreover have "?b + 12 \<le> i * SLAB \<or> i * SLAB + SLAB \<le> ?b"
      using regions_disjoint [OF False, of SLAB] io(3) by (auto simp: INITIAL_OFFSET_def)
    ultimately have "slab_at SLAB enc d' i (if i < ?n then rss ! i else [])"
      unfolding d' using off e by (intro slab_at_overwrite) (simp_all add: INITIAL_OFFSET_def)
    then show ?thesis using False by (auto simp: nth_append less_Suc_eq split: if_splits)
  qed
  then show ?thesis
    using h room len by (simp add: eff mem_holds_def)
qed

interpretation mem: slab_io "mem_io_trait SLAB S" S enc "mem_holds SLAB S enc" "mem_writing SLAB S enc"
proof
  fix io io' rss rs w m r fin e
  show "mem_holds SLAB S enc io rss \<Longrightarrow> io_new_writer (mem_io_trait SLAB S) io = Ok w \<Longrightarrow>
      mem_writing SLAB S enc w rss []"
    by (simp add: mem_io_trait_def mem_new_writer_writing)
  show "mem_writing SLAB S enc w rss rs \<Longrightarrow> w_count w = of_nat (length rs)"
    by (simp add: mem_writing_def)
  show "mem_writing SLAB S enc w rss rs \<Longrightarrow>
      io_write_record (mem_io_trait SLAB S) (w_io w) (w_offset w) (w_end w) r = (Ok fin, io') \<Longrightarrow>
      Suc (length rs) < 2 ^ 32 \<and> mem_writing SLAB S enc (w\<lparr>w_io := io',
        w_count := of_nat (Suc (length rs)), w_slab_max_sequence := m, w_offset := fin\<rparr>) rss (rs @ [r])"
    unfolding mem_io_trait_def io_trait.simps by (rule mem_write_writing)
  show "mem_writing SLAB S enc w rss rs \<Longrightarrow>
      io_write_record (mem_io_trait SLAB S) (w_io w) (w_offset w) (w_end w) r = (Err e, io') \<Longrightarrow>
      mem_writing SLAB S enc (w\<lparr>w_io := io'\<rparr>) rss rs"
    unfolding mem_io_trait_def io_trait.simps by (rule mem_write_err_writing)
  show "mem_writing SLAB S enc w rss rs \<Longrightarrow> rs \<noteq> [] \<Longrightarrow>
      io_commit (mem_io_trait SLAB S) (w_io w) (w_count w) m (w_slab_offset w) = (Ok (), io') \<Longrightarrow>
      mem_holds SLAB S enc io' (rss @ [rs])"
    unfolding mem_io_trait_def io_trait.simps using mem_commit_writing [of SLAB S enc w rss rs m] by auto
  show "mem_writing SLAB S enc w rss rs \<Longrightarrow> rs \<noteq> [] \<Longrightarrow>
      io_commit (mem_io_trait SLAB S) (w_io w) (w_count w) m (w_slab_offset w) = (Err e, io') \<Longrightarrow>
      mem_holds SLAB S enc io' rss"
    unfolding mem_io_trait_def io_trait.simps using mem_commit_writing [of SLAB S enc w rss rs m] by auto
  show "mem_writing SLAB S enc w rss rs \<Longrightarrow> mem_holds SLAB S enc (w_io w) rss"
    by (simp add: mem_writing_def)
qed

text \<open>A zeroed buffer holds no slab.\<close>

lemma mem_io_new_holds:
  assumes "serde_ok S enc" "INITIAL_OFFSET < SLAB" "n < usize_limit"
  shows "\<exists>io. mem_io_new SLAB (replicate n 0) = Ok io \<and> mem_holds SLAB S enc io []"
proof -
  have "slab_at SLAB enc (replicate n 0) i []" if "i < n div SLAB" for i
  proof -
    have "i * SLAB + SLAB \<le> n" using index_bound [of i "replicate n 0" SLAB] that by simp
    moreover have "to_be_bytes (0 :: u32) = replicate 4 0" by code_simp
    ultimately show ?thesis
      using assms(2) by (simp add: slab_at_def range_get_def INITIAL_OFFSET_def)
  qed
  then show ?thesis
    using assms by (simp add: mem_io_new_def checked_div_def mem_holds_def)
qed

end
