(* ===== verification/Mem_Store.thy ===== *)
theory Mem_Store
  imports Mem_IO
begin

text \<open>
  The store over the memory device: what a client can rely on, stated without the contract. A concrete
  encoding of records, fixed fields in front of the data, shows that the assumptions on \<^verbatim>\<open>postcard\<close>
  can be met.
\<close>

subsection \<open>A concrete encoding\<close>

definition plain_enc :: "stored \<Rightarrow> u8 list" where
  "plain_enc r = to_be_bytes (rec_max_sequence r) @ to_be_bytes (rec_message_count r) @
     to_be_bytes (rec_sequence r) @ node_id_to_be_bytes (rec_sender r) @ rec_data r"

definition plain_dec :: "u8 list \<Rightarrow> (stored, postcard_error) result" where
  "plain_dec bs =
     (if length bs < 56 then Err (OtherPostcardError 0)
      else Ok \<lparr>rec_max_sequence = from_be_bytes (take 8 bs),
        rec_message_count = from_be_bytes (take 8 (drop 8 bs)),
        rec_sequence = from_be_bytes (take 8 (drop 16 bs)),
        rec_sender = NodeId (Id (from_be_bytes (take 32 (drop 24 bs)))), rec_data = drop 56 bs\<rparr>)"

definition plain_serde :: "stored serde" where
  "plain_serde =
     \<lparr>to_slice = (\<lambda>r buf. if length (plain_enc r) \<le> length buf
        then (Ok (plain_enc r), overwrite buf 0 (plain_enc r)) else (Err SerializeBufferFull, buf)),
      from_bytes = plain_dec\<rparr>"

lemma length_plain_enc: "length (plain_enc r) = 56 + length (rec_data r)"
  by (simp add: plain_enc_def node_id_to_be_bytes_def id_to_be_bytes_def)

lemma plain_serde_ok: "serde_ok plain_serde plain_enc"
proof -
  have "plain_dec (plain_enc r) = Ok r" for r
    by (simp add: plain_dec_def length_plain_enc) (simp add: plain_enc_def node_id_to_be_bytes_def id_to_be_bytes_def)
  moreover have "plain_enc r \<noteq> []" for r using length_plain_enc [of r] by auto
  moreover have "plain_dec bs \<noteq> Panic" for bs by (simp add: plain_dec_def)
  ultimately show ?thesis by (simp add: serde_ok_def plain_serde_def)
qed

subsection \<open>Opening a writer\<close>

lemma mem_get_writer:
  assumes "mem_holds SLAB S enc (storage_io st) rss" "length rss * SLAB + SLAB < usize_limit"
  shows "get_writer (mem_io_trait SLAB S) st = Ok \<lparr>w_count = 0, w_slab_max_sequence = 0,
    w_slab_offset = length rss * SLAB, w_offset = length rss * SLAB + INITIAL_OFFSET,
    w_end = length rss * SLAB + SLAB, w_io = storage_io st\<rparr>"
  using assms
  by (simp add: get_writer_def mem_io_trait_def mem_new_writer_def mem_holds_def slab_writer_new_def)

lemma mem_free_region:
  assumes "mem_holds SLAB S enc io rss" "length rss < max_index io"
  shows "length rss * SLAB + SLAB \<le> length (mem_data io)" "length rss * SLAB + SLAB < usize_limit"
  using assms index_bound [of "length rss" "mem_data io" SLAB] by (auto simp: mem_holds_def)

lemma mem_full_region:
  assumes "mem_holds SLAB S enc io rss" "length rss = max_index io"
  shows "length (mem_data io) < length rss * SLAB + SLAB"
proof -
  have "0 < SLAB" "max_index io = length (mem_data io) div SLAB"
    using assms by (auto simp: mem_holds_def)
  then show ?thesis
    using assms(2) dividend_less_div_times [of SLAB "length (mem_data io)"] by (simp add: add.commute)
qed

lemma write_record_mem:
  "\<not> w_slab_max_sequence w > rec_max_sequence r \<Longrightarrow>
    mem_write_record S (w_io w) (w_offset w) (w_end w) r = (wrote, io') \<Longrightarrow>
    write_record (mem_io_trait SLAB S) w (rec_max_sequence r) (rec_message_count r) (rec_sequence r)
        (rec_sender r) (rec_data r)
      = or_return wrote (w\<lparr>w_io := io'\<rparr>) (\<lambda>fin.
          or_return (ok_or (checked_add (w_count w) 1) Storage_Unreachable) (w\<lparr>w_io := io'\<rparr>) (\<lambda>count.
          (Ok (), w\<lparr>w_io := io', w_count := count, w_slab_max_sequence := rec_max_sequence r, w_offset := fin\<rparr>)))"
  by (cases r) (simp add: write_record_def mem_io_trait_def Let_def)

lemma first_record_fits:
  assumes h: "mem_holds SLAB S enc (storage_io st) rss" and free: "length rss < max_index (storage_io st)"
    and fits: "16 + length (enc r) \<le> SLAB"
  shows "\<exists>w w' io'. get_writer (mem_io_trait SLAB S) st = Ok w \<and>
    write_record (mem_io_trait SLAB S) w (rec_max_sequence r) (rec_message_count r) (rec_sequence r)
      (rec_sender r) (rec_data r) = (Ok (), w') \<and>
    commit (mem_io_trait SLAB S) w' = (Ok (), io') \<and>
    mem_holds SLAB S enc io' (rss @ [[r]]) \<and> max_index io' = max_index (storage_io st)"
proof -
  let ?T = "mem_io_trait SLAB S" and ?io = "storage_io st" and ?b = "length rss * SLAB"
  note reg = mem_free_region [OF h free]
  have io: "serde_ok S enc" "length (mem_data ?io) < usize_limit" "mem_slab_count ?io = length rss"
      "max_index ?io = length (mem_data ?io) div SLAB"
    using h by (auto simp: mem_holds_def)
  then have mi_bound: "max_index ?io < usize_limit"
    using div_le_dividend [of "length (mem_data ?io)" SLAB] by linarith
  define w where "w = \<lparr>w_count = 0, w_slab_max_sequence = 0, w_slab_offset = ?b,
    w_offset = ?b + INITIAL_OFFSET, w_end = ?b + SLAB, w_io = ?io\<rparr>"
  define io1 where "io1 = ?io\<lparr>mem_data := overwrite (mem_data ?io) (?b + INITIAL_OFFSET) (frame enc r)\<rparr>"
  define w' where "w' = w\<lparr>w_io := io1, w_count := 1, w_slab_max_sequence := rec_max_sequence r,
    w_offset := ?b + INITIAL_OFFSET + length (frame enc r)\<rparr>"
  have get: "get_writer ?T st = Ok w" using mem_get_writer [OF h reg(2)] by (simp add: w_def)
  have len: "length (mem_data io1) = length (mem_data ?io)"
    using fits reg(1) by (simp add: io1_def INITIAL_OFFSET_def)
  have "mem_write_record S ?io (?b + INITIAL_OFFSET) (?b + SLAB) r
      = (Ok (?b + INITIAL_OFFSET + length (frame enc r)), io1)"
    unfolding io1_def using fits reg io by (intro mem_write_fits) (simp_all add: INITIAL_OFFSET_def)
  moreover have "checked_add (0 :: u32) 1 = Some 1" by (simp add: checked_add_def)
  ultimately have written: "write_record ?T w (rec_max_sequence r) (rec_message_count r) (rec_sequence r)
      (rec_sender r) (rec_data r) = (Ok (), w')"
    using write_record_mem [where w = w and r = r and S = S and io' = io1 and SLAB = SLAB
        and wrote = "Ok (?b + INITIAL_OFFSET + length (frame enc r))"]
    by (simp add: w_def w'_def del: length_frame)
  let ?io2 = "io1\<lparr>mem_data :=
      overwrite (overwrite (mem_data io1) ?b (to_be_bytes (1 :: u32))) (?b + 4) (to_be_bytes (rec_max_sequence r)),
      mem_slab_count := Suc (mem_slab_count io1)\<rparr>"
  have "mem_commit io1 1 (rec_max_sequence r) ?b = (Ok (), ?io2)"
    using len reg io free fits mi_bound by (intro mem_commit_in) (simp_all add: io1_def INITIAL_OFFSET_def)
  then have comm: "commit ?T w' = (Ok (), ?io2)"
    by (simp add: commit_def mem_io_trait_def w'_def w_def)
  have "max_index ?io2 = max_index ?io" by (simp add: io1_def)
  with mem.append_spec [OF h get written comm] get written comm show ?thesis by auto
qed

subsection \<open>Properties of the store\<close>

text \<open>
  C15. Adding a record to a memory store with a free slab, opening a writer, writing the record and
  committing it, succeeds whenever the record with its length and the header of the slab fits the
  slab size, and afterwards the store holds the records it held before followed by the new one. The
  buffer keeps its size.
\<close>

theorem append_commits:
  assumes "mem_holds SLAB S enc (storage_io st) rss" and "length rss < max_index (storage_io st)"
    and "INITIAL_OFFSET + 4 + length (enc r) \<le> SLAB"
  shows "\<exists>w w' io'. get_writer (mem_io_trait SLAB S) st = Ok w \<and>
    write_record (mem_io_trait SLAB S) w (rec_max_sequence r) (rec_message_count r) (rec_sequence r)
      (rec_sender r) (rec_data r) = (Ok (), w') \<and>
    commit (mem_io_trait SLAB S) w' = (Ok (), io') \<and>
    mem_holds SLAB S enc io' (rss @ [[r]]) \<and> max_index io' = max_index (storage_io st)"
  using first_record_fits [OF assms(1,2)] assms(3) by (simp add: INITIAL_OFFSET_def)

definition demo_record :: "nat \<Rightarrow> stored" where
  "demo_record n = \<lparr>rec_max_sequence = of_nat n, rec_message_count = of_nat n, rec_sequence = of_nat n,
     rec_sender = NodeId (Id 3), rec_data = [of_nat n, 7]\<rparr>"

lemma demo_record_length: "length (plain_enc (demo_record n)) = 58"
  by (simp add: length_plain_enc demo_record_def)

lemma demo_empty_store:
  "\<exists>st :: mem_io storage. mem_holds 80 plain_serde plain_enc (storage_io st) [] \<and> max_index (storage_io st) = 2"
proof -
  obtain io where "mem_io_new 80 (replicate 160 0) = Ok io" "mem_holds 80 plain_serde plain_enc io []"
    using mem_io_new_holds [OF plain_serde_ok, of 80 160] by (auto simp: INITIAL_OFFSET_def usize_limit_def)
  then show ?thesis
    by (intro exI [of _ "storage_new io"]) (auto simp: storage_new_def mem_io_new_def checked_div_def)
qed

lemma demo_store:
  "\<exists>st :: mem_io storage. mem_holds 80 plain_serde plain_enc (storage_io st) [[demo_record 1], [demo_record 2]] \<and>
    max_index (storage_io st) = 2"
proof -
  obtain st0 :: "mem_io storage" where st0: "mem_holds 80 plain_serde plain_enc (storage_io st0) []" "max_index (storage_io st0) = 2"
    using demo_empty_store by blast
  obtain io1 where "mem_holds 80 plain_serde plain_enc io1 [[demo_record 1]]" "max_index io1 = 2"
    using first_record_fits [OF st0(1), of "demo_record 1"] st0(2) demo_record_length [of 1] by auto
  then have st1: "mem_holds 80 plain_serde plain_enc (storage_io (storage_new io1)) [[demo_record 1]]"
    "max_index (storage_io (storage_new io1)) = 2" by (simp_all add: storage_new_def)
  obtain io2 where "mem_holds 80 plain_serde plain_enc io2 [[demo_record 1], [demo_record 2]]" "max_index io2 = 2"
    using first_record_fits [OF st1(1), of "demo_record 2"] st1(2) demo_record_length [of 2] by auto
  then show ?thesis by (intro exI [of _ "storage_new io2"]) (simp add: storage_new_def)
qed

theorem append_commits_witness:
  "\<exists>st w w' io'. mem_holds 80 plain_serde plain_enc (storage_io st) [] \<and>
    get_writer (mem_io_trait 80 plain_serde) st = Ok w \<and>
    write_record (mem_io_trait 80 plain_serde) w 1 1 1 (NodeId (Id 3)) [1, 7] = (Ok (), w') \<and>
    commit (mem_io_trait 80 plain_serde) w' = (Ok (), io') \<and>
    mem_holds 80 plain_serde plain_enc io' [[demo_record 1]]"
proof -
  obtain st :: "mem_io storage" where st: "mem_holds 80 plain_serde plain_enc (storage_io st) []" "max_index (storage_io st) = 2"
    using demo_empty_store by blast
  have "length ([] :: stored list list) < max_index (storage_io st)"
    "INITIAL_OFFSET + 4 + length (plain_enc (demo_record 1)) \<le> 80"
    using st(2) by (simp_all add: demo_record_length INITIAL_OFFSET_def)
  from append_commits [OF st(1) this] st(1) show ?thesis by (auto simp: demo_record_def)
qed

text \<open>\<open>read_many T S st n c\<close> reads up to \<open>n\<close> records, as the client's loops over a cursor do.\<close>

fun read_many ::
  "'i io_trait \<Rightarrow> stored serde \<Rightarrow> 'i storage \<Rightarrow> nat \<Rightarrow> cursor \<Rightarrow> (u8 list list \<times> cursor, storage_error) result" where
  "read_many T S st 0 c = Ok ([], c)"
| "read_many T S st (Suc n) c =
     bind_ok (storage_read T S st c) (\<lambda>r.
     case r of
       None \<Rightarrow> Ok ([], c)
     | Some (d, c) \<Rightarrow> bind_ok (read_many T S st n c) (\<lambda>(ds, c). Ok (d # ds, c)))"

lemma read_many_stands:
  assumes "mem_holds SLAB S enc (storage_io st) rss" "[] \<notin> set rss"
  shows "stands enc rss c rem \<Longrightarrow>
    \<exists>c'. read_many (mem_io_trait SLAB S) S st n c = Ok (map rec_data (take n rem), c') \<and>
      stands enc rss c' (drop n rem)"
proof (induction n arbitrary: c rem)
  case 0
  then show ?case by simp
next
  case (Suc n)
  from mem_source.read_spec [OF assms(1) Suc.prems assms(2)] show ?case
  proof (cases rem)
    case Nil
    then show ?thesis
      using mem_source.read_spec [OF assms(1) Suc.prems assms(2)] Suc.prems by simp
  next
    case (Cons r rs)
    then obtain c1 where c1: "storage_read (mem_io_trait SLAB S) S st c = Ok (Some (rec_data r, c1))"
        "stands enc rss c1 rs"
      using mem_source.read_spec [OF assms(1) Suc.prems assms(2)] by auto
    from Suc.IH [OF c1(2)] show ?thesis by (auto simp: Cons c1(1))
  qed
qed

lemma search_then_read:
  assumes h: "mem_holds SLAB S enc (storage_io st) rss" and ne: "[] \<notin> set rss"
    and len: "length (concat rss) \<le> n"
  shows "case bind_ok (io_get_head (mem_io_trait SLAB S) (storage_io st))
        (scan_slabs (mem_io_trait SLAB S) S P (storage_io st)) of
      Ok None \<Rightarrow> \<forall>r\<in>set (concat rss). \<not> P r
    | Ok (Some c) \<Rightarrow> (\<exists>r\<in>set (concat rss). P r) \<and>
        (\<exists>c'. read_many (mem_io_trait SLAB S) S st n c =
            Ok (map rec_data (dropWhile (\<lambda>r. \<not> P r) (concat rss)), c') \<and>
          storage_read (mem_io_trait SLAB S) S st c' = Ok None)
    | _ \<Rightarrow> False"
proof -
  let ?rem = "dropWhile (\<lambda>r. \<not> P r) (concat rss)"
  let ?search = "bind_ok (io_get_head (mem_io_trait SLAB S) (storage_io st))
        (scan_slabs (mem_io_trait SLAB S) S P (storage_io st))"
  have len': "length ?rem \<le> n" using length_dropWhile_le [of _ "concat rss"] len by (rule order.trans)
  have empty: "?rem = [] \<longleftrightarrow> (\<forall>r\<in>set (concat rss). \<not> P r)" by auto
  consider (none) "?search = Ok None" "?rem = []"
    | (cursor) c where "?search = Ok (Some c)" "stands enc rss c ?rem" "?rem \<noteq> []"
    using mem_source.search_spec [OF h, of P] by (auto split: result.splits option.splits)
  then show ?thesis
  proof cases
    case none
    then show ?thesis using empty by simp
  next
    case cursor
    then obtain c' where c': "read_many (mem_io_trait SLAB S) S st n c = Ok (map rec_data (take n ?rem), c')"
        "stands enc rss c' (drop n ?rem)"
      using read_many_stands [OF h ne] by blast
    have "stands enc rss c' []" "take n ?rem = ?rem" using c'(2) len' by simp_all
    then have "storage_read (mem_io_trait SLAB S) S st c' = Ok None"
      using mem_source.read_spec [OF h _ ne] by fastforce
    moreover have "\<exists>r\<in>set (concat rss). P r" using cursor(3) empty by blast
    ultimately show ?thesis using cursor(1) c'(1) \<open>take n ?rem = ?rem\<close> by auto
  qed
qed

text \<open>
  C16. What a store serves to a reader that asks for everything from a sequence on: the search never
  fails; it finds nothing exactly when no record has a sequence that large; and otherwise reading from
  the cursor gives, in the order they were written and across the slabs, the data of the first such
  record and of every record behind it, and then the end.
\<close>

theorem read_from_sequence:
  assumes "mem_holds SLAB S enc (storage_io st) rss" and "[] \<notin> set rss"
    and "length (concat rss) \<le> n"
  shows "case get_cursor_from_sequence (mem_io_trait SLAB S) S st sequence of
      Ok None \<Rightarrow> \<forall>r\<in>set (concat rss). rec_max_sequence r < sequence
    | Ok (Some c) \<Rightarrow> (\<exists>r\<in>set (concat rss). sequence \<le> rec_max_sequence r) \<and>
        (\<exists>c'. read_many (mem_io_trait SLAB S) S st n c =
            Ok (map rec_data (dropWhile (\<lambda>r. rec_max_sequence r < sequence) (concat rss)), c') \<and>
          storage_read (mem_io_trait SLAB S) S st c' = Ok None)
    | _ \<Rightarrow> False"
  using search_then_read [OF assms, of "\<lambda>r. sequence \<le> rec_max_sequence r"]
  unfolding get_cursor_from_sequence_def not_le .

text \<open>
  The same for a reader that asks for the messages from an index on: the search goes by the count
  of messages that each record carries.
\<close>

theorem read_from_index:
  assumes "mem_holds SLAB S enc (storage_io st) rss" and "[] \<notin> set rss"
    and "length (concat rss) \<le> n"
  shows "case get_cursor_from_index (mem_io_trait SLAB S) S st index of
      Ok None \<Rightarrow> \<forall>r\<in>set (concat rss). rec_message_count r < index
    | Ok (Some c) \<Rightarrow> (\<exists>r\<in>set (concat rss). index \<le> rec_message_count r) \<and>
        (\<exists>c'. read_many (mem_io_trait SLAB S) S st n c =
            Ok (map rec_data (dropWhile (\<lambda>r. rec_message_count r < index) (concat rss)), c') \<and>
          storage_read (mem_io_trait SLAB S) S st c' = Ok None)
    | _ \<Rightarrow> False"
  using search_then_read [OF assms, of "\<lambda>r. index \<le> rec_message_count r"]
  unfolding get_cursor_from_index_def not_le .

theorem read_from_index_witness:
  "\<exists>(st :: mem_io storage) c c'. mem_holds 80 plain_serde plain_enc (storage_io st) [[demo_record 1], [demo_record 2]] \<and>
    get_cursor_from_index (mem_io_trait 80 plain_serde) plain_serde st 0 = Ok (Some c) \<and>
    read_many (mem_io_trait 80 plain_serde) plain_serde st 5 c = Ok ([[1, 7], [2, 7]], c')"
proof -
  obtain st :: "mem_io storage"
    where st: "mem_holds 80 plain_serde plain_enc (storage_io st) [[demo_record 1], [demo_record 2]]"
    using demo_store by blast
  have "[] \<notin> set [[demo_record 1], [demo_record 2]]" "length (concat [[demo_record 1], [demo_record 2]]) \<le> 5"
    by simp_all
  from read_from_index [OF st this, of 0] st show ?thesis
    by (auto simp: demo_record_def split: result.splits option.splits)
qed

theorem read_from_sequence_witness:
  "\<exists>(st :: mem_io storage) c c'. mem_holds 80 plain_serde plain_enc (storage_io st) [[demo_record 1], [demo_record 2]] \<and>
    get_cursor_from_sequence (mem_io_trait 80 plain_serde) plain_serde st 2 = Ok (Some c) \<and>
    read_many (mem_io_trait 80 plain_serde) plain_serde st 5 c = Ok ([[2, 7]], c')"
proof -
  obtain st :: "mem_io storage"
    where st: "mem_holds 80 plain_serde plain_enc (storage_io st) [[demo_record 1], [demo_record 2]]"
    using demo_store by blast
  have "[] \<notin> set [[demo_record 1], [demo_record 2]]" "length (concat [[demo_record 1], [demo_record 2]]) \<le> 5"
    by simp_all
  from read_from_sequence [OF st this, of 2] st show ?thesis
    by (auto simp: demo_record_def split: result.splits option.splits)
qed

text \<open>
  C29. A writer keeps the records of its slab in the order of their largest sequence. If all writes of
  a list of records succeed and the writer is committed, the list was in that order and the store
  holds it as one more slab, behind the slabs it held before.
\<close>

theorem slab_in_order:
  assumes "mem_holds SLAB S enc (storage_io st) rss" and "get_writer (mem_io_trait SLAB S) st = Ok w"
    and "write_all (mem_io_trait SLAB S) w rs = (Ok (), w')" and "rs \<noteq> []"
    and "commit (mem_io_trait SLAB S) w' = (Ok (), io')"
  shows "sorted_wrt (\<le>) (map rec_max_sequence rs) \<and> mem_holds SLAB S enc io' (rss @ [rs])"
  using mem.commit_all [OF assms(1,2,4,3,5)] by simp

theorem slab_in_order_witness:
  "\<exists>w w' io'. write_all (mem_io_trait 80 plain_serde) w [demo_record 4] = (Ok (), w') \<and>
    commit (mem_io_trait 80 plain_serde) w' = (Ok (), io') \<and>
    mem_holds 80 plain_serde plain_enc io' [[demo_record 4]]"
proof -
  obtain st :: "mem_io storage"
    where st: "mem_holds 80 plain_serde plain_enc (storage_io st) []" "max_index (storage_io st) = 2"
    using demo_empty_store by blast
  obtain w w' io' where "get_writer (mem_io_trait 80 plain_serde) st = Ok w"
      "write_all (mem_io_trait 80 plain_serde) w [demo_record 4] = (Ok (), w')"
      "commit (mem_io_trait 80 plain_serde) w' = (Ok (), io')"
    using first_record_fits [OF st(1), of "demo_record 4"] st(2) by (auto simp: demo_record_length)
  moreover from slab_in_order [OF st(1) this(1,2) _ this(3)]
  have "mem_holds 80 plain_serde plain_enc io' [[demo_record 4]]" by simp
  ultimately show ?thesis by blast
qed

text \<open>
  A record that does not fit the slab is refused with \<open>SlabFull\<close>, and nothing of what the
  store holds is lost: the device behind the failed writer holds the same records as before.
\<close>

theorem record_too_large:
  assumes "mem_holds SLAB S enc (storage_io st) rss" and "length rss < max_index (storage_io st)"
    and "INITIAL_OFFSET + 4 \<le> SLAB" and "SLAB < INITIAL_OFFSET + 4 + length (enc r)"
  shows "\<exists>w w'. get_writer (mem_io_trait SLAB S) st = Ok w \<and>
    write_record (mem_io_trait SLAB S) w (rec_max_sequence r) (rec_message_count r) (rec_sequence r)
      (rec_sender r) (rec_data r) = (Err SlabFull, w') \<and> mem_holds SLAB S enc (w_io w') rss"
proof -
  let ?T = "mem_io_trait SLAB S" and ?io = "storage_io st" and ?b = "length rss * SLAB"
  note reg = mem_free_region [OF assms(1,2)]
  obtain w where w: "get_writer ?T st = Ok w" "w_slab_max_sequence w = 0" "w_io w = ?io"
      "w_offset w = ?b + INITIAL_OFFSET" "w_end w = ?b + SLAB"
    using mem_get_writer [OF assms(1) reg(2)] by simp
  have "serde_ok S enc" "length (mem_data ?io) < usize_limit" using assms(1) by (auto simp: mem_holds_def)
  then obtain buf where "mem_write_record S ?io (w_offset w) (w_end w) r
      = (Err SlabFull, ?io\<lparr>mem_data := overwrite (mem_data ?io) (w_offset w + 4) buf\<rparr>)"
    by (rule mem_write_full) (use assms(3,4) reg w in auto)
  then have err: "write_record ?T w (rec_max_sequence r) (rec_message_count r) (rec_sequence r)
      (rec_sender r) (rec_data r)
      = (Err SlabFull, w\<lparr>w_io := ?io\<lparr>mem_data := overwrite (mem_data ?io) (w_offset w + 4) buf\<rparr>\<rparr>)"
    using write_record_mem [where w = w and r = r and S = S and SLAB = SLAB] w by simp
  from mem.failed_write [OF assms(1) w(1) err] w(1) err show ?thesis by blast
qed

theorem record_too_large_witness:
  "\<exists>(st :: mem_io storage) w w'. get_writer (mem_io_trait 20 plain_serde) st = Ok w \<and>
    write_record (mem_io_trait 20 plain_serde) w 1 1 1 (NodeId (Id 3)) [1, 7] = (Err SlabFull, w') \<and>
    mem_holds 20 plain_serde plain_enc (w_io w') []"
proof -
  obtain io where io: "mem_io_new 20 (replicate 160 0) = Ok io" "mem_holds 20 plain_serde plain_enc io []"
    using mem_io_new_holds [OF plain_serde_ok, of 20 160] by (auto simp: INITIAL_OFFSET_def usize_limit_def)
  then have "mem_holds 20 plain_serde plain_enc (storage_io (storage_new io)) []"
    "length ([] :: stored list list) < max_index (storage_io (storage_new io))"
    by (auto simp: storage_new_def mem_io_new_def checked_div_def)
  from record_too_large [OF this, of "demo_record 1"]
  have "\<exists>w w'. get_writer (mem_io_trait 20 plain_serde) (storage_new io) = Ok w \<and>
    write_record (mem_io_trait 20 plain_serde) w 1 1 1 (NodeId (Id 3)) [1, 7] = (Err SlabFull, w') \<and>
    mem_holds 20 plain_serde plain_enc (w_io w') []"
    by (simp add: INITIAL_OFFSET_def length_plain_enc) (simp add: demo_record_def)
  then show ?thesis by blast
qed

lemma mem_full_write:
  assumes "mem_holds SLAB S enc (storage_io st) rss" "length rss = max_index (storage_io st)"
    and "length rss * SLAB + SLAB + 4 < usize_limit"
  obtains w where "get_writer (mem_io_trait SLAB S) st = Ok w"
    "\<And>max_sequence message_count sequence sender data.
      fst (write_record (mem_io_trait SLAB S) w max_sequence message_count sequence sender data) = Panic"
proof -
  let ?T = "mem_io_trait SLAB S" and ?io = "storage_io st" and ?b = "length rss * SLAB"
  have lim: "?b + SLAB < usize_limit" using assms(3) by simp
  obtain w where w: "get_writer ?T st = Ok w" "w_slab_max_sequence w = 0" "w_io w = ?io"
      "w_offset w = ?b + INITIAL_OFFSET" "w_end w = ?b + SLAB"
    using mem_get_writer [OF assms(1) lim] by simp
  have "INITIAL_OFFSET < SLAB" using assms(1) by (simp add: mem_holds_def)
  then have "mem_write_record S ?io (w_offset w) (w_end w) r = (Panic, ?io)" for r
    using mem_full_region [OF assms(1,2)] assms(3) w by (intro mem_write_outside) auto
  then show thesis
    using w by (intro that [of w]) (simp_all add: write_record_def mem_io_trait_def)
qed

text \<open>
  C38. A memory store whose slabs are all in use does not report that it is full: opening a writer
  succeeds, as long as the addresses behind the buffer are still numbers, and the first write of a
  record panics, because it takes a slice of the buffer that is out of range.
\<close>

theorem full_store_panics:
  assumes "mem_holds SLAB S enc (storage_io st) rss" and "length rss = max_index (storage_io st)"
    and "length rss * SLAB + SLAB + 4 < usize_limit"
  shows "\<exists>w w'. get_writer (mem_io_trait SLAB S) st = Ok w \<and>
    write_record (mem_io_trait SLAB S) w max_sequence message_count sequence sender data = (Panic, w')"
  by (rule mem_full_write [OF assms]) (metis prod.collapse)

theorem full_store_panics_witness:
  "\<exists>(st :: mem_io storage) w w'. mem_holds 80 plain_serde plain_enc (storage_io st) [[demo_record 1], [demo_record 2]] \<and>
    get_writer (mem_io_trait 80 plain_serde) st = Ok w \<and>
    write_record (mem_io_trait 80 plain_serde) w 3 3 3 (NodeId (Id 3)) [] = (Panic, w')"
proof -
  obtain st :: "mem_io storage"
    where st: "mem_holds 80 plain_serde plain_enc (storage_io st) [[demo_record 1], [demo_record 2]]"
      "max_index (storage_io st) = 2"
    using demo_store by blast
  have "length [[demo_record 1], [demo_record 2]] = max_index (storage_io st)"
    "length [[demo_record 1], [demo_record 2]] * 80 + 80 + 4 < usize_limit"
    by (simp_all add: st(2) usize_limit_def)
  from full_store_panics [OF st(1) this, of 3 3 3 "NodeId (Id 3)" "[]"] st(1) show ?thesis by blast
qed

end
