(* ===== verification/Client_Sync.thy ===== *)
theory Client_Sync
  imports Client Mem_Store
begin

text \<open>
  The synchronisation methods of the client in \<^verbatim>\<open>protocol/src/lib.rs\<close>: the request with the
  requester's vector clock, the merge of two vector clocks on the responder, and the buffer of
  envelopes that the responder fills and the requester reads.
\<close>

subsection \<open>The request\<close>

fun push_clocks :: "nat \<Rightarrow> 'p node_sequence list \<Rightarrow> sync_clock list \<Rightarrow> (unit, client_error) result \<times> sync_clock list" where
  "push_clocks MAX_NODES [] vec = (Ok (), vec)"
| "push_clocks MAX_NODES (node # ns) vec =
     (let clk = sync_clock_new (ns_node node) (ns_sequence node) in
      or_return (ok_or (vec_push MAX_NODES vec clk) Client_Unreachable) vec (\<lambda>vec. push_clocks MAX_NODES ns vec))"

definition finish_sync_request ::
  "('c, 's, 'p, 'i) deps \<Rightarrow> ('c, 's, 'p, 'i) client \<Rightarrow> channel_id \<Rightarrow> sync_request \<Rightarrow>
     (unit, client_error) result \<times> sync_request" where
  "finish_sync_request D self cid request =
     or_return (find_channel self cid) request (\<lambda>channel.
     let known = list_nodes (ch_state channel);
         (pushed, vec) = push_clocks (d_max_nodes D) known [] in
     (pushed, request\<lparr>req_vector_clock := vec\<rparr>))"

text \<open>The request holds the clock of every node of the channel, whenever the channel is known.\<close>

abbreviation own_clocks :: "'p node_sequence list \<Rightarrow> sync_clock list" where
  "own_clocks \<equiv> map (\<lambda>n. sync_clock_new (ns_node n) (ns_sequence n))"

lemma push_clocks_fit:
  "length vec + length ns \<le> M \<Longrightarrow> push_clocks M ns vec = (Ok (), vec @ own_clocks ns)"
  by (induction ns arbitrary: vec) (simp_all add: vec_push_def)

lemma push_clocks_length: "length vec \<le> M \<Longrightarrow> length (snd (push_clocks M ns vec)) \<le> M"
  by (induction ns arbitrary: vec) (simp_all add: vec_push_def)

lemma push_clocks_not_Panic: "fst (push_clocks M ns vec) \<noteq> Panic"
  by (induction ns arbitrary: vec) (simp_all add: vec_push_def)

lemma finish_sync_request_unknown:
  "map_of (cl_channels self) cid = None \<Longrightarrow> finish_sync_request D self cid request = (Err UnknownChannel, request)"
  by (simp add: finish_sync_request_def find_channel_def)

lemma finish_sync_request_push:
  "map_of (cl_channels self) cid = Some ch \<Longrightarrow>
    finish_sync_request D self cid request =
      map_prod (\<lambda>r. r) (\<lambda>vec. request\<lparr>req_vector_clock := vec\<rparr>)
        (push_clocks (d_max_nodes D) (list_nodes (ch_state ch)) [])"
  by (simp add: finish_sync_request_def find_channel_def Let_def map_prod_def)

lemma finish_sync_request_known:
  "map_of (cl_channels self) cid = Some ch \<Longrightarrow> length (list_nodes (ch_state ch)) \<le> d_max_nodes D \<Longrightarrow>
    finish_sync_request D self cid request
      = (Ok (), request\<lparr>req_vector_clock := own_clocks (list_nodes (ch_state ch))\<rparr>)"
  by (simp add: finish_sync_request_push push_clocks_fit)

lemma finish_sync_request_not_Panic: "fst (finish_sync_request D self cid request) \<noteq> Panic"
  by (cases "map_of (cl_channels self) cid")
    (simp_all add: finish_sync_request_unknown finish_sync_request_push push_clocks_not_Panic)

lemma finish_sync_request_bounded:
  "req_vector_clock request = [] \<Longrightarrow>
    length (req_vector_clock (snd (finish_sync_request D self cid request))) \<le> d_max_nodes D"
  by (cases "map_of (cl_channels self) cid")
    (simp_all add: finish_sync_request_unknown finish_sync_request_push push_clocks_length)

subsection \<open>The response\<close>

text \<open>
  \<open>merge_requested\<close> is the inner loop: it takes the request's clocks up to the node, and says whether
  the node itself was among them (the \<^verbatim>\<open>continue\<close> of the outer loop). \<open>merge_nodes\<close> is the outer
  loop and \<open>push_rest\<close> the last one. The index into the request is the code's.
\<close>

function merge_requested ::
  "nat \<Rightarrow> sync_clock list \<Rightarrow> node_id \<Rightarrow> nat \<Rightarrow> sync_clock list \<Rightarrow>
     (bool \<times> nat, client_error) result \<times> sync_clock list" where
  "merge_requested MAX_NODES request my_node request_index vec =
     (case slice_get request request_index of
        None \<Rightarrow> (Ok (False, request_index), vec)
      | Some request_node \<Rightarrow>
          if clk_node request_node = my_node then
            or_return (ok_or (vec_push MAX_NODES vec
                (sync_clock_new (clk_node request_node) (clk_sequence request_node))) Client_Unreachable) vec
              (\<lambda>vec. (Ok (True, request_index + 1), vec))
          else if clk_node request_node < my_node then
            (case vec_push MAX_NODES vec (sync_clock_new (clk_node request_node) (clk_sequence request_node)) of
               None \<Rightarrow> (Err Client_Unreachable, vec)
             | Some vec \<Rightarrow> merge_requested MAX_NODES request my_node (request_index + 1) vec)
          else (Ok (False, request_index), vec))"
  by pat_completeness auto
termination
  by (relation "measure (\<lambda>(MAX_NODES, request, my_node, request_index, vec). length request - request_index)")
    (auto simp: slice_simps)

declare merge_requested.simps [simp del]

fun merge_nodes ::
  "nat \<Rightarrow> 'p node_sequence list \<Rightarrow> sync_clock list \<Rightarrow> nat \<Rightarrow> sync_clock list \<Rightarrow>
     (nat, client_error) result \<times> sync_clock list" where
  "merge_nodes MAX_NODES [] request request_index vec = (Ok request_index, vec)"
| "merge_nodes MAX_NODES (my_node # my_nodes) request request_index vec =
     (let (merged, vec) = merge_requested MAX_NODES request (ns_node my_node) request_index vec in
      or_return merged vec (\<lambda>(continued, request_index).
      if continued then merge_nodes MAX_NODES my_nodes request request_index vec
      else
        or_return (ok_or (vec_push MAX_NODES vec (sync_clock_new (ns_node my_node) (first_sequence my_node)))
            Client_Unreachable) vec
          (\<lambda>vec. merge_nodes MAX_NODES my_nodes request request_index vec)))"

function push_rest ::
  "nat \<Rightarrow> sync_clock list \<Rightarrow> nat \<Rightarrow> sync_clock list \<Rightarrow> (unit, client_error) result \<times> sync_clock list" where
  "push_rest MAX_NODES request request_index vec =
     (case slice_get request request_index of
        None \<Rightarrow> (Ok (), vec)
      | Some request_node \<Rightarrow>
          (case vec_push MAX_NODES vec (sync_clock_new (clk_node request_node) (clk_sequence request_node)) of
             None \<Rightarrow> (Err Client_Unreachable, vec)
           | Some vec \<Rightarrow> push_rest MAX_NODES request (request_index + 1) vec))"
  by pat_completeness auto
termination
  by (relation "measure (\<lambda>(MAX_NODES, request, request_index, vec). length request - request_index)")
    (auto simp: slice_simps)

declare push_rest.simps [simp del]

definition start_sync_response ::
  "('c, 's, 'p, 'i) deps \<Rightarrow> ('c, 's, 'p, 'i) client \<Rightarrow> channel_id \<Rightarrow> sync_responder_state \<Rightarrow> sync_request \<Rightarrow>
     (unit, client_error) result \<times> sync_responder_state" where
  "start_sync_response D self cid state request =
     or_return (find_channel self cid) state (\<lambda>channel.
     let (merged, vec) = merge_nodes (d_max_nodes D) (list_nodes (ch_state channel)) (req_vector_clock request) 0 [] in
     or_return merged (state\<lparr>rs_vector_clock := vec\<rparr>) (\<lambda>request_index.
     let (pushed, vec) = push_rest (d_max_nodes D) (req_vector_clock request) request_index vec in
     (pushed, state\<lparr>rs_vector_clock := vec\<rparr>)))"

subsection \<open>The buffer\<close>

definition fill_one :: "u8 list \<Rightarrow> nat \<Rightarrow> u32 \<Rightarrow> u8 list \<Rightarrow> (nat \<times> u32, client_error) result \<times> u8 list" where
  "fill_one buffer offset count data =
     (let len = (of_nat (length data) :: u32);
          (wrote, buffer) = write_u32 len buffer offset in
      or_return (map_err StorageError wrote) buffer (\<lambda>offset.
      or_return (usize_add offset (length data)) buffer (\<lambda>fin.
      or_return (ok_or (range_get buffer offset fin) Client_Unreachable) buffer (\<lambda>_.
      let buffer = overwrite buffer offset data in
      or_return (usize_add offset (length data)) buffer (\<lambda>offset.
      or_return (expect (checked_add count 1)) buffer (\<lambda>count.
      (Ok (offset, count), buffer)))))))"

lemma fill_one_progress:
  assumes "fill_one buffer offset count data = (Ok (offset', count'), buffer')"
  shows "offset < offset'" "offset' \<le> length buffer" "length buffer' = length buffer"
proof -
  obtain wrote b1 where w: "write_u32 (of_nat (length data)) buffer offset = (wrote, b1)" by fastforce
  with assms obtain o1 where o1: "wrote = Ok o1"
    and rest: "o1 + length data \<le> length b1" "offset' = o1 + length data" "buffer' = overwrite b1 o1 data"
    by (auto simp: fill_one_def Let_def result_simps slice_simps)
  have "o1 = offset + 4" "length b1 = length buffer"
    using w o1 by (auto simp: write_u32_def write_arr_def result_simps slice_simps)
  then show "offset < offset'" "offset' \<le> length buffer" "length buffer' = length buffer"
    using rest by simp_all
qed

function fill_loop ::
  "('c, 's, 'p, 'i) deps \<Rightarrow> 'i storage \<Rightarrow> cursor \<Rightarrow> u8 list \<Rightarrow> nat \<Rightarrow> u32 \<Rightarrow>
     (u32 \<times> nat, client_error) result \<times> u8 list" where
  "fill_loop D storage cursor buffer offset count =
     (case storage_read (d_io D) (d_records D) storage cursor of
        Err e \<Rightarrow> (Err (StorageError e), buffer)
      | Panic \<Rightarrow> (Panic, buffer)
      | Ok None \<Rightarrow> (Ok (count, offset), buffer)
      | Ok (Some (data, nxt)) \<Rightarrow>
          or_return (usize_sub (length buffer) offset) buffer (\<lambda>room.
          or_return (usize_add (length data) LEN_SIZE) buffer (\<lambda>need.
          if room < need then (Ok (count, offset), buffer)
          else
            (case fill_one buffer offset count data of
               (Err e, buffer) \<Rightarrow> (Err e, buffer)
             | (Panic, buffer) \<Rightarrow> (Panic, buffer)
             | (Ok (offset, count), buffer) \<Rightarrow> fill_loop D storage nxt buffer offset count))))"
  by pat_completeness auto
termination
proof (relation "measure (\<lambda>(D, storage, cursor, buffer, offset, count). length buffer - offset)", goal_cases)
  case (2 D storage cursor buffer offset count x p data nxt room need q buffer' y offset' count')
  then have "fill_one buffer offset count data = (Ok (offset', count'), buffer')" by simp
  from fill_one_progress [OF this] show ?case by simp
qed simp

declare fill_loop.simps [simp del]

definition fill_send_buffer ::
  "('c, 's, 'p, 'i) deps \<Rightarrow> ('c, 's, 'p, 'i) client \<Rightarrow> channel_id \<Rightarrow> sync_responder_state \<Rightarrow> u8 list \<Rightarrow>
     (u32 \<times> nat, client_error) result \<times> u8 list" where
  "fill_send_buffer D self cid state buffer =
     or_return (find_channel self cid) buffer (\<lambda>channel.
     or_return (ok_or (get_min_sequence state) Client_Unreachable) buffer (\<lambda>start.
     or_return (map_err StorageError
         (get_cursor_from_sequence (d_io D) (d_records D) (ch_storage channel) start)) buffer (\<lambda>found.
     or_return (ok_or found Client_Unreachable) buffer (\<lambda>cursor.
     fill_loop D (ch_storage channel) cursor buffer 0 0))))"

subsection \<open>The merge as a function on lists\<close>

fun merge_clocks :: "'p node_sequence list \<Rightarrow> sync_clock list \<Rightarrow> sync_clock list" where
  "merge_clocks [] req = req"
| "merge_clocks (n # ns) [] = \<lparr>clk_node = ns_node n, clk_sequence = first_sequence n\<rparr> # merge_clocks ns []"
| "merge_clocks (n # ns) (r # rs) =
     (if clk_node r = ns_node n then r # merge_clocks ns rs
      else if clk_node r < ns_node n then r # merge_clocks (n # ns) rs
      else \<lparr>clk_node = ns_node n, clk_sequence = first_sequence n\<rparr> # merge_clocks ns (r # rs))"

text \<open>Pushing a list to a vector of a capacity: what fits is pushed, and the first refusal ends it.\<close>

definition push_all :: "nat \<Rightarrow> 'a list \<Rightarrow> 'a list \<Rightarrow> (unit, client_error) result \<times> 'a list" where
  "push_all cap vec xs =
     (if length (vec @ xs) \<le> cap then (Ok (), vec @ xs) else (Err Client_Unreachable, take cap (vec @ xs)))"

lemma push_all_Nil [simp]: "length vec \<le> cap \<Longrightarrow> push_all cap vec [] = (Ok (), vec)"
  by (simp add: push_all_def)

lemma push_all_Cons:
  assumes "length vec \<le> cap"
  shows "push_all cap vec (x # xs) =
    (if length vec < cap then push_all cap (vec @ [x]) xs else (Err Client_Unreachable, vec))"
  using assms by (auto simp: push_all_def)

definition merge_run ::
  "nat \<Rightarrow> 'p node_sequence list \<Rightarrow> sync_clock list \<Rightarrow> nat \<Rightarrow> sync_clock list \<Rightarrow>
     (unit, client_error) result \<times> sync_clock list" where
  "merge_run M ns req i vec =
     (let (merged, vec) = merge_nodes M ns req i vec in or_return merged vec (\<lambda>i. push_rest M req i vec))"

lemma sync_clock_new_eta [simp]: "sync_clock_new (clk_node r) (clk_sequence r) = (r :: sync_clock)"
  by (simp add: sync_clock_new_def)

lemma vec_push_in: "length vec < cap \<Longrightarrow> vec_push cap vec x = Some (vec @ [x])"
  "cap \<le> length vec \<Longrightarrow> vec_push cap vec x = None"
  by (simp_all add: vec_push_def)

lemma push_rest_all:
  "length vec \<le> M \<Longrightarrow> push_rest M req i vec = push_all M vec (drop i req)"
proof (induction "length req - i" arbitrary: i vec)
  case 0
  then show ?case by (subst push_rest.simps) (simp add: slice_get_def)
next
  case (Suc d)
  then have i: "i < length req" "d = length req - Suc i" by simp_all
  then have split: "drop i req = req ! i # drop (Suc i) req" by (simp add: Cons_nth_drop_Suc)
  show ?case
    using Suc.hyps(1) [OF i(2), of "vec @ [req ! i]"] Suc.prems i
    by (subst push_rest.simps) (simp add: slice_get_def vec_push_def split push_all_Cons)
qed

lemma merge_run_Nil: "merge_run M [] req i vec = push_rest M req i vec"
  by (simp add: merge_run_def)

lemma merge_requested_equal:
  "i < length req \<Longrightarrow> merge_requested M req (clk_node (req ! i)) i vec =
    (if length vec < M then (Ok (True, Suc i), vec @ [req ! i]) else (Err Client_Unreachable, vec))"
  by (subst merge_requested.simps) (simp add: slice_get_def vec_push_def)

lemma merge_requested_below:
  "i < length req \<Longrightarrow> clk_node (req ! i) < n \<Longrightarrow> merge_requested M req n i vec =
    (if length vec < M then merge_requested M req n (Suc i) (vec @ [req ! i])
     else (Err Client_Unreachable, vec))"
  by (subst merge_requested.simps) (auto simp: slice_get_def vec_push_def)

lemma merge_requested_stop:
  "(i < length req \<Longrightarrow> n < clk_node (req ! i)) \<Longrightarrow> merge_requested M req n i vec = (Ok (False, i), vec)"
  by (subst merge_requested.simps) (auto simp: slice_get_def)

lemma merge_run_equal:
  assumes "i < length req" "clk_node (req ! i) = ns_node n"
  shows "merge_run M (n # ns) req i vec =
    (if length vec < M then merge_run M ns req (Suc i) (vec @ [req ! i]) else (Err Client_Unreachable, vec))"
  using merge_requested_equal [OF assms(1), of M vec] by (simp add: merge_run_def assms(2))

lemma merge_run_below:
  assumes "i < length req" "clk_node (req ! i) < ns_node n"
  shows "merge_run M (n # ns) req i vec =
    (if length vec < M then merge_run M (n # ns) req (Suc i) (vec @ [req ! i])
     else (Err Client_Unreachable, vec))"
  using merge_requested_below [OF assms, of M vec] by (simp add: merge_run_def)

lemma merge_run_fresh:
  assumes "i < length req \<Longrightarrow> ns_node n < clk_node (req ! i)"
  shows "merge_run M (n # ns) req i vec =
    (if length vec < M then
       merge_run M ns req i (vec @ [\<lparr>clk_node = ns_node n, clk_sequence = first_sequence n\<rparr>])
     else (Err Client_Unreachable, vec))"
  using merge_requested_stop [OF assms, of M vec]
  by (simp add: merge_run_def vec_push_def sync_clock_new_def)

lemma merge_run_merges:
  "length vec \<le> M \<Longrightarrow> merge_run M ns req i vec = push_all M vec (merge_clocks ns (drop i req))"
proof (induction ns "drop i req" arbitrary: i vec rule: merge_clocks.induct)
  case 1
  then show ?case by (simp add: merge_run_Nil push_rest_all)
next
  case (2 n ns)
  have nil: "drop i req = []" using "2.hyps"(2) by simp
  then have end_i: "\<not> i < length req" by simp
  have "merge_run M ns req i (vec @ [x]) = push_all M (vec @ [x]) (merge_clocks ns [])" if "length vec < M" for x
    using "2.hyps"(1) [of i "vec @ [x]"] that nil by simp
  then show ?case
    using "2.prems" end_i by (subst merge_run_fresh) (simp_all add: nil push_all_Cons)
next
  case (3 n ns r rs)
  have i: "i < length req" using "3.hyps"(4) by (metis drop_eq_Nil list.distinct(1) not_le)
  then have r: "req ! i = r" "rs = drop (Suc i) req"
    using "3.hyps"(4) by (metis Cons_nth_drop_Suc list.inject)+
  note eq = "3.hyps"(4) [symmetric]
  show ?case
  proof (cases "clk_node r" "ns_node n" rule: linorder_cases)
    case less
    then have "merge_run M (n # ns) req (Suc i) (vec @ [r]) = push_all M (vec @ [r]) (merge_clocks (n # ns) rs)"
      if "length vec < M" using "3.hyps"(2) [of "Suc i" "vec @ [r]"] r that by simp
    then show ?thesis
      using less less_imp_neq [OF less] "3.prems" i r(1) by (simp add: eq merge_run_below push_all_Cons)
  next
    case equal
    then have "merge_run M ns req (Suc i) (vec @ [r]) = push_all M (vec @ [r]) (merge_clocks ns rs)"
      if "length vec < M" using "3.hyps"(1) [of "Suc i" "vec @ [r]"] r that by simp
    then show ?thesis
      using equal "3.prems" i r(1) by (simp add: eq merge_run_equal push_all_Cons)
  next
    case greater
    then have "merge_run M ns req i (vec @ [x]) = push_all M (vec @ [x]) (merge_clocks ns (r # rs))"
      if "length vec < M" for x using "3.hyps"(3) [of i "vec @ [x]"] that eq by simp
    then show ?thesis
      using greater less_imp_neq [OF greater] less_not_sym [OF greater] "3.prems" i r(1)
      by (simp add: eq merge_run_fresh push_all_Cons)
  qed
qed

text \<open>What the merge of two sorted lists holds.\<close>

definition fresh_clock :: "'p node_sequence \<Rightarrow> sync_clock" where
  "fresh_clock n = \<lparr>clk_node = ns_node n, clk_sequence = first_sequence n\<rparr>"

definition not_requested :: "'p node_sequence list \<Rightarrow> sync_clock list \<Rightarrow> 'p node_sequence set" where
  "not_requested ns req = {n \<in> set ns. ns_node n \<notin> clk_node ` set req}"

lemma clk_node_fresh [simp]: "clk_node (fresh_clock n) = ns_node n"
  by (simp add: fresh_clock_def)

lemma set_merge_clocks:
  assumes "keys_sorted ns_node ns" "keys_sorted clk_node req"
  shows "set (merge_clocks ns req) = set req \<union> fresh_clock ` not_requested ns req"
  using assms
proof (induction ns req rule: merge_clocks.induct)
  case (1 req)
  then show ?case by (simp add: not_requested_def)
next
  case (2 n ns)
  then show ?case by (auto simp: not_requested_def fresh_clock_def)
next
  case (3 n ns r rs)
  have above: "\<forall>m\<in>set ns. ns_node n < ns_node m" "\<forall>c\<in>set rs. clk_node r < clk_node c"
    using "3.prems" by simp_all
  show ?case
  proof (cases "clk_node r" "ns_node n" rule: linorder_cases)
    case less
    then have "not_requested (n # ns) (r # rs) = not_requested (n # ns) rs"
      using above(1) by (force simp: not_requested_def)
    then show ?thesis using 3 less less_imp_neq [OF less] by simp
  next
    case equal
    then have "not_requested (n # ns) (r # rs) = not_requested ns rs"
      using above(1) by (force simp: not_requested_def)
    then show ?thesis using 3 equal by simp
  next
    case greater
    then have "not_requested (n # ns) (r # rs) = insert n (not_requested ns (r # rs))"
      using above(2) by (force simp: not_requested_def)
    then show ?thesis
      using 3 greater less_imp_neq [OF greater] less_not_sym [OF greater] by (simp add: insert_commute flip: fresh_clock_def)
  qed
qed

lemma nodes_merge_clocks:
  assumes "keys_sorted ns_node ns" "keys_sorted clk_node req"
  shows "clk_node ` set (merge_clocks ns req) = ns_node ` set ns \<union> clk_node ` set req"
proof -
  have "clk_node ` set (merge_clocks ns req) = clk_node ` set req \<union> ns_node ` not_requested ns req"
    by (simp add: set_merge_clocks [OF assms] image_Un image_image)
  then show ?thesis by (auto simp: not_requested_def)
qed

lemma merge_clocks_sorted:
  assumes "keys_sorted ns_node ns" "keys_sorted clk_node req"
  shows "keys_sorted clk_node (merge_clocks ns req)"
  using assms
proof (induction ns req rule: merge_clocks.induct)
  case (2 n ns)
  then have "\<forall>k\<in>clk_node ` set (merge_clocks ns []). ns_node n < k"
    by (subst nodes_merge_clocks) auto
  with 2 show ?case by simp
next
  case (3 n ns r rs)
  have above: "\<forall>m\<in>set ns. ns_node n < ns_node m" "\<forall>c\<in>set rs. clk_node r < clk_node c"
    using "3.prems" by simp_all
  show ?case
  proof (cases "clk_node r" "ns_node n" rule: linorder_cases)
    case less
    have "\<forall>k\<in>clk_node ` set (merge_clocks (n # ns) rs). clk_node r < k"
      using "3.prems" above less by (subst nodes_merge_clocks) auto
    then show ?thesis using 3 less less_imp_neq [OF less] by simp
  next
    case equal
    have "\<forall>k\<in>clk_node ` set (merge_clocks ns rs). clk_node r < k"
      using "3.prems" above equal by (subst nodes_merge_clocks) auto
    then show ?thesis using 3 equal by simp
  next
    case greater
    have "\<forall>k\<in>clk_node ` set (merge_clocks ns (r # rs)). ns_node n < k"
      using "3.prems" above greater by (subst nodes_merge_clocks) auto
    then show ?thesis
      using 3 greater less_imp_neq [OF greater] less_not_sym [OF greater] by simp
  qed
qed simp

text \<open>
  As a map: a node the request names keeps the request's sequence, a node only the responder knows
  gets the first sequence the responder has of it.
\<close>

lemma keyed_merge_clocks:
  assumes "keys_sorted ns_node ns" "keys_sorted clk_node req"
  shows "keyed clk_node (merge_clocks ns req) k =
    (case keyed clk_node req k of
       Some c \<Rightarrow> Some c
     | None \<Rightarrow> map_option fresh_clock (keyed ns_node ns k))"
proof (cases "keyed clk_node req k")
  case (Some c)
  then have "c \<in> set req" "clk_node c = k" using keyed_Some [OF assms(2)] by auto
  then have "c \<in> set (merge_clocks ns req)" by (simp add: set_merge_clocks [OF assms])
  then show ?thesis
    using \<open>clk_node c = k\<close> keyed_Some [OF merge_clocks_sorted [OF assms]] Some by auto
next
  case None
  note absent = this
  then have k: "k \<notin> clk_node ` set req" by (simp add: keyed_None)
  show ?thesis
  proof (cases "keyed ns_node ns k")
    case None
    then have "keyed clk_node (merge_clocks ns req) k = None"
      using k by (simp add: keyed_None nodes_merge_clocks [OF assms])
    then show ?thesis using None absent by simp
  next
    case (Some n)
    then have "n \<in> set ns" "ns_node n = k" using keyed_Some [OF assms(1)] by auto
    then have "fresh_clock n \<in> set (merge_clocks ns req)"
      using k by (auto simp: set_merge_clocks [OF assms] not_requested_def)
    then have "keyed clk_node (merge_clocks ns req) k = Some (fresh_clock n)"
      using \<open>ns_node n = k\<close> keyed_Some [OF merge_clocks_sorted [OF assms]] by simp
    then show ?thesis using Some absent by simp
  qed
qed

lemma length_merge_clocks:
  assumes "keys_sorted ns_node ns" "keys_sorted clk_node req"
  shows "length (merge_clocks ns req) = card (ns_node ` set ns \<union> clk_node ` set req)"
proof -
  have "distinct (map clk_node (merge_clocks ns req))"
    using merge_clocks_sorted [OF assms] by (simp add: strict_sorted_iff)
  then show ?thesis
    using distinct_card [of "map clk_node (merge_clocks ns req)"] nodes_merge_clocks [OF assms] by simp
qed

lemma start_sync_response_merges:
  assumes "map_of (cl_channels self) cid = Some channel"
  shows "start_sync_response D self cid state request =
    (let (pushed, vec) = push_all (d_max_nodes D) []
       (merge_clocks (nodes (ch_state channel)) (req_vector_clock request))
     in (pushed, state\<lparr>rs_vector_clock := vec\<rparr>))"
proof -
  obtain merged vec where m: "merge_nodes (d_max_nodes D) (nodes (ch_state channel)) (req_vector_clock request) 0 []
      = (merged, vec)" by fastforce
  have "start_sync_response D self cid state request =
      (let (pushed, vec) = merge_run (d_max_nodes D) (nodes (ch_state channel)) (req_vector_clock request) 0 []
       in (pushed, state\<lparr>rs_vector_clock := vec\<rparr>))"
    by (cases merged)
      (simp_all add: start_sync_response_def find_channel_def assms list_nodes_def merge_run_def m case_prod_unfold)
  then show ?thesis by (simp add: merge_run_merges)
qed

subsection \<open>The buffer of envelopes\<close>

text \<open>\<open>fitting room ds\<close>: the envelopes that go into a buffer with \<open>room\<close> bytes left, each behind its length.\<close>

fun fitting :: "nat \<Rightarrow> u8 list list \<Rightarrow> u8 list list" where
  "fitting room [] = []"
| "fitting room (d # ds) =
     (if room < length d + LEN_SIZE then [] else d # fitting (room - (length d + LEN_SIZE)) ds)"

abbreviation packed :: "u8 list list \<Rightarrow> u8 list" where
  "packed ds \<equiv> frames (\<lambda>d. d) ds"

lemma length_packed_fitting: "length (packed (fitting room ds)) \<le> room"
  by (induction room ds rule: fitting.induct) (auto simp: LEN_SIZE_def)

lemma length_fitting: "length (fitting room ds) \<le> room"
  by (induction room ds rule: fitting.induct) (auto simp: LEN_SIZE_def)

lemma overwrite_append:
  assumes "a + length ys + length zs \<le> length xs"
  shows "overwrite (overwrite xs a ys) (a + length ys) zs = overwrite xs a (ys @ zs)"
  using assms by (simp add: overwrite_def ac_simps)

lemma overwrite_Nil [simp]: "overwrite xs a [] = xs"
  by (simp add: overwrite_def)

lemma fill_one_fits:
  assumes "offset + (length d + LEN_SIZE) \<le> length buffer" "length buffer < usize_limit" "unat count \<le> offset"
  shows "fill_one buffer offset count d =
    (Ok (offset + (length d + LEN_SIZE), count + 1), overwrite buffer offset (frame (\<lambda>d. d) d))"
proof -
  let ?w = "to_be_bytes (of_nat (length d) :: u32)"
  have w: "write_u32 (of_nat (length d)) buffer offset = (Ok (offset + 4), overwrite buffer offset ?w)"
    using assms by (intro write_u32_in) (simp_all add: LEN_SIZE_def)
  have "unat count + 1 < 2 ^ 32" using assms by (simp add: LEN_SIZE_def usize_limit_def)
  then have c: "checked_add count 1 = Some (count + 1)" by (simp add: checked_add_def)
  have "overwrite (overwrite buffer offset ?w) (offset + 4) d = overwrite buffer offset (frame (\<lambda>d. d) d)"
    using overwrite_append [of offset ?w d buffer] assms(1) by (simp add: frame_def LEN_SIZE_def)
  moreover have "offset + 4 + length d < usize_limit" "length (overwrite buffer offset ?w) = length buffer"
    using assms by (simp_all add: LEN_SIZE_def)
  ultimately show ?thesis
    using assms(1) by (simp add: fill_one_def w c range_get_def LEN_SIZE_def)
qed

context slab_source
begin

text \<open>The loop packs the records that fit, in order, from the place where it stands.\<close>

lemma fill_loop_packs:
  assumes D: "d_io D = T" "d_records D = S"
    and h: "holds (storage_io st) rss" and ne: "[] \<notin> set rss"
  shows "stands enc rss c rem \<Longrightarrow> \<forall>r\<in>set rem. length (rec_data r) + LEN_SIZE < usize_limit \<Longrightarrow>
    length buffer < usize_limit \<Longrightarrow> offset \<le> length buffer \<Longrightarrow> unat count \<le> offset \<Longrightarrow>
    fill_loop D st c buffer offset count =
      (let ds = fitting (length buffer - offset) (map rec_data rem) in
       (Ok (count + of_nat (length ds), offset + length (packed ds)), overwrite buffer offset (packed ds)))"
proof (induction rem arbitrary: c buffer offset count)
  case Nil
  then show ?case
    using read_spec [OF h Nil.prems(1) ne] by (subst fill_loop.simps) (simp add: D)
next
  case (Cons r rs)
  let ?d = "rec_data r"
  obtain c' where c': "storage_read T S st c = Ok (Some (?d, c'))" "stands enc rss c' rs"
    using read_spec [OF h Cons.prems(1) ne] by auto
  have small: "length ?d + LEN_SIZE < usize_limit" using Cons.prems(2) by simp
  show ?case
  proof (cases "length buffer - offset < length ?d + LEN_SIZE")
    case True
    then show ?thesis
      using Cons.prems(4) small by (subst fill_loop.simps) (simp add: D c')
  next
    case False
    then have fit: "offset + (length ?d + LEN_SIZE) \<le> length buffer" using Cons.prems(4) by simp
    define buffer' where "buffer' = overwrite buffer offset (frame (\<lambda>d. d) ?d)"
    have one: "fill_one buffer offset count ?d = (Ok (offset + (length ?d + LEN_SIZE), count + 1), buffer')"
      unfolding buffer'_def using fit Cons.prems by (intro fill_one_fits) auto
    have len: "length buffer' = length buffer"
      using fit by (simp add: buffer'_def LEN_SIZE_def)
    have "unat (count + 1) \<le> offset + (length ?d + LEN_SIZE)"
      using Cons.prems(5) unat_word_ariths(1) [of count 1] by (simp add: LEN_SIZE_def)
    then have IH: "fill_loop D st c' buffer' (offset + (length ?d + LEN_SIZE)) (count + 1) =
      (let ds = fitting (length buffer - (offset + (length ?d + LEN_SIZE))) (map rec_data rs) in
       (Ok (count + 1 + of_nat (length ds), offset + (length ?d + LEN_SIZE) + length (packed ds)),
        overwrite buffer' (offset + (length ?d + LEN_SIZE)) (packed ds)))"
      using Cons.IH [OF c'(2), of buffer' "offset + (length ?d + LEN_SIZE)" "count + 1"] Cons.prems fit len
      by simp
    let ?ds = "fitting (length buffer - (offset + (length ?d + LEN_SIZE))) (map rec_data rs)"
    have "overwrite buffer' (offset + (length ?d + LEN_SIZE)) (packed ?ds)
        = overwrite buffer offset (frame (\<lambda>d. d) ?d @ packed ?ds)"
      unfolding buffer'_def
      using overwrite_append [of offset "frame (\<lambda>d. d) ?d" "packed ?ds" buffer] fit
        length_packed_fitting [of "length buffer - (offset + (length ?d + LEN_SIZE))" "map rec_data rs"]
      by (simp add: LEN_SIZE_def add.commute)
    then show ?thesis
      using False Cons.prems(4) small one IH
      by (subst fill_loop.simps) (simp add: D c' Let_def ac_simps LEN_SIZE_def)
  qed
qed

end

text \<open>\<open>receive_each\<close>: a device is handed envelopes one by one, and duplicates do not stop it.\<close>

fun receive_each ::
  "('c, 's, 'p, 'i) deps \<Rightarrow> ('c, 's, 'p, 'i) client \<Rightarrow> channel_id \<Rightarrow> u8 list list \<Rightarrow>
     (unit, client_error) result \<times> ('c, 's, 'p, 'i) client" where
  "receive_each D self cid [] = (Ok (), self)"
| "receive_each D self cid (d # ds) =
     (case do_receive D self cid d of
        (Ok _, self) \<Rightarrow> receive_each D self cid ds
      | (Err err, self) \<Rightarrow>
          if err = ChannelError AlreadyReceived then receive_each D self cid ds else (Err err, self)
      | (Panic, self) \<Rightarrow> (Panic, self))"

lemma receive_loop_packed:
  "buffer = pre @ packed ds @ post \<Longrightarrow> length buffer < usize_limit \<Longrightarrow>
    receive_loop D self cid buffer (length pre) (length ds) = receive_each D self cid ds"
proof (induction ds arbitrary: pre self)
  case Nil
  then show ?case by simp
next
  case (Cons d ds)
  let ?w = "to_be_bytes (of_nat (length d) :: u32)"
  have buf: "buffer = pre @ ?w @ d @ packed ds @ post" using Cons.prems(1) by (simp add: frame_def)
  have rd: "read_u32 buffer (length pre) = Ok (of_nat (length d), length pre + 4)"
    by (rule read_u32_at [OF buf Cons.prems(2)])
  have lim: "length pre + 4 + length d \<le> length buffer" by (simp add: buf)
  have len: "unat (of_nat (length d) :: u32) = length d"
    using lim Cons.prems(2) by (simp add: unat_of_nat usize_limit_def)
  have range: "range_get buffer (length pre + 4) (length pre + 4 + length d) = Some d"
    by (simp add: buf range_get_def)
  have IH: "receive_loop D self' cid buffer (length pre + 4 + length d) (length ds) = receive_each D self' cid ds"
    for self' using Cons.IH [of "pre @ ?w @ d" self'] buf Cons.prems(2) by (simp add: add.assoc)
  have "length pre + 4 + length d < usize_limit" using lim Cons.prems(2) by simp
  then show ?case
    by (simp add: rd len range IH split: prod.split result.split)
qed

end
