(* ===== verification/Rust_Crypto.thy ===== *)
theory Rust_Crypto
  imports Crypto
begin

text \<open>
  \<^verbatim>\<open>protocol/src/crypto/rust.rs\<close>: the implementation of \<^verbatim>\<open>Crypto\<close> over RSA, SHA-256, HKDF and
  ChaCha20. The functions of those crates are the record \<open>primitives\<close>; \<open>primitives_ok\<close> is what their
  documentation says of them, as far as the code relies on it: a digest has 32 bytes, a public key
  can be encoded, and a signature made with a private key is parsed and verified under its public
  key. The interpretation \<open>rust\<close> at the end shows that the implementation meets the contract of
  the client, so that everything proved from the contract holds of it.
\<close>

record ('rng, 's, 'p, 'sig) primitives =
  sha256 :: "u8 list \<Rightarrow> u8 list"
  hkdf_expand :: "u8 list \<Rightarrow> u8 list \<Rightarrow> u8 list option"
  rng_from_seed :: "u8 list \<Rightarrow> 'rng"
  rng_gen :: "'rng \<Rightarrow> u128 \<times> 'rng"
  to_public_key_der :: "'p \<Rightarrow> u8 list option"
  to_pkcs8_der :: "'s \<Rightarrow> u8 list option"
  sign_with_rng :: "'s \<Rightarrow> 'rng \<Rightarrow> u8 list \<Rightarrow> u8 list option"
  signature_try_from :: "u8 list \<Rightarrow> 'sig option"
  verify :: "'p \<Rightarrow> u8 list \<Rightarrow> 'sig \<Rightarrow> bool"
  rsa_private_key_new :: "'rng \<Rightarrow> nat \<Rightarrow> 's option \<times> 'rng"
  to_public_key :: "'s \<Rightarrow> 'p"

record 'rng rust_crypto =
  rng :: 'rng

definition nonce_seed :: "u8 list" where
  "nonce_seed = map of_char (CHR 0x27 # ''nonce seed'')"

definition rust_crypto_new ::
  "('rng, 's, 'p, 'sig) primitives \<Rightarrow> u8 list \<Rightarrow> ('rng rust_crypto, crypto_error) result" where
  "rust_crypto_new P seed_bytes =
     (case hkdf_expand P seed_bytes nonce_seed of
        None \<Rightarrow> Err Crypto_Unreachable
      | Some seed \<Rightarrow> Ok \<lparr>rng = rng_from_seed P seed\<rparr>)"

text \<open>The digest of a sequence of updates, and its conversion to an array of 32 bytes.\<close>

definition digest :: "('rng, 's, 'p, 'sig) primitives \<Rightarrow> u8 list list \<Rightarrow> u8 list" where
  "digest P updates = sha256 P (concat updates)"

definition digest_array :: "('rng, 's, 'p, 'sig) primitives \<Rightarrow> u8 list list \<Rightarrow> (u8 list, crypto_error) result" where
  "digest_array P updates =
     (let result = digest P updates in if length result = SHA256_SIZE then Ok result else Panic)"

definition rust_compute_id :: "('rng, 's, 'p, 'sig) primitives \<Rightarrow> 'p \<Rightarrow> (node_id, crypto_error) result" where
  "rust_compute_id P key =
     bind_ok (expect (to_public_key_der P key)) (\<lambda>encoded.
     bind_ok (digest_array P [encoded]) (\<lambda>arr. Ok (node_id_new (id_from_bytes arr))))"

definition rust_envelope_id ::
  "('rng, 's, 'p, 'sig) primitives \<Rightarrow> sealed_envelope \<Rightarrow> (envelope_id, crypto_error) result" where
  "rust_envelope_id P sealed =
     bind_ok (digest_array P [node_id_to_be_bytes (env_from sealed), recipient_to_be_bytes (env_to sealed),
       env_serialized sealed, env_signature sealed]) (\<lambda>arr. Ok (envelope_id_new (id_from_bytes arr)))"

definition rust_seal ::
  "('rng, 's, 'p, 'sig) primitives \<Rightarrow> 't message serde \<Rightarrow> nat \<Rightarrow> nat \<Rightarrow> node_id \<Rightarrow> recipient \<Rightarrow>
     ('s, 'p) key_pair \<Rightarrow> 't message \<Rightarrow> u8 list \<Rightarrow> (sealed_envelope, crypto_error) result \<times> u8 list" where
  "rust_seal P S MAX_ENV MAX_SIGNATURE from to key_pair message target =
     (let (serialized, target) = to_slice S message target in
      or_return (map_err Crypto_PostcardError serialized) target (\<lambda>serialized.
      or_return (digest_array P [node_id_to_be_bytes from, recipient_to_be_bytes to, serialized]) target (\<lambda>message_hash.
      or_return (ok_or (to_pkcs8_der P (kp_private key_pair)) InternalError) target (\<lambda>encoded.
      or_return (ok_or (hkdf_expand P encoded message_hash) Crypto_Unreachable) target (\<lambda>seed.
      or_return (expect (sign_with_rng P (kp_private key_pair) (rng_from_seed P seed) message_hash)) target (\<lambda>sig_ref.
      (sealed_envelope_new MAX_ENV MAX_SIGNATURE from to serialized sig_ref, target)))))))"

definition rust_open ::
  "('rng, 's, 'p, 'sig) primitives \<Rightarrow> 't message serde \<Rightarrow> 'p \<Rightarrow> sealed_envelope \<Rightarrow>
     ('t message, crypto_error) result" where
  "rust_open P S key sealed_envelope =
     (let envelope_hash = digest P [node_id_to_be_bytes (env_from sealed_envelope),
        recipient_to_be_bytes (env_to sealed_envelope), env_serialized sealed_envelope] in
      bind_ok (ok_or (signature_try_from P (env_signature sealed_envelope)) InternalError) (\<lambda>signature.
      if \<not> verify P key envelope_hash signature then Err VerifyError
      else map_err Crypto_PostcardError (from_bytes S (env_serialized sealed_envelope))))"

definition rust_nonce :: "('rng, 's, 'p, 'sig) primitives \<Rightarrow> 'rng rust_crypto \<Rightarrow> u128 \<times> 'rng rust_crypto" where
  "rust_nonce P self = (let (n, r) = rng_gen P (rng self) in (n, self\<lparr>rng := r\<rparr>))"

definition rust_make_signing_keys ::
  "('rng, 's, 'p, 'sig) primitives \<Rightarrow> 'rng rust_crypto \<Rightarrow>
     (('s, 'p) key_pair, crypto_error) result \<times> 'rng rust_crypto" where
  "rust_make_signing_keys P self =
     (let bits = 2048;
          (private_key, r) = rsa_private_key_new P (rng self) bits;
          self = self\<lparr>rng := r\<rparr> in
      or_return (ok_or private_key VerifyError) self (\<lambda>private_key.
      let public_key = to_public_key P private_key in
      (Ok \<lparr>kp_public = public_key, kp_private = private_key\<rparr>, self)))"

definition rust_channel_id_from_bytes ::
  "('rng, 's, 'p, 'sig) primitives \<Rightarrow> u8 list \<Rightarrow> (channel_id, crypto_error) result" where
  "rust_channel_id_from_bytes P data =
     bind_ok (digest_array P [data]) (\<lambda>arr. Ok (channel_id_new (id_from_bytes arr)))"

text \<open>
  The implementation as a value of the trait. The three functions that can only panic, when a
  digest does not have 32 bytes or a key has no encoding, are total in the trait; where they would
  panic the trait's function has the given value, and \<open>primitives_ok\<close> says that never happens
  (\<open>rust_total\<close>).
\<close>

fun ok_value :: "('a, 'e) result \<Rightarrow> 'a \<Rightarrow> 'a" where
  "ok_value (Ok x) d = x"
| "ok_value _ d = d"

definition rust_crypto_trait ::
  "('rng, 's, 'p, 'sig) primitives \<Rightarrow> 'p protocol message serde \<Rightarrow> ('rng rust_crypto, 's, 'p) crypto_trait" where
  "rust_crypto_trait P S =
     \<lparr>compute_id = (\<lambda>key. ok_value (rust_compute_id P key) (NodeId (Id 0))),
      envelope_id_of = (\<lambda>_ sealed. ok_value (rust_envelope_id P sealed) (EnvelopeId (Id 0))),
      seal = (\<lambda>_. rust_seal P S MAX_ENVELOPE MAX_SIG), open_envelope = (\<lambda>_. rust_open P S),
      nonce = rust_nonce P, make_signing_keys = rust_make_signing_keys P,
      channel_id_from_bytes = (\<lambda>_ data. ok_value (rust_channel_id_from_bytes P data) (ChannelId (Id 0)))\<rparr>"

subsection \<open>The contract\<close>

definition primitives_ok :: "('rng, 's, 'p, 'sig) primitives \<Rightarrow> bool" where
  "primitives_ok P \<longleftrightarrow>
     (\<forall>bs. length (sha256 P bs) = SHA256_SIZE) \<and> (\<forall>key. to_public_key_der P key \<noteq> None) \<and>
     (\<forall>key r h sig. sign_with_rng P key r h = Some sig \<longrightarrow>
        (\<exists>parsed. signature_try_from P sig = Some parsed \<and> verify P (to_public_key P key) h parsed))"

definition rust_matching ::
  "('rng, 's, 'p, 'sig) primitives \<Rightarrow> 'p protocol message serde \<Rightarrow> ('s, 'p) key_pair \<Rightarrow> bool" where
  "rust_matching P S kp \<longleftrightarrow>
     primitives_ok P \<and> (\<exists>enc. serde_ok S enc) \<and> kp_public kp = to_public_key P (kp_private kp)"

lemma rust_total:
  assumes "primitives_ok P"
  shows "\<exists>n. rust_compute_id P key = Ok n" "\<exists>e. rust_envelope_id P env = Ok e"
    "\<exists>c. rust_channel_id_from_bytes P data = Ok c"
proof -
  have d: "digest_array P us = Ok (digest P us)" for us
    using assms by (simp add: digest_array_def primitives_ok_def digest_def)
  obtain encoded where "to_public_key_der P key = Some encoded"
    using assms by (meson not_Some_eq primitives_ok_def)
  then show "\<exists>n. rust_compute_id P key = Ok n" "\<exists>e. rust_envelope_id P env = Ok e"
    "\<exists>c. rust_channel_id_from_bytes P data = Ok c"
    by (simp_all add: rust_compute_id_def rust_envelope_id_def rust_channel_id_from_bytes_def d)
qed

lemma signed_verifies:
  "primitives_ok P \<Longrightarrow> sign_with_rng P key r h = Some sig \<Longrightarrow>
    \<exists>parsed. signature_try_from P sig = Some parsed \<and> verify P (to_public_key P key) h parsed"
  by (simp add: primitives_ok_def)

lemma serde_to_slice_cases:
  assumes "serde_ok S enc" "to_slice S x buf = (Ok bs, buf')"
  shows "bs = enc x" "length buf' = length buf"
proof -
  have fits: "length (enc x) \<le> length buf"
    using assms unfolding serde_ok_def by (metis fst_conv result.distinct(1) linorder_not_less)
  from serde_to_slice_fits [OF assms(1) fits] assms(2) fits
  show "bs = enc x" "length buf' = length buf" by auto
qed

lemma rust_seal_Ok:
  assumes "serde_ok S enc" "rust_seal P S ME MS from to kp m target = (Ok env, target')"
  obtains r sig where "env = \<lparr>env_from = from, env_to = to, env_serialized = enc m, env_signature = sig\<rparr>"
    "length (enc m) \<le> ME" "length sig \<le> MS" "length target' = length target"
    "sign_with_rng P (kp_private kp) r
      (digest P [node_id_to_be_bytes from, recipient_to_be_bytes to, enc m]) = Some sig"
proof -
  obtain ser t where ser: "to_slice S m target = (ser, t)" by fastforce
  with assms(2) obtain bs where bs: "ser = Ok bs"
    by (auto simp: rust_seal_def result_simps)
  note ser_facts = serde_to_slice_cases [OF assms(1) ser [unfolded bs]]
  let ?h = "digest P [node_id_to_be_bytes from, recipient_to_be_bytes to, enc m]"
  have "digest_array P [node_id_to_be_bytes from, recipient_to_be_bytes to, enc m] = Ok x \<Longrightarrow> x = ?h" for x
    by (auto simp: digest_array_def Let_def split: if_splits)
  with assms(2) obtain r sig where
      "sign_with_rng P (kp_private kp) r ?h = Some sig"
      "sealed_envelope_new ME MS from to (enc m) sig = Ok env" "target' = t"
    using ser_facts by (auto simp: rust_seal_def ser bs result_simps)
  with that ser_facts show thesis
    by (auto simp: sealed_envelope_new_def vec_from_slice_def split: if_splits option.splits)
qed

lemma rust_open_no_panic: "serde_ok S enc \<Longrightarrow> rust_open P S key env \<noteq> Panic"
  by (cases "signature_try_from P (env_signature env)")
    (auto simp: rust_open_def Let_def serde_no_panic result_simps)

interpretation rust: sealing "rust_crypto_trait P S" "rust_matching P S"
proof
  fix kp c key env'
  show "rust_matching P S kp \<Longrightarrow> open_envelope (rust_crypto_trait P S) c key env' \<noteq> Panic"
    by (auto simp: rust_matching_def rust_crypto_trait_def rust_open_no_panic)
next
  fix kp c "from" to m target env target' c'
  assume kp: "rust_matching P S kp"
    and sealed: "seal (rust_crypto_trait P S) c from to kp m target = (Ok env, target')"
  obtain enc where P: "primitives_ok P" and S: "serde_ok S enc"
    and pair: "kp_public kp = to_public_key P (kp_private kp)"
    using kp by (auto simp: rust_matching_def)
  have "rust_seal P S MAX_ENVELOPE MAX_SIG from to kp m target = (Ok env, target')"
    using sealed by (simp add: rust_crypto_trait_def)
  then obtain r sig where env: "env = \<lparr>env_from = from, env_to = to, env_serialized = enc m, env_signature = sig\<rparr>"
      "length (enc m) \<le> MAX_ENVELOPE" "length sig \<le> MAX_SIG" "length target' = length target"
      "sign_with_rng P (kp_private kp) r
        (digest P [node_id_to_be_bytes from, recipient_to_be_bytes to, enc m]) = Some sig"
    by (rule rust_seal_Ok [OF S])
  show "env_from env = from \<and> env_to env = to \<and> length (env_serialized env) \<le> MAX_ENVELOPE \<and>
      length (env_signature env) \<le> MAX_SIG \<and> length target' = length target"
    using env by simp
  obtain parsed where "signature_try_from P sig = Some parsed"
      "verify P (kp_public kp) (digest P [node_id_to_be_bytes from, recipient_to_be_bytes to, enc m]) parsed"
    using signed_verifies [OF P env(5)] pair by auto
  then show "open_envelope (rust_crypto_trait P S) c' (kp_public kp) env = Ok m"
    using S by (simp add: rust_crypto_trait_def rust_open_def env(1))
qed

end
