(* ===== verification/Client_Facts.thy ===== *)
theory Client_Facts
  imports Client_Sync Rust_Crypto
begin

text \<open>
  What the client's operations do to a channel, proved against the contracts of the device and of the
  cryptography. \<open>channel_ok\<close> is the invariant of a channel that was created, sent to and received
  from: the vector of nodes and the user table are well formed, the device holds the log, and the log
  is in the order in which it was written.

  The locale \<open>client_setup\<close> joins the two contracts. Its interpretation \<open>app\<close> is the client over the
  memory device and the RSA implementation.
\<close>

subsection \<open>The invariant\<close>

definition log_ok :: "'p channel_state \<Rightarrow> stored list \<Rightarrow> bool" where
  "log_ok st rs \<longleftrightarrow>
     sorted_wrt (\<le>) (map rec_max_sequence rs) \<and>
     (\<forall>r\<in>set rs. rec_sequence r \<le> rec_max_sequence r \<and> rec_max_sequence r \<le> current_sequence st)"

definition channel_ok ::
  "('c, 's, 'p, 'i) deps \<Rightarrow> ('i \<Rightarrow> stored list list \<Rightarrow> bool) \<Rightarrow> ('p, 'i) channel \<Rightarrow> stored list list \<Rightarrow> bool" where
  "channel_ok D holds ch rss \<longleftrightarrow>
     channel_inv (d_max_nodes D) (ch_state ch) \<and>
     chat_inv (compute_id (d_crypto D)) (d_max_nodes D) (ch_chat ch) \<and>
     holds (storage_io (ch_storage ch)) rss \<and> [] \<notin> set rss \<and> log_ok (ch_state ch) (concat rss)"

text \<open>Taking in a message that the clock allows: the three outcomes.\<close>

text \<open>The clock after a message: the sender's entry moves, and at most a new node appears.\<close>

definition clock_moves :: "(node_id \<Rightarrow> u64 option) \<Rightarrow> node_id \<Rightarrow> u64 \<Rightarrow> (node_id \<Rightarrow> u64 option) \<Rightarrow> bool" where
  "clock_moves clk from s clk' \<longleftrightarrow>
     clk' from = Some s \<and> (\<forall>n. n \<noteq> from \<longrightarrow> clk' n = clk n \<or> (clk n = None \<and> clk' n = Some 0))"

text \<open>The known keys after a message: a user message adds the key of a node that was not known.\<close>

definition keys_move ::
  "('p \<Rightarrow> node_id) \<Rightarrow> 'p channel_state \<Rightarrow> node_id \<Rightarrow> 'p protocol message \<Rightarrow> 'p channel_state \<Rightarrow> bool" where
  "keys_move cid_of st from m st' \<longleftrightarrow>
     (case msg_data m of
        AddUser u \<Rightarrow> clock st (cid_of (au_key u)) = None \<and> cid_of (au_key u) \<noteq> from \<and>
          channel_keys st' = (channel_keys st)(cid_of (au_key u) \<mapsto> au_key u)
      | _ \<Rightarrow> channel_keys st' = channel_keys st)"

lemma keys_move_sender:
  "keys_move cid_of st from m st' \<Longrightarrow> channel_keys st' from = channel_keys st from"
  by (auto simp: keys_move_def split: protocol.splits)

lemma remember_key_cases:
  assumes inv: "channel_inv (d_max_nodes D) (ch_state ch)" and res: "remember_key D ch result = (r, ch')"
  shows "channel_inv (d_max_nodes D) (ch_state ch') \<and> ch_storage ch' = ch_storage ch \<and> ch_chat ch' = ch_chat ch \<and>
    current_sequence (ch_state ch') = current_sequence (ch_state ch) \<and>
    (case r of
       Ok _ \<Rightarrow> (case result of
           Accept_AddUser k \<Rightarrow> clock (ch_state ch) (compute_id (d_crypto D) k) = None \<and>
             clock (ch_state ch') = (clock (ch_state ch))(compute_id (d_crypto D) k \<mapsto> 0) \<and>
             channel_keys (ch_state ch') = (channel_keys (ch_state ch))(compute_id (d_crypto D) k \<mapsto> k)
         | _ \<Rightarrow> ch' = ch)
     | Err e \<Rightarrow> ch' = ch \<and> (e = ChannelError NodeExists \<or> e = ChannelError (ClientMax (d_max_nodes D)))
     | Panic \<Rightarrow> False)"
proof (cases result)
  case (Accept_AddUser k)
  let ?n = "compute_id (d_crypto D) k" and ?st = "ch_state ch"
  consider (present) "clock ?st ?n \<noteq> None" | (full) "clock ?st ?n = None" "d_max_nodes D \<le> length (nodes ?st)"
    | (room) "clock ?st ?n = None" "length (nodes ?st) < d_max_nodes D" by linarith
  then show ?thesis
  proof cases
    case present
    then show ?thesis using res inv add_node_present [OF inv present] by (auto simp: remember_key_def Accept_AddUser)
  next
    case full
    then show ?thesis using res inv add_node_full [OF inv full] by (auto simp: remember_key_def Accept_AddUser)
  next
    case room
    obtain st' where st': "add_node (d_max_nodes D) ?st ?n k = (Ok (), st')" "channel_inv (d_max_nodes D) st'"
        "clock st' = (clock ?st)(?n \<mapsto> 0)" "channel_keys st' = (channel_keys ?st)(?n \<mapsto> k)" "newest st' = newest ?st"
      using add_node_absent [OF inv room, of k] by metis
    have "clock ?st (newest ?st) \<noteq> None"
      using inv by (auto simp: channel_inv_def clock_Some [OF channel_inv_sorted [OF inv]] dest!: sym [of None])
    then have "current_sequence st' = current_sequence ?st"
      using room(1) by (auto simp: current_sequence_def known_sequence_def st'(3,5))
    then show ?thesis using res st' room by (auto simp: remember_key_def Accept_AddUser)
  qed
qed (use res inv in \<open>auto simp: remember_key_def\<close>)

lemma accept_Ok_kind:
  assumes "accept_message cid_of M chat cid author msg = (Ok a, chat')"
  shows "case msg of
      AddUser u \<Rightarrow> a = Accept_AddUser (au_key u)
    | _ \<Rightarrow> \<forall>k. a \<noteq> Accept_AddUser k"
  using assms accept_AddUser_Ok(2) [of cid_of M chat cid author]
  by (cases msg) (auto elim!: accept_NewChannel_Ok accept_ChatMessage_Ok)

lemma take_message_cases:
  assumes inv: "channel_inv (d_max_nodes D) (ch_state ch)"
    and chat: "chat_inv (compute_id (d_crypto D)) (d_max_nodes D) (ch_chat ch)"
    and acc: "acceptable (clock (ch_state ch)) from m"
    and step: "take_message D ch cid from m eid = (r, ch')"
  shows "channel_inv (d_max_nodes D) (ch_state ch') \<and>
    chat_inv (compute_id (d_crypto D)) (d_max_nodes D) (ch_chat ch') \<and>
    ch_storage ch' = ch_storage ch \<and>
    (case r of
       Ok ms \<Rightarrow> ms = max (current_sequence (ch_state ch)) (msg_sequence m) \<and>
         current_sequence (ch_state ch') = ms \<and>
         clock_moves (clock (ch_state ch)) from (msg_sequence m) (clock (ch_state ch')) \<and>
         keys_move (compute_id (d_crypto D)) (ch_state ch) from m (ch_state ch')
     | Err (ChatError e) \<Rightarrow> ch' = ch
     | Err (ChannelError e) \<Rightarrow> (e = NodeExists \<or> e = ClientMax (d_max_nodes D)) \<and>
         clock (ch_state ch') = (clock (ch_state ch))(from \<mapsto> msg_sequence m) \<and>
         current_sequence (ch_state ch') = max (current_sequence (ch_state ch)) (msg_sequence m)
     | _ \<Rightarrow> False)"
proof -
  obtain accepted chat' where a: "accept_message (compute_id (d_crypto D)) (d_max_nodes D) (ch_chat ch) cid from
      (msg_data m) = (accepted, chat')" by fastforce
  note chat' = accept_message_inv [OF chat a]
  show ?thesis
  proof (cases accepted)
    case (Err e)
    then have "chat' = ch_chat ch" using a accept_Err_unchanged by blast
    then have "r = Err (ChatError e)" "ch' = ch" using step a Err by (auto simp: take_message_def)
    then show ?thesis using inv chat by simp
  next
    case Panic
    then show ?thesis using a accept_not_Panic by blast
  next
    case (Ok result)
    obtain st' where st': "receive (ch_state ch) from m eid = (Ok (max (current_sequence (ch_state ch)) (msg_sequence m)), st')"
        "channel_inv (d_max_nodes D) st'" "clock st' = (clock (ch_state ch))(from \<mapsto> msg_sequence m)"
        "channel_keys st' = channel_keys (ch_state ch)"
        "current_sequence st' = max (current_sequence (ch_state ch)) (msg_sequence m)"
      using receive_effect [OF inv acc] by metis
    let ?ch1 = "ch\<lparr>ch_chat := chat', ch_state := st'\<rparr>"
    obtain added ch2 where k: "remember_key D ?ch1 result = (added, ch2)" by fastforce
    have body: "or_return added ch2 (\<lambda>_. (Ok (max (current_sequence (ch_state ch)) (msg_sequence m)), ch2)) = (r, ch')"
      using step a Ok st'(1) k by (simp add: take_message_def)
    have kinv: "channel_inv (d_max_nodes D) (ch_state ?ch1)" using st'(2) by simp
    note kc = remember_key_cases [OF kinv k]
    note kind = accept_Ok_kind [OF a [unfolded Ok]]
    show ?thesis
    proof (cases added)
      case (Ok u)
      then have "r = Ok (max (current_sequence (ch_state ch)) (msg_sequence m))" "ch' = ch2" using body by auto
      then show ?thesis
        using kc Ok st' chat' kind
        by (cases "msg_data m"; cases result) (auto simp: clock_moves_def keys_move_def split: if_splits)
    next
      case (Err e)
      then have "r = Err e" "ch' = ch2" using body by auto
      have "ch2 = ?ch1" and e: "e = ChannelError NodeExists \<or> e = ChannelError (ClientMax (d_max_nodes D))"
        using kc Err by simp_all
      then have "ch_state ch' = st'" "ch_chat ch' = chat'" "ch_storage ch' = ch_storage ch"
        using \<open>ch' = ch2\<close> by simp_all
      then show ?thesis using \<open>r = Err e\<close> e st' chat' by auto
    next
      case Panic
      then show ?thesis using kc by simp
    qed
  qed
qed

lemma log_ok_extend:
  assumes "log_ok st rs" "current_sequence st' = max (current_sequence st) s"
    and "rec_max_sequence r = current_sequence st'" "rec_sequence r = s"
  shows "log_ok st' (rs @ [r])"
  using assms by (fastforce simp: log_ok_def sorted_wrt_append max_def split: if_splits)

lemma log_ok_mono: "log_ok st rs \<Longrightarrow> current_sequence st \<le> current_sequence st' \<Longrightarrow> log_ok st' rs"
  by (auto simp: log_ok_def)

text \<open>
  \<open>advanced\<close>: a channel after a message has been taken in and the bytes \<open>d\<close> have gone to the log.
  \<open>failed\<close>: a client after a failed step; the log is intact, and for most errors nothing changed.
\<close>

definition advanced ::
  "('c, 's, 'p, 'i) deps \<Rightarrow> ('i \<Rightarrow> stored list list \<Rightarrow> bool) \<Rightarrow> ('p, 'i) channel \<Rightarrow> stored list list \<Rightarrow> node_id \<Rightarrow>
     'p protocol message \<Rightarrow> u8 list \<Rightarrow> ('p, 'i) channel \<Rightarrow> bool" where
  "advanced D holds ch rss from m d ch' \<longleftrightarrow>
     (\<exists>r. channel_ok D holds ch' (rss @ [[r]]) \<and> rec_data r = d \<and> rec_sender r = from \<and>
        rec_sequence r = msg_sequence m \<and> rec_max_sequence r = current_sequence (ch_state ch') \<and>
        rec_message_count r = message_count (ch_chat ch')) \<and>
     clock_moves (clock (ch_state ch)) from (msg_sequence m) (clock (ch_state ch')) \<and>
     keys_move (compute_id (d_crypto D)) (ch_state ch) from m (ch_state ch')"

definition failed ::
  "('c, 's, 'p, 'i) deps \<Rightarrow> ('i \<Rightarrow> stored list list \<Rightarrow> bool) \<Rightarrow> ('c, 's, 'p, 'i) client \<Rightarrow> channel_id \<Rightarrow>
     stored list list \<Rightarrow> client_error \<Rightarrow> ('c, 's, 'p, 'i) client \<Rightarrow> bool" where
  "failed D holds self cid rss e self' \<longleftrightarrow>
     self' = self \<or>
     (\<exists>ch'. self' = put_channel cid ch' self \<and> channel_ok D holds ch' rss \<and>
        (e = ChannelError NodeExists \<or> e = ChannelError (ClientMax (d_max_nodes D)) \<or>
         (\<exists>se. e = StorageError se) \<or> (\<exists>pe. e = SerializationError pe)))"

lemma update_same: "map_of al k = Some v \<Longrightarrow> AList.update k v al = al"
  by (induction al) auto

lemma put_channel_same: "map_of (cl_channels self) cid = Some ch \<Longrightarrow> put_channel cid ch self = self"
  by (simp add: put_channel_def update_same)

lemma map_of_put_channel: "map_of (cl_channels (put_channel cid ch self)) = (map_of (cl_channels self))(cid \<mapsto> ch)"
  by (simp add: put_channel_def update_conv')

subsection \<open>Against the contracts\<close>

locale client_setup =
  slab_io "d_io D" "d_records D" enc holds writing + sealing "d_crypto D" matching
  for D :: "('c, 's, 'p, 'i) deps" and enc holds writing matching
begin

text \<open>Writing a record to the log: it is appended, or the log is as it was.\<close>

lemma write_and_commit_cases:
  assumes "holds (storage_io st) rss" "get_writer (d_io D) st = Ok w"
    and "write_and_commit (d_io D) w m n s nd d = (r, st')"
  shows "case r of
      Ok _ \<Rightarrow> holds (storage_io st') (rss @ [[\<lparr>rec_max_sequence = m, rec_message_count = n, rec_sequence = s,
        rec_sender = nd, rec_data = d\<rparr>]])
    | Err e \<Rightarrow> holds (storage_io st') rss \<and> (\<exists>se. e = StorageError se)
    | Panic \<Rightarrow> True"
proof -
  obtain wrote w' where w': "write_record (d_io D) w m n s nd d = (wrote, w')" by fastforce
  show ?thesis
  proof (cases wrote)
    case (Ok u)
    note w' = w' [unfolded Ok]
    obtain comm io' where comm: "commit (d_io D) w' = (comm, io')" by fastforce
    show ?thesis
    proof (cases comm)
      case (Ok v)
      then show ?thesis
        using append_spec [OF assms(1,2)] w' comm assms(3) by (auto simp: write_and_commit_def)
    next
      case (Err e)
      then show ?thesis
        using failed_commit [OF assms(1,2)] w' comm assms(3) by (auto simp: write_and_commit_def)
    next
      case Panic
      then show ?thesis using w' comm assms(3) by (auto simp: write_and_commit_def)
    qed
  next
    case (Err e)
    then show ?thesis
      using failed_write [OF assms(1,2)] w' assms(3) by (auto simp: write_and_commit_def)
  next
    case Panic
    then show ?thesis using w' assms(3) by (auto simp: write_and_commit_def)
  qed
qed

lemma store_taken:
  assumes ok: "channel_ok D holds ch rss" and acc: "acceptable (clock (ch_state ch)) from m"
    and taken: "take_message D ch cid from m eid = (Ok ms, ch1)"
    and w: "get_writer (d_io D) (ch_storage ch1) = Ok w"
    and stored: "write_and_commit (d_io D) w ms (message_count (ch_chat ch1)) (msg_sequence m) from d = (r, storage)"
  shows "case r of
      Ok _ \<Rightarrow> advanced D holds ch rss from m d (ch1\<lparr>ch_storage := storage\<rparr>)
    | Err e \<Rightarrow> channel_ok D holds (ch1\<lparr>ch_storage := storage\<rparr>) rss \<and> (\<exists>se. e = StorageError se)
    | Panic \<Rightarrow> True"
proof -
  have inv: "channel_inv (d_max_nodes D) (ch_state ch)"
      "chat_inv (compute_id (d_crypto D)) (d_max_nodes D) (ch_chat ch)"
      "holds (storage_io (ch_storage ch)) rss" "[] \<notin> set rss" "log_ok (ch_state ch) (concat rss)"
    using ok by (auto simp: channel_ok_def)
  note t = take_message_cases [OF inv(1,2) acc taken]
  have ch1: "channel_inv (d_max_nodes D) (ch_state ch1)" "ch_storage ch1 = ch_storage ch"
      "chat_inv (compute_id (d_crypto D)) (d_max_nodes D) (ch_chat ch1)"
      "current_sequence (ch_state ch1) = max (current_sequence (ch_state ch)) (msg_sequence m)"
      "ms = current_sequence (ch_state ch1)"
    using t by simp_all
  have h1: "holds (storage_io (ch_storage ch1)) rss" using inv(3) ch1(2) by simp
  note st = write_and_commit_cases [OF h1 w stored]
  show ?thesis
  proof (cases r)
    case (Ok u)
    let ?r = "\<lparr>rec_max_sequence = ms, rec_message_count = message_count (ch_chat ch1),
      rec_sequence = msg_sequence m, rec_sender = from, rec_data = d\<rparr>"
    have "log_ok (ch_state ch1) (concat rss @ [?r])"
      using ch1 by (intro log_ok_extend [OF inv(5)]) simp_all
    then have "channel_ok D holds (ch1\<lparr>ch_storage := storage\<rparr>) (rss @ [[?r]])"
      using st Ok ch1 inv(4) by (simp add: channel_ok_def)
    then have "advanced D holds ch rss from m d (ch1\<lparr>ch_storage := storage\<rparr>)"
      using t ch1(5) unfolding advanced_def by (intro conjI exI [of _ ?r]) simp_all
    then show ?thesis by (simp add: Ok)
  next
    case (Err e)
    have "log_ok (ch_state ch1) (concat rss)"
      using log_ok_mono [OF inv(5), of "ch_state ch1"] ch1(4) by simp
    then show ?thesis using st Err ch1 inv(4) by (simp add: channel_ok_def)
  qed simp
qed

lemma take_message_failed:
  assumes ok: "channel_ok D holds ch rss" and acc: "acceptable (clock (ch_state ch)) from m"
    and find: "map_of (cl_channels self) cid = Some ch"
    and taken: "take_message D ch cid from m eid = (Err e, ch1)"
  shows "failed D holds self cid rss e (put_channel cid ch1 self)"
proof -
  have inv: "channel_inv (d_max_nodes D) (ch_state ch)"
      "chat_inv (compute_id (d_crypto D)) (d_max_nodes D) (ch_chat ch)"
      "holds (storage_io (ch_storage ch)) rss" "[] \<notin> set rss" "log_ok (ch_state ch) (concat rss)"
    using ok by (auto simp: channel_ok_def)
  note t = take_message_cases [OF inv(1,2) acc taken]
  show ?thesis
  proof (cases e)
    case (ChatError ce)
    then show ?thesis using t find by (simp add: failed_def put_channel_same)
  next
    case (ChannelError ce)
    then have "log_ok (ch_state ch1) (concat rss)"
      using t log_ok_mono [OF inv(5), of "ch_state ch1"] by simp
    then show ?thesis
      using t ChannelError inv(3,4) unfolding failed_def
      by (intro disjI2 exI [of _ ch1]) (auto simp: channel_ok_def)
  qed (use t in simp_all)
qed

lemma take_message_kept:
  assumes ok: "channel_ok D holds ch rss" and acc: "acceptable (clock (ch_state ch)) from m"
    and taken: "take_message D ch cid from m eid = (Ok ms, ch1)"
  shows "channel_ok D holds ch1 rss"
proof -
  have inv: "channel_inv (d_max_nodes D) (ch_state ch)"
      "chat_inv (compute_id (d_crypto D)) (d_max_nodes D) (ch_chat ch)"
      "holds (storage_io (ch_storage ch)) rss" "[] \<notin> set rss" "log_ok (ch_state ch) (concat rss)"
    using ok by (auto simp: channel_ok_def)
  note t = take_message_cases [OF inv(1,2) acc taken]
  have "log_ok (ch_state ch1) (concat rss)"
    using t log_ok_mono [OF inv(5), of "ch_state ch1"] by simp
  then show ?thesis using t inv by (simp add: channel_ok_def)
qed

lemma kept_failed:
  assumes "channel_ok D holds ch rss" "acceptable (clock (ch_state ch)) from m"
    and "take_message D ch cid from m eid = (Ok ms, ch1)" "(\<exists>se. e = StorageError se) \<or> (\<exists>pe. e = SerializationError pe)"
  shows "failed D holds self cid rss e (put_channel cid ch1 self)"
  using take_message_kept [OF assms(1-3)] assms(4) by (auto simp: failed_def)

text \<open>The end of sending and of receiving, as rules for \<open>outcome\<close>.\<close>

lemma take_outcome:
  assumes ok: "channel_ok D holds ch rss" and find: "map_of (cl_channels self) cid = Some ch"
    and acc: "acceptable (clock (ch_state ch)) from m"
    and rest: "\<And>ms ch1. take_message D ch cid from m eid = (Ok ms, ch1) \<Longrightarrow>
      outcome Q (failed D holds self cid rss) (k ms ch1)"
  shows "outcome Q (failed D holds self cid rss)
    (case take_message D ch cid from m eid of (taken, ch1) \<Rightarrow> or_return taken (put_channel cid ch1 self) (\<lambda>ms. k ms ch1))"
proof -
  obtain taken ch1 where t: "take_message D ch cid from m eid = (taken, ch1)" by fastforce
  then show ?thesis
    using rest take_message_failed [OF ok acc find] by (cases taken) simp_all
qed

lemma write_outcome:
  assumes ok: "channel_ok D holds ch rss" and acc: "acceptable (clock (ch_state ch)) from m"
    and taken: "take_message D ch cid from m eid = (Ok ms, ch1)"
    and w: "get_writer (d_io D) (ch_storage ch1) = Ok w"
    and result: "\<And>ch'. advanced D holds ch rss from m d ch' \<Longrightarrow> Q () (put_channel cid ch' self)"
  shows "outcome Q (failed D holds self cid rss)
    (case write_and_commit (d_io D) w ms (message_count (ch_chat ch1)) (msg_sequence m) from d of (stored, storage) \<Rightarrow>
       or_return stored (put_channel cid (ch1\<lparr>ch_storage := storage\<rparr>) self)
         (\<lambda>_. (Ok (), put_channel cid (ch1\<lparr>ch_storage := storage\<rparr>) self)))"
proof -
  obtain stored storage where st: "write_and_commit (d_io D) w ms (message_count (ch_chat ch1)) (msg_sequence m) from d
      = (stored, storage)" by fastforce
  then show ?thesis
    using store_taken [OF ok acc taken w st] result by (cases stored) (auto simp: failed_def)
qed

lemma do_receive_outcome:
  assumes find: "map_of (cl_channels self) cid = Some ch" and ok: "channel_ok D holds ch rss"
  shows "outcome (\<lambda>_ self'. \<exists>env key m ch'. from_bytes (d_envelopes D) bytes = Ok env \<and>
        channel_keys (ch_state ch) (env_from env) = Some key \<and>
        open_envelope (d_crypto D) (cl_crypto self) key env = Ok m \<and>
        acceptable (clock (ch_state ch)) (env_from env) m \<and>
        self' = put_channel cid ch' self \<and> advanced D holds ch rss (env_from env) m bytes ch')
      (failed D holds self cid rss) (do_receive D self cid bytes)"
proof -
  have inv: "channel_inv (d_max_nodes D) (ch_state ch)" using ok by (simp add: channel_ok_def)
  note sorted = channel_inv_sorted [OF inv]
  have found: "find_channel self cid = Ok ch" by (simp add: find_channel_def find)
  have unchanged: "failed D holds self cid rss e self" for e by (simp add: failed_def)
  have acc: "acceptable (clock (ch_state ch)) n m" if "check_receive (ch_state ch) n m eid = Ok ()" for n m eid
    using that by (simp add: check_receive_verdict [OF sorted] flip: receive_verdict_Ok)
  show ?thesis
    unfolding do_receive_def found or_return.simps Let_def
    by (intro outcome_or_return take_outcome [OF ok find] write_outcome [OF ok])
      (auto simp: unchanged acc result_simps get_node_key_lookup [OF sorted] split: option.splits intro!: kept_failed [OF ok])
qed

lemma do_receive_cases:
  assumes find: "map_of (cl_channels self) cid = Some ch" and ok: "channel_ok D holds ch rss"
    and step: "do_receive D self cid bytes = (r, self')"
  shows "case r of
      Ok _ \<Rightarrow> \<exists>env key m ch'. from_bytes (d_envelopes D) bytes = Ok env \<and>
        channel_keys (ch_state ch) (env_from env) = Some key \<and>
        open_envelope (d_crypto D) (cl_crypto self) key env = Ok m \<and>
        acceptable (clock (ch_state ch)) (env_from env) m \<and>
        self' = put_channel cid ch' self \<and> advanced D holds ch rss (env_from env) m bytes ch'
    | Err e \<Rightarrow> failed D holds self cid rss e self'
    | Panic \<Rightarrow> True"
  using do_receive_outcome [OF find ok, of bytes] unfolding step by (cases r) simp_all

lemma do_send_outcome:
  assumes find: "map_of (cl_channels self) cid = Some ch" and ok: "channel_ok D holds ch rss"
  shows "outcome (\<lambda>_ self'. \<exists>m env target d target' ch'. msg_data m = data \<and> cause m = newest (ch_state ch) \<and>
        unat (msg_sequence m) = Suc (unat (current_sequence (ch_state ch))) \<and>
        acceptable (clock (ch_state ch)) (cl_node_id self) m \<and>
        seal (d_crypto D) (cl_crypto self) (cl_node_id self) (Channel cid) (cl_key_pair self) m
          (replicate 4096 0) = (Ok env, target) \<and>
        to_slice (d_envelopes D) env target = (Ok d, target') \<and>
        self' = put_channel cid ch' self \<and> advanced D holds ch rss (cl_node_id self) m d ch')
      (failed D holds self cid rss) (do_send D self cid data)"
proof -
  have inv: "channel_inv (d_max_nodes D) (ch_state ch)" using ok by (simp add: channel_ok_def)
  note sorted = channel_inv_sorted [OF inv]
  have found: "find_channel self cid = Ok ch" by (simp add: find_channel_def find)
  have unchanged: "failed D holds self cid rss e self" for e by (simp add: failed_def)
  have acc: "acceptable (clock (ch_state ch)) n m" if "check_receive (ch_state ch) n m eid = Ok ()" for n m eid
    using that by (simp add: check_receive_verdict [OF sorted] flip: receive_verdict_Ok)
  have addressed: "msg_data m = data \<and> cause m = newest (ch_state ch) \<and>
      unat (msg_sequence m) = Suc (unat (current_sequence (ch_state ch)))" if "address (ch_state ch) n data = Ok m" for n m
    using that unfolding address_spec [OF inv] by (auto simp: result_simps checked_add_Some split: option.splits)
  show ?thesis
    unfolding do_send_def found or_return.simps Let_def
    by (intro outcome_or_return outcome_prod [where p = "seal C c n r kp m b" for C c n r kp m b]
        outcome_prod [where p = "to_slice S x b" for S x b] take_outcome [OF ok find] write_outcome [OF ok])
      (auto simp: unchanged acc result_simps dest!: addressed intro!: kept_failed [OF ok], blast intro: acc)
qed

lemma do_send_cases:
  assumes find: "map_of (cl_channels self) cid = Some ch" and ok: "channel_ok D holds ch rss"
    and step: "do_send D self cid data = (r, self')"
  shows "case r of
      Ok _ \<Rightarrow> \<exists>m env target d target' ch'. msg_data m = data \<and> cause m = newest (ch_state ch) \<and>
        unat (msg_sequence m) = Suc (unat (current_sequence (ch_state ch))) \<and>
        acceptable (clock (ch_state ch)) (cl_node_id self) m \<and>
        seal (d_crypto D) (cl_crypto self) (cl_node_id self) (Channel cid) (cl_key_pair self) m
          (replicate 4096 0) = (Ok env, target) \<and>
        to_slice (d_envelopes D) env target = (Ok d, target') \<and>
        self' = put_channel cid ch' self \<and> advanced D holds ch rss (cl_node_id self) m d ch'
    | Err e \<Rightarrow> failed D holds self cid rss e self'
    | Panic \<Rightarrow> True"
  using do_send_outcome [OF find ok, of data] unfolding step by (cases r) simp_all

text \<open>A message that was received is refused from then on, and the refusal changes nothing.\<close>

lemma received_again:
  assumes find: "map_of (cl_channels self) cid = Some ch" and ok: "channel_ok D holds ch rss"
    and step: "do_receive D self cid bytes = (Ok (), self')"
  shows "do_receive D self' cid bytes = (Err (ChannelError AlreadyReceived), self')"
proof -
  obtain env key m ch' where env: "from_bytes (d_envelopes D) bytes = Ok env"
      "channel_keys (ch_state ch) (env_from env) = Some key"
      "open_envelope (d_crypto D) (cl_crypto self) key env = Ok m"
    and self': "self' = put_channel cid ch' self" and adv: "advanced D holds ch rss (env_from env) m bytes ch'"
    using do_receive_cases [OF find ok step] by auto
  have find': "map_of (cl_channels self') cid = Some ch'" "cl_crypto self' = cl_crypto self"
    by (simp_all add: self' map_of_put_channel) (simp add: put_channel_def)
  have inv: "channel_inv (d_max_nodes D) (ch_state ch')"
    using adv by (auto simp: advanced_def channel_ok_def)
  note sorted = channel_inv_sorted [OF inv]
  have key': "channel_keys (ch_state ch') (env_from env) = Some key"
    using adv env(2) unfolding advanced_def by (metis keys_move_sender)
  have "clock (ch_state ch') (env_from env) = Some (msg_sequence m)"
    using adv by (simp add: advanced_def clock_moves_def)
  then have "receive_verdict (clock (ch_state ch')) (env_from env) m = Err AlreadyReceived"
    by (simp add: receive_verdict_def)
  then show ?thesis
    by (simp add: do_receive_def env find_channel_def find' get_node_key_lookup [OF sorted] key'
        check_receive_verdict [OF sorted] Let_def)
qed

end

text \<open>
  The client as the firmware runs it: the memory device and the RSA implementation, with the
  serialisers and the two capacities as arguments.
\<close>

definition app_deps ::
  "nat \<Rightarrow> ('rng, 's, 'p, 'sig) primitives \<Rightarrow> stored serde \<Rightarrow> 'p protocol message serde \<Rightarrow> sealed_envelope serde \<Rightarrow>
     'p new_channel serde \<Rightarrow> nat \<Rightarrow> nat \<Rightarrow> ('rng rust_crypto, 's, 'p, mem_io) deps" where
  "app_deps SLAB_SIZE P records messages envelopes new_channels MAX_NODES MAX_CHANNELS =
     \<lparr>d_crypto = rust_crypto_trait P messages, d_io = mem_io_trait SLAB_SIZE records, d_records = records,
      d_envelopes = envelopes, d_new_channels = new_channels, d_max_nodes = MAX_NODES,
      d_max_channels = MAX_CHANNELS\<rparr>"

lemma app_deps_simps [simp]:
  "d_crypto (app_deps SLAB P SR SM SE SN M MC) = rust_crypto_trait P SM"
  "d_io (app_deps SLAB P SR SM SE SN M MC) = mem_io_trait SLAB SR"
  "d_records (app_deps SLAB P SR SM SE SN M MC) = SR"
  "d_envelopes (app_deps SLAB P SR SM SE SN M MC) = SE"
  "d_new_channels (app_deps SLAB P SR SM SE SN M MC) = SN"
  "d_max_nodes (app_deps SLAB P SR SM SE SN M MC) = M"
  "d_max_channels (app_deps SLAB P SR SM SE SN M MC) = MC"
  by (simp_all add: app_deps_def)

interpretation app: client_setup "app_deps SLAB P SR SM SE SN M MC" enc "mem_holds SLAB SR enc"
  "mem_writing SLAB SR enc" "rust_matching P SM"
  unfolding client_setup_def app_deps_simps
  by (intro conjI mem.slab_io_axioms rust.sealing_axioms)

end
