(* ===== verification/Demo.thy ===== *)
theory Demo
  imports Client_Facts
begin

text \<open>
  Concrete parameters, for the witnesses: encodings that meet \<open>serde_ok\<close>, primitives that meet
  \<open>primitives_ok\<close> (keys are 64-bit numbers, a signature is the key), and a client over them. The
  encodings mark every byte of a list that is not the last field.
\<close>

subsection \<open>Encodings\<close>

definition serde_of :: "('a \<Rightarrow> u8 list) \<Rightarrow> (u8 list \<Rightarrow> ('a, postcard_error) result) \<Rightarrow> 'a serde" where
  "serde_of enc dec =
     \<lparr>to_slice = (\<lambda>x buf. if length (enc x) \<le> length buf then (Ok (enc x), overwrite buf 0 (enc x))
        else (Err SerializeBufferFull, buf)),
      from_bytes = dec\<rparr>"

lemma serde_of_ok:
  "(\<And>x. dec (enc x) = Ok x) \<Longrightarrow> (\<And>x. enc x \<noteq> []) \<Longrightarrow> (\<And>bs. dec bs \<noteq> Panic) \<Longrightarrow> serde_ok (serde_of enc dec) enc"
  by (simp add: serde_ok_def serde_of_def)

definition enc_string :: "string \<Rightarrow> u8 list" where
  "enc_string s = map (\<lambda>c. of_nat (of_char c)) s"

definition dec_string :: "u8 list \<Rightarrow> string" where
  "dec_string bs = map (\<lambda>b. char_of (unat b)) bs"

lemma dec_enc_string [simp]: "dec_string (enc_string s) = s"
proof -
  have "char_of (unat (of_nat (of_char c) :: u8)) = c" for c
  proof -
    have "of_char c < (256 :: nat)" by (rule nat_of_char_less_256)
    then have "unat (of_nat (of_char c) :: u8) = of_char c" by (simp add: unat_of_nat)
    then show ?thesis by simp
  qed
  then show ?thesis by (simp add: dec_string_def enc_string_def comp_def)
qed

fun enc_protocol :: "u64 protocol \<Rightarrow> u8 list" where
  "enc_protocol (AddUser u) = 0 # to_be_bytes (au_key u) @ enc_string (au_name u)"
| "enc_protocol (NewChannel n) =
     1 # to_be_bytes (nc_nonce n) @ to_be_bytes (nc_owner n) @ enc_string (nc_name n)"
| "enc_protocol (ChatMessage c) = 2 # enc_string (chat_text c)"

fun dec_protocol :: "u8 list \<Rightarrow> u64 protocol option" where
  "dec_protocol [] = None"
| "dec_protocol (t # bs) =
     (if t = 0 then Some (AddUser \<lparr>au_name = dec_string (drop 8 bs), au_key = from_be_bytes (take 8 bs)\<rparr>)
      else if t = 1 then Some (NewChannel \<lparr>nc_nonce = from_be_bytes (take 16 bs),
        nc_name = dec_string (drop 24 bs), nc_owner = from_be_bytes (take 8 (drop 16 bs))\<rparr>)
      else Some (ChatMessage \<lparr>chat_text = dec_string bs\<rparr>))"

lemma from_to_be_bytes_u128 [simp]: "from_be_bytes (to_be_bytes (a :: u128)) = a"
  by (rule from_to_be_bytes) simp

lemma dec_enc_protocol [simp]: "dec_protocol (enc_protocol p) = Some p"
  by (cases p) simp_all

definition enc_message :: "u64 protocol message \<Rightarrow> u8 list" where
  "enc_message m = node_id_to_be_bytes (cause m) @ to_be_bytes (sender_last m) @ to_be_bytes (msg_sequence m) @
     enc_protocol (msg_data m)"

definition dec_message :: "u8 list \<Rightarrow> (u64 protocol message, postcard_error) result" where
  "dec_message bs =
     (case dec_protocol (drop 48 bs) of
        None \<Rightarrow> Err (OtherPostcardError 0)
      | Some p \<Rightarrow> Ok \<lparr>cause = NodeId (Id (from_be_bytes (take 32 bs))),
          sender_last = from_be_bytes (take 8 (drop 32 bs)), msg_sequence = from_be_bytes (take 8 (drop 40 bs)),
          msg_data = p\<rparr>)"

lemma node_id_from_bytes [simp]: "NodeId (Id (from_be_bytes (node_id_to_be_bytes n))) = n"
  by (simp add: node_id_to_be_bytes_def id_to_be_bytes_def)

definition message_serde :: "u64 protocol message serde" where
  "message_serde = serde_of enc_message dec_message"

lemma enc_message_nonempty: "enc_message m \<noteq> []"
  by (cases "msg_data m") (simp_all add: enc_message_def)

lemma message_serde_ok: "serde_ok message_serde enc_message"
  unfolding message_serde_def
proof (rule serde_of_ok)
  show "dec_message (enc_message m) = Ok m" for m
    by (simp add: enc_message_def dec_message_def SHA256_SIZE_def)
  show "dec_message bs \<noteq> Panic" for bs by (simp add: dec_message_def split: option.split)
qed (rule enc_message_nonempty)

fun enc_recipient :: "recipient \<Rightarrow> u8 list" where
  "enc_recipient (Node n) = 0 # to_be_bytes (id_data (node_ident n))"
| "enc_recipient (Channel c) = 1 # to_be_bytes (id_data (channel_ident c))"

definition dec_recipient :: "u8 list \<Rightarrow> recipient" where
  "dec_recipient bs =
     (if hd bs = 0 then Node (NodeId (Id (from_be_bytes (tl bs)))) else Channel (ChannelId (Id (from_be_bytes (tl bs)))))"

lemma dec_enc_recipient [simp]: "dec_recipient (enc_recipient r) = r" "length (enc_recipient r) = 33"
  by (cases r; simp add: dec_recipient_def)+

definition mark :: "u8 list \<Rightarrow> u8 list" where
  "mark bs = concat (map (\<lambda>b. [1, b]) bs) @ [0]"

fun unmark :: "u8 list \<Rightarrow> (u8 list \<times> u8 list) option" where
  "unmark (t # b # bs) =
     (if t = 0 then Some ([], b # bs)
      else map_option (\<lambda>(xs, rest). (b # xs, rest)) (unmark bs))"
| "unmark [t] = (if t = 0 then Some ([], []) else None)"
| "unmark [] = None"

lemma unmark_mark [simp]: "unmark (mark bs @ rest) = Some (bs, rest)"
proof (induction bs)
  case Nil
  then show ?case by (cases rest) (simp_all add: mark_def)
next
  case (Cons b bs)
  then show ?case by (simp add: mark_def)
qed

definition enc_envelope :: "sealed_envelope \<Rightarrow> u8 list" where
  "enc_envelope e = node_id_to_be_bytes (env_from e) @ enc_recipient (env_to e) @ mark (env_serialized e) @ env_signature e"

definition dec_envelope :: "u8 list \<Rightarrow> (sealed_envelope, postcard_error) result" where
  "dec_envelope bs =
     (case unmark (drop 65 bs) of
        None \<Rightarrow> Err (OtherPostcardError 0)
      | Some (ser, sig) \<Rightarrow> Ok \<lparr>env_from = NodeId (Id (from_be_bytes (take 32 bs))),
          env_to = dec_recipient (take 33 (drop 32 bs)), env_serialized = ser, env_signature = sig\<rparr>)"

definition envelope_serde :: "sealed_envelope serde" where
  "envelope_serde = serde_of enc_envelope dec_envelope"

lemma envelope_serde_ok: "serde_ok envelope_serde enc_envelope"
proof -
  have "dec_envelope (enc_envelope e) = Ok e" for e
    by (cases e) (simp add: dec_envelope_def enc_envelope_def SHA256_SIZE_def)
  moreover have "enc_envelope e \<noteq> []" for e
    by (simp add: enc_envelope_def mark_def)
  moreover have "dec_envelope bs \<noteq> Panic" for bs by (simp add: dec_envelope_def split: option.split)
  ultimately show ?thesis unfolding envelope_serde_def by (rule serde_of_ok)
qed

definition enc_new_channel :: "u64 new_channel \<Rightarrow> u8 list" where
  "enc_new_channel n = enc_protocol (NewChannel n)"

definition dec_new_channel :: "u8 list \<Rightarrow> (u64 new_channel, postcard_error) result" where
  "dec_new_channel bs =
     (case dec_protocol bs of Some (NewChannel n) \<Rightarrow> Ok n | _ \<Rightarrow> Err (OtherPostcardError 0))"

definition new_channel_serde :: "u64 new_channel serde" where
  "new_channel_serde = serde_of enc_new_channel dec_new_channel"

lemma new_channel_serde_ok: "serde_ok new_channel_serde enc_new_channel"
  unfolding new_channel_serde_def
  by (rule serde_of_ok) (simp_all add: enc_new_channel_def dec_new_channel_def del: dec_protocol.simps
      split: option.split protocol.split, simp)

subsection \<open>Primitives\<close>

definition demo_primitives :: "(nat, u64, u64, u64) primitives" where
  "demo_primitives =
     \<lparr>sha256 = (\<lambda>bs. to_be_bytes (from_be_bytes bs :: 256 word)),
      hkdf_expand = (\<lambda>ikm info. Some (replicate 32 0)), rng_from_seed = (\<lambda>_. 0),
      rng_gen = (\<lambda>n. (of_nat n, Suc n)), to_public_key_der = (\<lambda>k. Some (to_be_bytes k)),
      to_pkcs8_der = (\<lambda>k. Some (to_be_bytes k)), sign_with_rng = (\<lambda>k r h. Some (to_be_bytes k)),
      signature_try_from = (\<lambda>bs. if length bs = 8 then Some (from_be_bytes bs) else None),
      verify = (\<lambda>k h s. s = k), rsa_private_key_new = (\<lambda>r bits. (Some 7, Suc r)), to_public_key = (\<lambda>k. k)\<rparr>"

lemma demo_primitives_ok: "primitives_ok demo_primitives"
  by (simp add: primitives_ok_def demo_primitives_def SHA256_SIZE_def)

abbreviation demo_deps :: "nat \<Rightarrow> (nat rust_crypto, u64, u64, mem_io) deps" where
  "demo_deps SLAB \<equiv>
     app_deps SLAB demo_primitives plain_serde message_serde envelope_serde new_channel_serde 4 2"

definition demo_pair :: "u64 \<Rightarrow> (u64, u64) key_pair" where
  "demo_pair k = \<lparr>kp_public = k, kp_private = k\<rparr>"

lemma demo_matching: "rust_matching demo_primitives message_serde (demo_pair k)"
  using message_serde_ok demo_primitives_ok
  by (auto simp: rust_matching_def demo_pair_def demo_primitives_def)

lemma demo_compute_id: "compute_id (d_crypto (demo_deps SLAB)) k = NodeId (Id (ucast k))"
proof -
  have "be_value (to_be_bytes k) = unat k" for k :: u64
    using be_value_bound [of "to_be_bytes k"] byte_power [where 'a = 64]
    by (simp add: to_be_bytes_def be_value_be_bytes unat_bound [of k, simplified])
  then have "(from_be_bytes (to_be_bytes k) :: 256 word) = ucast k"
    by (simp add: from_be_bytes_def of_nat_unat)
  then show ?thesis
    by (simp add: rust_crypto_trait_def rust_compute_id_def digest_array_def digest_def demo_primitives_def
        SHA256_SIZE_def node_id_new_def id_from_bytes_def)
qed

end
