(* ===== verification/Client_Properties.thy ===== *)
theory Client_Properties
  imports Demo
begin

text \<open>
  The properties of the client over the memory device and the RSA implementation: what sending and
  receiving do on every outcome, that received bytes cannot make a device with room panic, and what a
  message sent by one device does on another. The first part shows when a step goes through to the end.
\<close>

subsection \<open>Steps that go through\<close>

lemma or_return_Panic: "fst (or_return r s k) = Panic \<longleftrightarrow> r = Panic \<or> (\<exists>x. r = Ok x \<and> fst (k x) = Panic)"
  by (cases r) auto

lemma mem_store_ok:
  assumes "mem_holds SLAB SR enc (storage_io st) rss" "length rss < max_index (storage_io st)"
    and "INITIAL_OFFSET + 4 + length (enc r) \<le> SLAB"
  obtains w storage where "get_writer (mem_io_trait SLAB SR) st = Ok w"
    "write_and_commit (mem_io_trait SLAB SR) w (rec_max_sequence r) (rec_message_count r) (rec_sequence r)
      (rec_sender r) (rec_data r) = (Ok (), storage)"
    "max_index (storage_io storage) = max_index (storage_io st)"
  using first_record_fits [OF assms(1,2), of r] assms(3)
  by (auto simp: write_and_commit_def INITIAL_OFFSET_def)

lemma mem_store_no_panic:
  assumes h: "mem_holds SLAB SR enc (storage_io st) rss" and free: "length rss < max_index (storage_io st)"
    and room: "INITIAL_OFFSET + 4 \<le> SLAB"
  obtains w where "get_writer (mem_io_trait SLAB SR) st = Ok w"
    "fst (write_and_commit (mem_io_trait SLAB SR) w m n s nd d) \<noteq> Panic"
proof -
  let ?r = "\<lparr>rec_max_sequence = m, rec_message_count = n, rec_sequence = s, rec_sender = nd, rec_data = d\<rparr>"
  show thesis
  proof (cases "INITIAL_OFFSET + 4 + length (enc ?r) \<le> SLAB")
    case True
    then show thesis
      using mem_store_ok [OF h free True] that by (metis fst_conv result.distinct(3) stored.select_convs(1-5))
  next
    case False
    let ?b = "length rss * SLAB"
    note reg = mem_free_region [OF h free]
    obtain w where w: "get_writer (mem_io_trait SLAB SR) st = Ok w" "w_slab_max_sequence w = 0"
        "w_io w = storage_io st" "w_offset w = ?b + INITIAL_OFFSET" "w_end w = ?b + SLAB"
      using mem_get_writer [OF h reg(2)] by simp
    have "serde_ok SR enc" "length (mem_data (storage_io st)) < usize_limit" using h by (auto simp: mem_holds_def)
    then obtain buf where "mem_write_record SR (storage_io st) (w_offset w) (w_end w) ?r
        = (Err SlabFull, (storage_io st)\<lparr>mem_data := overwrite (mem_data (storage_io st)) (w_offset w + 4) buf\<rparr>)"
      by (rule mem_write_full) (use room False reg w in auto)
    then have "fst (write_and_commit (mem_io_trait SLAB SR) w m n s nd d) \<noteq> Panic"
      using w by (simp add: write_and_commit_def write_record_def mem_io_trait_def)
    with that w(1) show thesis by blast
  qed
qed

lemma do_receive_runs:
  assumes "keys_sorted ns_node (nodes (ch_state ch))" and "map_of (cl_channels self) cid = Some ch"
    and "from_bytes (d_envelopes D) bytes = Ok env" and "channel_keys (ch_state ch) (env_from env) = Some key"
    and "open_envelope (d_crypto D) (cl_crypto self) key env = Ok m"
    and "receive_verdict (clock (ch_state ch)) (env_from env) m = Ok ()"
    and "take_message D ch cid (env_from env) m (envelope_id_of (d_crypto D) (cl_crypto self) env) = (Ok ms, chan)"
    and "get_writer (d_io D) (ch_storage chan) = Ok w"
    and "write_and_commit (d_io D) w ms (message_count (ch_chat chan)) (msg_sequence m) (env_from env) bytes = (Ok (), storage)"
  shows "do_receive D self cid bytes = (Ok (), put_channel cid (chan\<lparr>ch_storage := storage\<rparr>) self)"
  using assms
  by (simp add: do_receive_def find_channel_def get_node_key_lookup check_receive_verdict Let_def)

lemma do_send_runs:
  assumes "keys_sorted ns_node (nodes (ch_state ch))" and "map_of (cl_channels self) cid = Some ch"
    and "address (ch_state ch) (cl_node_id self) data = Ok m"
    and "seal (d_crypto D) (cl_crypto self) (cl_node_id self) (Channel cid) (cl_key_pair self) m (replicate 4096 0)
      = (Ok env, target)"
    and "receive_verdict (clock (ch_state ch)) (cl_node_id self) m = Ok ()"
    and "take_message D ch cid (cl_node_id self) m (envelope_id_of (d_crypto D) (cl_crypto self) env) = (Ok ms, chan)"
    and "get_writer (d_io D) (ch_storage chan) = Ok w"
    and "to_slice (d_envelopes D) env target = (Ok d, target')"
    and "write_and_commit (d_io D) w ms (message_count (ch_chat chan)) (msg_sequence m) (cl_node_id self) d = (Ok (), storage)"
  shows "do_send D self cid data = (Ok (), put_channel cid (chan\<lparr>ch_storage := storage\<rparr>) self)"
  using assms by (simp add: do_send_def find_channel_def check_receive_verdict Let_def)

text \<open>A chat message from a member is taken in whenever the clock allows it.\<close>

lemma take_chat_message:
  assumes inv: "channel_inv (d_max_nodes D) (ch_state ch)" and acc: "acceptable (clock (ch_state ch)) from m"
    and m: "msg_data m = ChatMessage c" and member: "from \<in> members (ch_chat ch)"
    and count: "Suc (unat (message_count (ch_chat ch))) < 2 ^ 64"
  obtains ms ch1 where "take_message D ch cid from m eid = (Ok ms, ch1)" "ch_storage ch1 = ch_storage ch"
proof -
  have "checked_add (chat_message_count (ch_chat ch)) 1 \<noteq> None"
    using count by (simp add: checked_add_def message_count_def)
  then obtain n where n: "checked_add (chat_message_count (ch_chat ch)) 1 = Some n" by blast
  have acc': "accept_message (compute_id (d_crypto D)) (d_max_nodes D) (ch_chat ch) cid from (msg_data m)
      = (Ok (Accept_NewMessage n), (ch_chat ch)\<lparr>chat_message_count := n\<rparr>)"
    using member n by (simp add: accept_message_def m members_iff)
  obtain st' where st': "receive (ch_state ch) from m eid = (Ok (max (current_sequence (ch_state ch)) (msg_sequence m)), st')"
    using receive_effect [OF inv acc] by metis
  show thesis
    by (rule that [of "max (current_sequence (ch_state ch)) (msg_sequence m)"
          "ch\<lparr>ch_chat := (ch_chat ch)\<lparr>chat_message_count := n\<rparr>, ch_state := st'\<rparr>"])
      (simp_all add: take_message_def acc' st' remember_key_def)
qed

subsection \<open>Two devices in a channel\<close>

text \<open>Devices 7 and 9 know each other in channel 3, nothing has been sent, and 7 owns the chat.\<close>

definition demo_state :: "u64 channel_state" where
  "demo_state = \<lparr>nodes = [new_record (NodeId (Id 7)) 7, new_record (NodeId (Id 9)) 9], newest = NodeId (Id 7)\<rparr>"

definition demo_chat :: "u64 chat" where
  "demo_chat = \<lparr>chat_id = ChannelId (Id 3), owner_id = Some (NodeId (Id 7)),
     users = [(NodeId (Id 7), 7), (NodeId (Id 9), 9)], chat_message_count = 0\<rparr>"

definition demo_channel :: "mem_io storage \<Rightarrow> (u64, mem_io) channel" where
  "demo_channel st = \<lparr>ch_state = demo_state, ch_storage = st, ch_chat = demo_chat\<rparr>"

definition demo_client :: "u64 \<Rightarrow> mem_io storage \<Rightarrow> (nat rust_crypto, u64, u64, mem_io) client" where
  "demo_client k st = \<lparr>cl_crypto = \<lparr>rng = 0\<rparr>, cl_node_id = NodeId (Id (ucast k)), cl_key_pair = demo_pair k,
     cl_channels = [(ChannelId (Id 3), demo_channel st)]\<rparr>"

definition demo_message :: "u64 protocol message" where
  "demo_message = \<lparr>cause = NodeId (Id 7), sender_last = 0, msg_sequence = 1,
     msg_data = ChatMessage \<lparr>chat_text = ''hi''\<rparr>\<rparr>"

definition demo_envelope :: sealed_envelope where
  "demo_envelope = \<lparr>env_from = NodeId (Id 7), env_to = Channel (ChannelId (Id 3)),
     env_serialized = enc_message demo_message, env_signature = to_be_bytes (7 :: u64)\<rparr>"

abbreviation demo_holds :: "mem_io \<Rightarrow> stored list list \<Rightarrow> bool" where
  "demo_holds \<equiv> mem_holds 2000 plain_serde plain_enc"

lemma demo_client_simps [simp]:
  "cl_node_id (demo_client 7 st) = NodeId (Id 7)" "cl_node_id (demo_client 9 st) = NodeId (Id 9)"
  "cl_key_pair (demo_client k st) = demo_pair k"
  "map_of (cl_channels (demo_client k st)) (ChannelId (Id 3)) = Some (demo_channel st)"
  "ch_state (demo_channel st) = demo_state" "ch_storage (demo_channel st) = st"
  "ch_chat (demo_channel st) = demo_chat"
  by (simp_all add: demo_client_def demo_channel_def)

lemma demo_state_inv: "channel_inv 4 demo_state"
  by (simp add: channel_inv_def demo_state_def not_newer_def less_node_id_def less_ident_def)

lemma demo_clock: "clock demo_state = [NodeId (Id 7) \<mapsto> 0, NodeId (Id 9) \<mapsto> 0]"
  "channel_keys demo_state = [NodeId (Id 7) \<mapsto> 7, NodeId (Id 9) \<mapsto> 9]"
  by (auto simp: clock_def channel_keys_def node_record_def keyed_def demo_state_def fun_eq_iff)

lemma demo_channel_ok:
  assumes "demo_holds (storage_io st) []"
  shows "channel_ok (demo_deps 2000) demo_holds (demo_channel st) []"
  using assms demo_state_inv demo_compute_id [of 2000 7] demo_compute_id [of 2000 9]
  by (simp add: channel_ok_def chat_inv_def log_ok_def demo_chat_def)

lemma demo_storage:
  obtains st :: "mem_io storage" where "demo_holds (storage_io st) []" "max_index (storage_io st) = 2"
proof -
  obtain io where "mem_io_new 2000 (replicate 4000 0) = Ok io" "demo_holds io []"
    using mem_io_new_holds [OF plain_serde_ok, of 2000 4000] by (auto simp: INITIAL_OFFSET_def usize_limit_def)
  then show thesis
    by (intro that [of "storage_new io"]) (auto simp: storage_new_def mem_io_new_def checked_div_def)
qed

lemma demo_newest: "newest demo_state = NodeId (Id 7)"
  by (simp add: demo_state_def)

lemma demo_current: "current_sequence demo_state = 0"
  by (simp add: current_sequence_def demo_newest demo_clock known_sequence_def)

lemma demo_address: "address demo_state (NodeId (Id 7)) (ChatMessage \<lparr>chat_text = ''hi''\<rparr>) = Ok demo_message"
  unfolding address_spec [OF demo_state_inv] demo_clock demo_current demo_newest
  by (simp add: checked_add_def demo_message_def)

lemma demo_verdict: "receive_verdict (clock demo_state) (NodeId (Id 7)) demo_message = Ok ()"
  "acceptable (clock demo_state) (NodeId (Id 7)) demo_message"
  by (simp_all add: receive_verdict_def acceptable_def demo_clock demo_message_def known_sequence_def saturating_sub_def)

lemma demo_lengths: "length (enc_message demo_message) = 51" "length (enc_envelope demo_envelope) = 176"
proof -
  show m: "length (enc_message demo_message) = 51"
    by (simp add: enc_message_def demo_message_def SHA256_SIZE_def enc_string_def)
  have "length (mark bs) = Suc (2 * length bs)" for bs
    by (induction bs) (simp_all add: mark_def)
  then show "length (enc_envelope demo_envelope) = 176"
    by (simp add: enc_envelope_def demo_envelope_def m SHA256_SIZE_def)
qed

lemma demo_seal_any:
  assumes "length (enc_message m) \<le> MAX_ENVELOPE"
  shows "seal (d_crypto (demo_deps SLAB)) c from to (demo_pair k) m (replicate 4096 0)
    = (Ok \<lparr>env_from = from, env_to = to, env_serialized = enc_message m, env_signature = to_be_bytes k\<rparr>,
       overwrite (replicate 4096 0) 0 (enc_message m))"
proof -
  have "to_slice message_serde m (replicate 4096 0)
      = (Ok (enc_message m), overwrite (replicate 4096 0) 0 (enc_message m))"
    by (rule serde_to_slice_fits [OF message_serde_ok]) (use assms in \<open>simp add: MAX_ENVELOPE_def\<close>)
  then show ?thesis
    using assms
    by (simp add: rust_crypto_trait_def rust_seal_def digest_array_def digest_def demo_primitives_def
        SHA256_SIZE_def sealed_envelope_new_def vec_from_slice_def MAX_SIG_def demo_pair_def)
qed

lemma demo_seal:
  "seal (d_crypto (demo_deps SLAB)) c (NodeId (Id 7)) (Channel (ChannelId (Id 3))) (demo_pair 7) demo_message
      (replicate 4096 0)
    = (Ok demo_envelope, overwrite (replicate 4096 0) 0 (enc_message demo_message))"
  using demo_seal_any [of demo_message] by (simp add: demo_lengths MAX_ENVELOPE_def MAX_SIG_def demo_envelope_def)

lemma demo_opens: "open_envelope (d_crypto (demo_deps 2000)) c 7 demo_envelope = Ok demo_message"
  using rust.open_sealed(2) [OF demo_matching demo_seal [unfolded app_deps_simps], of 7]
  by (simp add: demo_pair_def)

lemma demo_member: "NodeId (Id 7) \<in> members demo_chat"
  by (simp add: members_def demo_chat_def)

lemma demo_log_written:
  assumes "demo_holds (storage_io st) []" "max_index (storage_io st) = 2"
  shows "\<exists>w storage. get_writer (mem_io_trait 2000 plain_serde) st = Ok w \<and>
    write_and_commit (mem_io_trait 2000 plain_serde) w m n s (NodeId (Id 7)) (enc_envelope demo_envelope) = (Ok (), storage)"
proof -
  let ?r = "\<lparr>rec_max_sequence = m, rec_message_count = n, rec_sequence = s, rec_sender = NodeId (Id 7),
    rec_data = enc_envelope demo_envelope\<rparr>"
  have free: "length ([] :: stored list list) < max_index (storage_io st)" using assms(2) by simp
  have "INITIAL_OFFSET + 4 + length (plain_enc ?r) \<le> 2000"
    by (simp add: length_plain_enc demo_lengths INITIAL_OFFSET_def)
  then show ?thesis by (rule mem_store_ok [OF assms(1) free]) auto
qed

lemma demo_taken:
  obtains ms ch1 where "take_message (demo_deps 2000) (demo_channel st) (ChannelId (Id 3)) (NodeId (Id 7)) demo_message eid
    = (Ok ms, ch1)" "ch_storage ch1 = st"
proof -
  have inv: "channel_inv (d_max_nodes (demo_deps 2000)) (ch_state (demo_channel st))" by (simp add: demo_state_inv)
  have "Suc (unat (message_count (ch_chat (demo_channel st)))) < 2 ^ 64"
    by (simp add: message_count_def demo_chat_def)
  moreover have "msg_data demo_message = ChatMessage \<lparr>chat_text = ''hi''\<rparr>" by (simp add: demo_message_def)
  ultimately show thesis
    using take_chat_message [OF inv, of "NodeId (Id 7)" demo_message] demo_verdict(2) demo_member that
    by (metis demo_client_simps(5,6,7))
qed

lemma demo_send_ok:
  assumes "demo_holds (storage_io st) []" "max_index (storage_io st) = 2"
  obtains self' where "do_send (demo_deps 2000) (demo_client 7 st) (ChannelId (Id 3))
    (ChatMessage \<lparr>chat_text = ''hi''\<rparr>) = (Ok (), self')"
proof -
  let ?D = "demo_deps 2000" and ?ch = "demo_channel st"
  obtain ms ch1 where taken: "take_message ?D ?ch (ChannelId (Id 3)) (NodeId (Id 7)) demo_message
      (envelope_id_of (d_crypto ?D) (cl_crypto (demo_client 7 st)) demo_envelope) = (Ok ms, ch1)" "ch_storage ch1 = st"
    by (rule demo_taken)
  obtain w storage where w: "get_writer (mem_io_trait 2000 plain_serde) st = Ok w"
      "write_and_commit (mem_io_trait 2000 plain_serde) w ms (message_count (ch_chat ch1)) (msg_sequence demo_message)
        (NodeId (Id 7)) (enc_envelope demo_envelope) = (Ok (), storage)"
    using demo_log_written [OF assms] by blast
  let ?t = "overwrite (replicate 4096 0) 0 (enc_message demo_message)"
  have "to_slice envelope_serde demo_envelope ?t = (Ok (enc_envelope demo_envelope), overwrite ?t 0 (enc_envelope demo_envelope))"
    by (rule serde_to_slice_fits [OF envelope_serde_ok]) (simp add: demo_lengths)
  then show thesis
    using that do_send_runs [where D = ?D and self = "demo_client 7 st" and ch = ?ch and cid = "ChannelId (Id 3)"
        and m = demo_message and env = demo_envelope and ms = ms and chan = ch1 and w = w and storage = storage
        and d = "enc_envelope demo_envelope"]
      channel_inv_sorted [OF demo_state_inv] demo_address demo_seal demo_verdict(1) taken w
    by (simp del: length_overwrite)
qed

lemma demo_receive_ok:
  assumes "demo_holds (storage_io st) []" "max_index (storage_io st) = 2"
  obtains self' where "do_receive (demo_deps 2000) (demo_client 9 st) (ChannelId (Id 3)) (enc_envelope demo_envelope)
    = (Ok (), self')"
proof -
  let ?D = "demo_deps 2000" and ?ch = "demo_channel st" and ?self = "demo_client 9 st"
  obtain ms ch1 where taken: "take_message ?D ?ch (ChannelId (Id 3)) (NodeId (Id 7)) demo_message
      (envelope_id_of (d_crypto ?D) (cl_crypto ?self) demo_envelope) = (Ok ms, ch1)" "ch_storage ch1 = st"
    by (rule demo_taken)
  obtain w storage where w: "get_writer (mem_io_trait 2000 plain_serde) st = Ok w"
      "write_and_commit (mem_io_trait 2000 plain_serde) w ms (message_count (ch_chat ch1)) (msg_sequence demo_message)
        (NodeId (Id 7)) (enc_envelope demo_envelope) = (Ok (), storage)"
    using demo_log_written [OF assms] by blast
  have "env_from demo_envelope = NodeId (Id 7)" by (simp add: demo_envelope_def)
  moreover have "from_bytes envelope_serde (enc_envelope demo_envelope) = Ok demo_envelope"
    by (rule serde_from_bytes [OF envelope_serde_ok])
  ultimately show thesis
    using that do_receive_runs [where D = ?D and self = ?self and ch = ?ch and cid = "ChannelId (Id 3)"
        and m = demo_message and env = demo_envelope and ms = ms and chan = ch1 and w = w and storage = storage
        and bytes = "enc_envelope demo_envelope" and key = 7]
      channel_inv_sorted [OF demo_state_inv] demo_opens demo_verdict(1) taken w
    by (simp add: demo_clock)
qed

subsection \<open>Properties of sending and receiving\<close>

text \<open>
  C18. Every outcome of \<^verbatim>\<open>do_send\<close> on a channel whose state, chat and log are in order. If it succeeds,
  the message carries the data, the next sequence and the newest sender as its cause, it was sealed
  with the device's keys, and the channel has moved on by exactly this message: its clock, its keys and
  one more record at the end of the log with the bytes of the envelope. If it fails, the log is as it
  was, and nothing at all has changed unless the new user could not be added or the storage failed.
\<close>

theorem do_send_effect:
  assumes "D = app_deps SLAB P SR SM SE SN M MC"
    and "map_of (cl_channels self) cid = Some ch" and "channel_ok D (mem_holds SLAB SR enc) ch rss"
    and "do_send D self cid data = (r, self')"
  shows "case r of
      Ok _ \<Rightarrow> \<exists>m env target d target' ch'. msg_data m = data \<and> cause m = newest (ch_state ch) \<and>
        unat (msg_sequence m) = Suc (unat (current_sequence (ch_state ch))) \<and>
        acceptable (clock (ch_state ch)) (cl_node_id self) m \<and>
        seal (d_crypto D) (cl_crypto self) (cl_node_id self) (Channel cid) (cl_key_pair self) m
          (replicate 4096 0) = (Ok env, target) \<and>
        to_slice (d_envelopes D) env target = (Ok d, target') \<and>
        self' = put_channel cid ch' self \<and>
        advanced D (mem_holds SLAB SR enc) ch rss (cl_node_id self) m d ch'
    | Err e \<Rightarrow> failed D (mem_holds SLAB SR enc) self cid rss e self'
    | Panic \<Rightarrow> True"
  using app.do_send_cases [OF assms(2) assms(3,4) [unfolded assms(1)]] unfolding assms(1) .

theorem do_send_effect_witness:
  "\<exists>st self' ch' m d. do_send (demo_deps 2000) (demo_client 7 st) (ChannelId (Id 3)) (ChatMessage \<lparr>chat_text = ''hi''\<rparr>)
      = (Ok (), self') \<and> map_of (cl_channels self') (ChannelId (Id 3)) = Some ch' \<and> msg_sequence m = 1 \<and>
    advanced (demo_deps 2000) demo_holds (demo_channel st) [] (NodeId (Id 7)) m d ch'"
proof -
  obtain st :: "mem_io storage" where st: "demo_holds (storage_io st) []" "max_index (storage_io st) = 2"
    by (rule demo_storage)
  obtain self' where sent: "do_send (demo_deps 2000) (demo_client 7 st) (ChannelId (Id 3))
      (ChatMessage \<lparr>chat_text = ''hi''\<rparr>) = (Ok (), self')"
    by (rule demo_send_ok [OF st])
  from do_send_effect [OF refl demo_client_simps(4) demo_channel_ok [OF st(1)] sent]
  obtain m d ch' where *: "unat (msg_sequence m) = Suc (unat (current_sequence demo_state))"
      "self' = put_channel (ChannelId (Id 3)) ch' (demo_client 7 st)"
      "advanced (demo_deps 2000) demo_holds (demo_channel st) [] (NodeId (Id 7)) m d ch'"
    by auto
  then have "unat (msg_sequence m) = unat (1 :: u64)" by (simp add: demo_current)
  then have "msg_sequence m = 1" by (simp only: word_unat_eq_iff)
  moreover have "map_of (cl_channels self') (ChannelId (Id 3)) = Some ch'"
    using *(2) by (simp add: map_of_put_channel)
  ultimately show ?thesis using sent *(3) by blast
qed

text \<open>
  C17. Every outcome of \<^verbatim>\<open>do_receive\<close>. If it succeeds, the bytes are an envelope of a known node that
  opened under that node's key to a message the clock allows, and the channel has moved on by exactly
  this message, with the received bytes at the end of the log. If it fails, the log is as it was, and
  nothing at all has changed unless the new user could not be added or the storage failed.
\<close>

theorem do_receive_effect:
  assumes "D = app_deps SLAB P SR SM SE SN M MC"
    and "map_of (cl_channels self) cid = Some ch" and "channel_ok D (mem_holds SLAB SR enc) ch rss"
    and "do_receive D self cid bytes = (r, self')"
  shows "case r of
      Ok _ \<Rightarrow> \<exists>env key m ch'. from_bytes (d_envelopes D) bytes = Ok env \<and>
        channel_keys (ch_state ch) (env_from env) = Some key \<and>
        open_envelope (d_crypto D) (cl_crypto self) key env = Ok m \<and>
        acceptable (clock (ch_state ch)) (env_from env) m \<and>
        self' = put_channel cid ch' self \<and>
        advanced D (mem_holds SLAB SR enc) ch rss (env_from env) m bytes ch'
    | Err e \<Rightarrow> failed D (mem_holds SLAB SR enc) self cid rss e self'
    | Panic \<Rightarrow> True"
  using app.do_receive_cases [OF assms(2) assms(3,4) [unfolded assms(1)]] unfolding assms(1) .

theorem do_receive_effect_witness:
  "\<exists>st self' ch' m. do_receive (demo_deps 2000) (demo_client 9 st) (ChannelId (Id 3)) (enc_envelope demo_envelope)
      = (Ok (), self') \<and> map_of (cl_channels self') (ChannelId (Id 3)) = Some ch' \<and>
    advanced (demo_deps 2000) demo_holds (demo_channel st) [] (NodeId (Id 7)) m (enc_envelope demo_envelope) ch'"
proof -
  obtain st :: "mem_io storage" where st: "demo_holds (storage_io st) []" "max_index (storage_io st) = 2"
    by (rule demo_storage)
  obtain self' where received: "do_receive (demo_deps 2000) (demo_client 9 st) (ChannelId (Id 3))
      (enc_envelope demo_envelope) = (Ok (), self')"
    by (rule demo_receive_ok [OF st])
  have "from_bytes envelope_serde (enc_envelope demo_envelope) = Ok demo_envelope"
    by (rule serde_from_bytes [OF envelope_serde_ok])
  moreover have "env_from demo_envelope = NodeId (Id 7)" by (simp add: demo_envelope_def)
  ultimately obtain m ch' where *: "self' = put_channel (ChannelId (Id 3)) ch' (demo_client 9 st)"
      "advanced (demo_deps 2000) demo_holds (demo_channel st) [] (NodeId (Id 7)) m (enc_envelope demo_envelope) ch'"
    using do_receive_effect [OF refl demo_client_simps(4) demo_channel_ok [OF st(1)] received] by auto
  then have "map_of (cl_channels self') (ChannelId (Id 3)) = Some ch'" by (simp add: map_of_put_channel)
  then show ?thesis using received *(2) by blast
qed

text \<open>
  C19. Receiving is idempotent: the bytes of a message that a device has received are refused from then
  on as already received, and the refusal leaves the device unchanged.
\<close>

theorem duplicate_refused:
  assumes "D = app_deps SLAB P SR SM SE SN M MC"
    and "map_of (cl_channels self) cid = Some ch" and "channel_ok D (mem_holds SLAB SR enc) ch rss"
    and "do_receive D self cid bytes = (Ok (), self')"
  shows "do_receive D self' cid bytes = (Err (ChannelError AlreadyReceived), self')"
  using app.received_again [OF assms(2) assms(3,4) [unfolded assms(1)]] unfolding assms(1) .

theorem duplicate_refused_witness:
  "\<exists>st self'. do_receive (demo_deps 2000) (demo_client 9 st) (ChannelId (Id 3)) (enc_envelope demo_envelope)
      = (Ok (), self') \<and>
    do_receive (demo_deps 2000) self' (ChannelId (Id 3)) (enc_envelope demo_envelope)
      = (Err (ChannelError AlreadyReceived), self')"
proof -
  obtain st :: "mem_io storage" where st: "demo_holds (storage_io st) []" "max_index (storage_io st) = 2"
    by (rule demo_storage)
  obtain self' where received: "do_receive (demo_deps 2000) (demo_client 9 st) (ChannelId (Id 3))
      (enc_envelope demo_envelope) = (Ok (), self')"
    by (rule demo_receive_ok [OF st])
  from duplicate_refused [OF refl demo_client_simps(4) demo_channel_ok [OF st(1)] received] received
  show ?thesis by blast
qed

text \<open>
  C20. No bytes that a device receives can make it panic, as long as its store has a free slab that can
  hold the header of a record: whatever the bytes are, \<^verbatim>\<open>do_receive\<close> ends with success or an error.
\<close>

theorem receive_never_panics:
  assumes "D = app_deps SLAB P SR SM SE SN M MC" and "serde_ok SE enc_env"
    and "rust_matching P SM (cl_key_pair self)"
    and "map_of (cl_channels self) cid = Some ch" and "channel_ok D (mem_holds SLAB SR enc) ch rss"
    and "length rss < max_index (storage_io (ch_storage ch))" and "INITIAL_OFFSET + 4 \<le> SLAB"
  shows "fst (do_receive D self cid bytes) \<noteq> Panic"
proof
  assume panic: "fst (do_receive D self cid bytes) = Panic"
  have inv: "channel_inv M (ch_state ch)" "chat_inv (compute_id (rust_crypto_trait P SM)) M (ch_chat ch)"
      "mem_holds SLAB SR enc (storage_io (ch_storage ch)) rss"
    using assms(1,5) by (auto simp: channel_ok_def)
  note sorted = channel_inv_sorted [OF inv(1)]
  obtain env key m where "open_envelope (rust_crypto_trait P SM) (cl_crypto self) key env = Ok m"
    and verdict: "receive_verdict (clock (ch_state ch)) (env_from env) m = Ok ()"
    and rest: "\<exists>eid. fst (let (taken, channel) = take_message D ch cid (env_from env) m eid in
      or_return taken (put_channel cid channel self) (\<lambda>max_sequence.
      or_return (map_err StorageError (get_writer (d_io D) (ch_storage channel)))
        (put_channel cid channel self) (\<lambda>slab_writer.
      let (stored, storage) = write_and_commit (d_io D) slab_writer max_sequence (message_count (ch_chat channel))
            (msg_sequence m) (env_from env) bytes in
      or_return stored (put_channel cid (channel\<lparr>ch_storage := storage\<rparr>) self)
        (\<lambda>_. (Ok (), put_channel cid (channel\<lparr>ch_storage := storage\<rparr>) self))))) = Panic"
    using panic serde_no_panic [OF assms(2)] rust.open_no_panic [OF assms(3)] assms(4)
    unfolding do_receive_def
    by (auto simp: assms(1) or_return_Panic result_simps find_channel_def get_node_key_lookup [OF sorted]
        check_receive_verdict [OF sorted] Let_def)
  obtain eid where rest: "fst (let (taken, channel) = take_message D ch cid (env_from env) m eid in
      or_return taken (put_channel cid channel self) (\<lambda>max_sequence.
      or_return (map_err StorageError (get_writer (d_io D) (ch_storage channel)))
        (put_channel cid channel self) (\<lambda>slab_writer.
      let (stored, storage) = write_and_commit (d_io D) slab_writer max_sequence (message_count (ch_chat channel))
            (msg_sequence m) (env_from env) bytes in
      or_return stored (put_channel cid (channel\<lparr>ch_storage := storage\<rparr>) self)
        (\<lambda>_. (Ok (), put_channel cid (channel\<lparr>ch_storage := storage\<rparr>) self))))) = Panic"
    using rest by blast
  obtain taken ch1 where taken: "take_message D ch cid (env_from env) m eid = (taken, ch1)" by fastforce
  have acc: "acceptable (clock (ch_state ch)) (env_from env) m" using verdict by (simp add: receive_verdict_Ok)
  have kept: "ch_storage ch1 = ch_storage ch" and no_panic: "taken \<noteq> Panic"
    using take_message_cases [of D ch "env_from env" m cid eid taken ch1] inv acc taken
    by (auto simp: assms(1))
  have dev: "d_io D = mem_io_trait SLAB SR" by (simp add: assms(1))
  show False
  proof (cases taken)
    case (Ok ms)
    obtain w where "get_writer (mem_io_trait SLAB SR) (ch_storage ch) = Ok w"
        "fst (write_and_commit (mem_io_trait SLAB SR) w ms (message_count (ch_chat ch1)) (msg_sequence m)
          (env_from env) bytes) \<noteq> Panic"
      by (rule mem_store_no_panic [OF inv(3) assms(6,7)])
    then show False
      using rest taken kept dev
      by (simp add: Ok or_return_Panic case_prod_unfold Let_def)
  qed (use rest taken no_panic in auto)
qed

theorem receive_never_panics_witness:
  "\<exists>st. \<forall>bytes. fst (do_receive (demo_deps 2000) (demo_client 9 st) (ChannelId (Id 3)) bytes) \<noteq> Panic"
proof -
  obtain st :: "mem_io storage" where st: "demo_holds (storage_io st) []" "max_index (storage_io st) = 2"
    by (rule demo_storage)
  have "rust_matching demo_primitives message_serde (cl_key_pair (demo_client 9 st))" by (simp add: demo_matching)
  moreover have "length ([] :: stored list list) < max_index (storage_io (ch_storage (demo_channel st)))"
    "INITIAL_OFFSET + 4 \<le> 2000" using st by (simp_all add: INITIAL_OFFSET_def)
  ultimately have "fst (do_receive (demo_deps 2000) (demo_client 9 st) (ChannelId (Id 3)) bytes) \<noteq> Panic" for bytes
    by (intro receive_never_panics [OF refl envelope_serde_ok _ demo_client_simps(4) demo_channel_ok [OF st(1)]])
  then show ?thesis by blast
qed

end
