(* ===== verification/Client_Exchange.thy ===== *)
theory Client_Exchange
  imports Client_Properties
begin

text \<open>
  Properties that involve two devices: a message sent by one is received by the other, and how such an
  exchange goes wrong although nobody misbehaves.
\<close>

lemma address_acceptable:
  assumes inv: "channel_inv M st" and addr: "address st from data = Ok m"
  shows "acceptable (clock st) from m" "msg_data m = data"
    "unat (msg_sequence m) = Suc (unat (current_sequence st))"
proof -
  obtain sent sq where m: "clock st from = Some sent" "checked_add (current_sequence st) 1 = Some sq"
      "m = \<lparr>cause = newest st, sender_last = sent, msg_sequence = sq, msg_data = data\<rparr>"
    using addr unfolding address_spec [OF inv] by (auto simp: result_simps split: option.splits)
  have sq: "unat sq = Suc (unat (current_sequence st))" using checked_add_Some [OF m(2)] by simp
  have "sent \<le> current_sequence st" by (rule clock_le_current [OF inv m(1)])
  then have "sent < sq" using sq by (simp add: word_le_nat_alt word_less_nat_alt)
  then show "acceptable (clock st) from m" using m(1) sq by (simp add: acceptable_def m(3) current_sequence_def)
  show "msg_data m = data" "unat (msg_sequence m) = Suc (unat (current_sequence st))" using sq by (simp_all add: m(3))
qed

text \<open>
  C3. A chat message that one device sends is received by any other device of the channel: one that
  knows the sender's key, counts it among the members, has the same clock as the sender had and has a
  free slab, of a size that takes every envelope the client can seal. The bytes in the sender's log open there to the message that was sent, and both
  devices have moved on by the same message.
\<close>

theorem sent_message_received:
  assumes D: "D = app_deps SLAB P SR SM SE SN M MC" and envs: "serde_ok SE enc_env"
    and keys: "rust_matching P SM (cl_key_pair a)"
    and a: "map_of (cl_channels a) cid = Some ch" "channel_ok D (mem_holds SLAB SR enc) ch rss"
    and sent: "do_send D a cid (ChatMessage c) = (Ok (), a')"
    and b: "map_of (cl_channels b) cid = Some peer" "channel_ok D (mem_holds SLAB SR enc) peer rssb"
    and known: "channel_keys (ch_state peer) (cl_node_id a) = Some (kp_public (cl_key_pair a))"
    and member: "cl_node_id a \<in> members (ch_chat peer)" "Suc (unat (message_count (ch_chat peer))) < 2 ^ 64"
    and same: "clock (ch_state peer) = clock (ch_state ch)"
    and room: "length rssb < max_index (storage_io (ch_storage peer))"
    and fits: "\<forall>e r. length (env_serialized e) \<le> MAX_ENVELOPE \<and> length (env_signature e) \<le> MAX_SIG \<and>
      rec_data r = enc_env e \<longrightarrow> INITIAL_OFFSET + 4 + length (enc r) \<le> SLAB"
  shows "\<exists>m d ch' peer'. msg_data m = ChatMessage c \<and>
    a' = put_channel cid ch' a \<and> advanced D (mem_holds SLAB SR enc) ch rss (cl_node_id a) m d ch' \<and>
    do_receive D b cid d = (Ok (), put_channel cid peer' b) \<and>
    advanced D (mem_holds SLAB SR enc) peer rssb (cl_node_id a) m d peer'"
proof -
  obtain m env target d target' ch' where m: "msg_data m = ChatMessage c"
      "acceptable (clock (ch_state ch)) (cl_node_id a) m"
    and sealed: "seal (d_crypto D) (cl_crypto a) (cl_node_id a) (Channel cid) (cl_key_pair a) m (replicate 4096 0)
      = (Ok env, target)"
    and ser: "to_slice SE env target = (Ok d, target')"
    and a': "a' = put_channel cid ch' a" "advanced D (mem_holds SLAB SR enc) ch rss (cl_node_id a) m d ch'"
    using app.do_send_cases [OF a(1) a(2) [unfolded D] sent [unfolded D]] unfolding D [symmetric]
    by (auto simp: D)
  note sealed' = sealed [unfolded D app_deps_simps]
  have env: "env_from env = cl_node_id a" "length (env_serialized env) \<le> MAX_ENVELOPE"
      "length (env_signature env) \<le> MAX_SIG"
    using rust.seal_fields [OF keys sealed'] by simp_all
  have opened: "open_envelope (d_crypto D) (cl_crypto b) (kp_public (cl_key_pair a)) env = Ok m"
    using rust.open_sealed(2) [OF keys sealed' refl] by (simp add: D)
  have d: "d = enc_env env" "from_bytes SE d = Ok env"
    using serde_to_slice_cases(1) [OF envs ser] envs by simp_all
  have inv: "channel_inv (d_max_nodes D) (ch_state peer)" "mem_holds SLAB SR enc (storage_io (ch_storage peer)) rssb"
    using b(2) by (auto simp: channel_ok_def)
  have acc: "acceptable (clock (ch_state peer)) (cl_node_id a) m" using m(2) same by simp
  obtain ms taken_ch where taken: "take_message D peer cid (cl_node_id a) m (envelope_id_of (d_crypto D) (cl_crypto b) env)
      = (Ok ms, taken_ch)" "ch_storage taken_ch = ch_storage peer"
    by (rule take_chat_message [OF inv(1) acc m(1) member])
  let ?r = "\<lparr>rec_max_sequence = ms, rec_message_count = message_count (ch_chat taken_ch), rec_sequence = msg_sequence m,
    rec_sender = cl_node_id a, rec_data = d\<rparr>"
  have "INITIAL_OFFSET + 4 + length (enc ?r) \<le> SLAB" using fits env(2,3) d(1) by simp
  then obtain w storage where w: "get_writer (mem_io_trait SLAB SR) (ch_storage peer) = Ok w"
      "write_and_commit (mem_io_trait SLAB SR) w ms (message_count (ch_chat taken_ch)) (msg_sequence m) (cl_node_id a) d
        = (Ok (), storage)"
    using mem_store_ok [OF inv(2) room, of ?r] by (metis stored.select_convs(1-5))
  have got: "do_receive D b cid d = (Ok (), put_channel cid (taken_ch\<lparr>ch_storage := storage\<rparr>) b)"
    by (rule do_receive_runs [OF channel_inv_sorted [OF inv(1)] b(1), where env = env and key = "kp_public (cl_key_pair a)"
          and m = m and ms = ms and w = w])
      (use d(2) known opened acc taken w in \<open>simp_all add: D env(1) flip: receive_verdict_Ok\<close>)
  obtain peer' where "put_channel cid (taken_ch\<lparr>ch_storage := storage\<rparr>) b = put_channel cid peer' b"
      "advanced D (mem_holds SLAB SR enc) peer rssb (cl_node_id a) m d peer'"
    using app.do_receive_cases [OF b(1) b(2) [unfolded D] got [unfolded D]] d(2) known opened env(1)
    unfolding D [symmetric] by (auto simp: D)
  then show ?thesis using m(1) a' got by metis
qed

theorem sent_message_received_witness:
  "\<exists>sta stb a' m d ch' peer'.
    do_send (demo_deps 2000) (demo_client 7 sta) (ChannelId (Id 3)) (ChatMessage \<lparr>chat_text = ''hi''\<rparr>) = (Ok (), a') \<and>
    msg_data m = ChatMessage \<lparr>chat_text = ''hi''\<rparr> \<and>
    advanced (demo_deps 2000) demo_holds (demo_channel sta) [] (NodeId (Id 7)) m d ch' \<and>
    do_receive (demo_deps 2000) (demo_client 9 stb) (ChannelId (Id 3)) d
      = (Ok (), put_channel (ChannelId (Id 3)) peer' (demo_client 9 stb))"
proof -
  obtain sta :: "mem_io storage" where sta: "demo_holds (storage_io sta) []" "max_index (storage_io sta) = 2"
    by (rule demo_storage)
  obtain stb :: "mem_io storage" where stb: "demo_holds (storage_io stb) []" "max_index (storage_io stb) = 2"
    by (rule demo_storage)
  obtain a' where sent: "do_send (demo_deps 2000) (demo_client 7 sta) (ChannelId (Id 3))
      (ChatMessage \<lparr>chat_text = ''hi''\<rparr>) = (Ok (), a')"
    by (rule demo_send_ok [OF sta])
  have mark: "length (mark bs) = Suc (2 * length bs)" for bs
    by (induction bs) (simp_all add: mark_def)
  have "\<forall>e r. length (env_serialized e) \<le> MAX_ENVELOPE \<and> length (env_signature e) \<le> MAX_SIG \<and>
      rec_data r = enc_envelope e \<longrightarrow> INITIAL_OFFSET + 4 + length (plain_enc r) \<le> 2000"
    by (auto simp: length_plain_enc enc_envelope_def mark SHA256_SIZE_def INITIAL_OFFSET_def MAX_ENVELOPE_def MAX_SIG_def)
  moreover have "channel_keys (ch_state (demo_channel stb)) (cl_node_id (demo_client 7 sta))
      = Some (kp_public (cl_key_pair (demo_client 7 sta)))" by (simp add: demo_clock demo_pair_def)
  moreover have "rust_matching demo_primitives message_serde (cl_key_pair (demo_client 7 sta))" by (simp add: demo_matching)
  moreover have "cl_node_id (demo_client 7 sta) \<in> members (ch_chat (demo_channel stb))"
    "Suc (unat (message_count (ch_chat (demo_channel stb)))) < 2 ^ 64"
    "length ([] :: stored list list) < max_index (storage_io (ch_storage (demo_channel stb)))"
    using stb(2) demo_member by (simp, simp add: message_count_def demo_chat_def, simp)
  ultimately obtain m d ch' peer' where
      "msg_data m = ChatMessage \<lparr>chat_text = ''hi''\<rparr>"
      "advanced (demo_deps 2000) demo_holds (demo_channel sta) [] (NodeId (Id 7)) m d ch'"
      "do_receive (demo_deps 2000) (demo_client 9 stb) (ChannelId (Id 3)) d
        = (Ok (), put_channel (ChannelId (Id 3)) peer' (demo_client 9 stb))"
    using sent_message_received [OF refl envelope_serde_ok _ demo_client_simps(4) demo_channel_ok [OF sta(1)] sent
        demo_client_simps(4) demo_channel_ok [OF stb(1)]] by (metis demo_client_simps(1,5))
  then show ?thesis using sent by blast
qed

text \<open>
  C37. Adding a user that is already known blocks the sender. The owner's \<^verbatim>\<open>do_send\<close> of such a message
  fails with \<open>NodeExists\<close>, but only after the message has been received by its own state: the log does
  not get the message, yet the sender's clock has moved. No peer that has everything the log holds can
  accept any later message of this sender.
\<close>

theorem known_user_blocks_sender:
  fixes u :: "'p add_user_message"
  assumes D: "D = app_deps SLAB P SR SM SE SN M MC"
    and find: "map_of (cl_channels self) cid = Some ch" and ok: "channel_ok D (mem_holds SLAB SR enc) ch rss"
    and owner: "owner_id (ch_chat ch) = Some (cl_node_id self)"
    and user: "map_of (users (ch_chat ch)) (compute_id (d_crypto D) (au_key u)) \<noteq> None"
    and known: "clock (ch_state ch) (compute_id (d_crypto D) (au_key u)) \<noteq> None"
    and addr: "address (ch_state ch) (cl_node_id self) (AddUser u) = Ok m"
    and sealed: "seal (d_crypto D) (cl_crypto self) (cl_node_id self) (Channel cid) (cl_key_pair self) m
      (replicate 4096 0) = (Ok env, target)"
  shows "\<exists>ch'. do_send D self cid (AddUser u) = (Err (ChannelError NodeExists), put_channel cid ch' self) \<and>
    ch_storage ch' = ch_storage ch \<and> channel_ok D (mem_holds SLAB SR enc) ch' rss \<and>
    clock (ch_state ch') (cl_node_id self) = Some (msg_sequence m) \<and>
    (\<forall>(data :: 'p protocol) m'. address (ch_state ch') (cl_node_id self) data = Ok m' \<longrightarrow>
       \<not> acceptable (clock (ch_state ch)) (cl_node_id self) m')"
proof -
  have inv: "channel_inv (d_max_nodes D) (ch_state ch)"
      "chat_inv (compute_id (d_crypto D)) (d_max_nodes D) (ch_chat ch)"
    using ok by (auto simp: channel_ok_def)
  note sorted = channel_inv_sorted [OF inv(1)]
  note m = address_acceptable [OF inv(1) addr]
  let ?me = "cl_node_id self" and ?eid = "envelope_id_of (d_crypto D) (cl_crypto self) env"
  obtain us where us: "index_map_insert (d_max_nodes D) (compute_id (d_crypto D) (au_key u)) (au_key u) (users (ch_chat ch)) = Some us"
    using user by (auto simp: index_map_insert_def)
  have accepted: "accept_message (compute_id (d_crypto D)) (d_max_nodes D) (ch_chat ch) cid ?me (msg_data m)
      = (Ok (Accept_AddUser (au_key u)), (ch_chat ch)\<lparr>users := us\<rparr>)"
    by (simp add: m(2) accept_message_def owner add_user_def us)
  obtain st' where st': "receive (ch_state ch) ?me m ?eid = (Ok (max (current_sequence (ch_state ch)) (msg_sequence m)), st')"
      "channel_inv (d_max_nodes D) st'" "clock st' = (clock (ch_state ch))(?me \<mapsto> msg_sequence m)"
    using receive_effect [OF inv(1) m(1)] by metis
  have "clock st' (compute_id (d_crypto D) (au_key u)) \<noteq> None" using known by (simp add: st'(3))
  note exists = add_node_present [OF st'(2) this, of "au_key u"]
  let ?ch = "ch\<lparr>ch_chat := (ch_chat ch)\<lparr>users := us\<rparr>, ch_state := st'\<rparr>"
  have taken: "take_message D ch cid ?me m ?eid = (Err (ChannelError NodeExists), ?ch)"
    by (simp add: take_message_def accepted st'(1) remember_key_def exists)
  have verdict: "receive_verdict (clock (ch_state ch)) ?me m = Ok ()" using m(1) by (simp add: receive_verdict_Ok)
  have res: "do_send D self cid (AddUser u) = (Err (ChannelError NodeExists), put_channel cid ?ch self)"
    by (simp add: do_send_def find_channel_def find addr sealed check_receive_verdict [OF sorted] verdict taken Let_def)
  have log: "log_ok st' (concat rss)"
    using ok log_ok_mono [of "ch_state ch" "concat rss" st'] take_message_cases [OF inv m(1) taken]
    by (simp add: channel_ok_def)
  have chat': "chat_inv (compute_id (d_crypto D)) (d_max_nodes D) (ch_chat ?ch)"
    using take_message_cases [OF inv m(1) taken] by simp
  have "\<not> acceptable (clock (ch_state ch)) ?me m'" if "address (ch_state ?ch) ?me data = Ok m'" for data :: "'p protocol" and m'
  proof -
    have "address st' ?me data = Ok m'" using that by simp
    from address_acceptable(1) [OF st'(2) this] have "clock st' ?me = Some (sender_last m')"
      by (simp add: acceptable_def)
    moreover have "sender_last m < msg_sequence m" "clock (ch_state ch) ?me = Some (sender_last m)"
      using m(1) by (simp_all add: acceptable_def)
    ultimately show ?thesis by (auto simp: acceptable_def st'(3))
  qed
  then show ?thesis
    using res st'(2,3) chat' log ok by (intro exI [of _ ?ch]) (simp add: channel_ok_def)
qed

theorem known_user_blocks_sender_witness:
  "\<exists>st ch'. do_send (demo_deps 2000) (demo_client 7 st) (ChannelId (Id 3)) (AddUser \<lparr>au_name = ''nine'', au_key = 9\<rparr>)
      = (Err (ChannelError NodeExists), put_channel (ChannelId (Id 3)) ch' (demo_client 7 st)) \<and>
    clock (ch_state ch') (NodeId (Id 7)) = Some 1 \<and> clock demo_state (NodeId (Id 7)) = Some 0"
proof -
  obtain st :: "mem_io storage" where st: "demo_holds (storage_io st) []" "max_index (storage_io st) = 2"
    by (rule demo_storage)
  define m where "m = \<lparr>cause = NodeId (Id 7), sender_last = 0, msg_sequence = 1,
    msg_data = AddUser \<lparr>au_name = ''nine'', au_key = (9 :: u64)\<rparr>\<rparr>"
  have "address demo_state (NodeId (Id 7)) (AddUser \<lparr>au_name = ''nine'', au_key = 9\<rparr>) = Ok m"
    unfolding address_spec [OF demo_state_inv] demo_clock demo_current demo_newest
    by (simp add: checked_add_def m_def)
  then have addr: "address (ch_state (demo_channel st)) (cl_node_id (demo_client 7 st))
      (AddUser \<lparr>au_name = ''nine'', au_key = 9\<rparr>) = Ok m" by simp
  have "length (enc_message m) \<le> MAX_ENVELOPE"
    by (simp add: enc_message_def m_def SHA256_SIZE_def enc_string_def MAX_ENVELOPE_def MAX_SIG_def)
  note sealed = demo_seal_any [OF this]
  have nine: "compute_id (d_crypto (demo_deps 2000)) 9 = NodeId (Id 9)"
    using demo_compute_id [of 2000 9] by simp
  have "owner_id (ch_chat (demo_channel st)) = Some (cl_node_id (demo_client 7 st))"
    "map_of (users (ch_chat (demo_channel st))) (NodeId (Id 9)) \<noteq> None"
    "clock (ch_state (demo_channel st)) (NodeId (Id 9)) \<noteq> None"
    by (simp add: demo_chat_def, simp add: demo_chat_def, simp add: demo_clock)
  then obtain ch' where
      "do_send (demo_deps 2000) (demo_client 7 st) (ChannelId (Id 3)) (AddUser \<lparr>au_name = ''nine'', au_key = 9\<rparr>)
        = (Err (ChannelError NodeExists), put_channel (ChannelId (Id 3)) ch' (demo_client 7 st))"
      "clock (ch_state ch') (cl_node_id (demo_client 7 st)) = Some (msg_sequence m)"
    using known_user_blocks_sender [OF refl demo_client_simps(4) demo_channel_ok [OF st(1)], where
        u = "\<lparr>au_name = ''nine'', au_key = 9\<rparr>" and m = m, of 7] addr sealed nine
    by (metis add_user_message.select_convs(2) demo_client_simps(3))
  then show ?thesis by (auto simp: m_def demo_clock)
qed

end
