(* ===== verification/Client_Start.thy ===== *)
theory Client_Start
  imports Client_Exchange
begin

text \<open>
  How a channel is opened again: \<^verbatim>\<open>open_chat\<close> replays a log into a new state. \<open>replay_all\<close> is the replay as
  a function of the stored envelopes; the loop over the cursor is shown to end and to compute it. The
  last part shows that the replay of a message is the step by which it was received or sent, although
  the two add the key of a new user at different times.
\<close>

subsection \<open>Replaying a log\<close>

fun replay_all ::
  "('c, 's, 'p, 'i) deps \<Rightarrow> 'c \<Rightarrow> channel_id \<Rightarrow> u8 list list \<Rightarrow> 'p channel_state \<Rightarrow> 'p chat \<Rightarrow>
     ('p channel_state \<times> 'p chat, client_error) result" where
  "replay_all D crypto cid [] channel chat = Ok (channel, chat)"
| "replay_all D crypto cid (d # ds) channel chat =
     bind_ok (replay_record D crypto cid d channel chat)
       (\<lambda>(channel, chat). replay_all D crypto cid ds channel chat)"

context slab_source
begin

lemma replay_loop_walks:
  assumes D: "d_io D = T" "d_records D = S" and h: "holds (storage_io st) rss" and ne: "[] \<notin> set rss"
  shows "stands enc rss c rem \<Longrightarrow>
    replay_loop D crypto cid st c channel chat = Some (replay_all D crypto cid (map rec_data rem) channel chat)"
proof (induction rem arbitrary: c channel chat)
  case Nil
  then show ?case
    using read_spec [OF h Nil.prems ne] by (subst replay_loop.simps) (simp add: D)
next
  case (Cons r rs)
  obtain c' where c': "storage_read T S st c = Ok (Some (rec_data r, c'))" "stands enc rss c' rs"
    using read_spec [OF h Cons.prems ne] by auto
  show ?case
  proof (cases "replay_record D crypto cid (rec_data r) channel chat")
    case (Ok res)
    obtain channel' chat' where res: "res = (channel', chat')" by fastforce
    show ?thesis
      using Cons.IH [OF c'(2), of channel' chat'] by (subst replay_loop.simps) (simp add: D c' Ok res)
  qed (subst replay_loop.simps, simp add: D c')+
qed

lemma open_replays:
  assumes D: "d_io D = T" "d_records D = S" and h: "holds io rss" and ne: "[] \<notin> set rss"
    and new: "channel_new (d_max_nodes D) (compute_id (d_crypto D) (kp_public (cl_key_pair self)))
      (kp_public (cl_key_pair self)) = Ok st"
  shows "open_chat D self cid io = Some (or_return
    (replay_all D (cl_crypto self) cid (map rec_data (concat rss)) st (chat_new cid)) self
    (\<lambda>(channel, chat). insert_channel D self cid
      \<lparr>ch_state = channel, ch_storage = storage_new io, ch_chat = chat\<rparr>))"
proof -
  let ?search = "bind_ok (io_get_head T io) (scan_slabs T S (\<lambda>r. 0 \<le> rec_max_sequence r) io)"
  have io: "storage_io (storage_new io) = io" by (simp add: storage_new_def)
  have all: "dropWhile (\<lambda>r. \<not> (0 :: u64) \<le> rec_max_sequence r) (concat rss) = concat rss"
    by (cases "concat rss") simp_all
  have search: "get_cursor_from_sequence T S (storage_new io) 0 = ?search"
    by (simp add: get_cursor_from_sequence_def io)
  consider (empty) "?search = Ok None" "concat rss = []"
    | (cursor) c where "?search = Ok (Some c)" "stands enc rss c (concat rss)"
    using search_spec [OF h, of "\<lambda>r. 0 \<le> rec_max_sequence r"] all by (auto split: result.splits option.splits)
  then show ?thesis
  proof cases
    case empty
    have "replay_all D (cl_crypto self) cid (map rec_data (concat rss)) st (chat_new cid) = Ok (st, chat_new cid)"
      unfolding empty(2) by simp
    then show ?thesis using empty(1) by (simp add: open_chat_def Let_def new D search)
  next
    case cursor
    then show ?thesis
      using replay_loop_walks [OF D, of "storage_new io" rss c "concat rss"] h ne io
      by (simp add: open_chat_def Let_def new D search)
  qed
qed

end

subsection \<open>Receiving and adding a node, in either order\<close>

text \<open>
  The live handlers receive a message before they add the user it announces, the replay adds the user
  first. The states are the same.
\<close>

lemma keys_sorted_set_eq:
  "keys_sorted key xs \<Longrightarrow> keys_sorted key ys \<Longrightarrow> set xs = set ys \<Longrightarrow> xs = ys"
proof (induction xs arbitrary: ys)
  case Nil
  then show ?case by simp
next
  case (Cons x xs)
  then obtain y ys' where ys: "ys = y # ys'" by (cases ys) auto
  have xs: "\<forall>z \<in> set xs. key x < key z" "keys_sorted key xs"
    and ys': "\<forall>z \<in> set ys'. key y < key z" "keys_sorted key ys'"
    using Cons.prems(1,2) by (simp_all add: ys)
  have "x = y"
  proof (rule ccontr)
    assume "x \<noteq> y"
    then have "x \<in> set ys'" "y \<in> set xs" using Cons.prems(3) ys by auto
    then show False using xs(1) ys'(1) by fastforce
  qed
  moreover have "x \<notin> set xs" "y \<notin> set ys'" using xs(1) ys'(1) by auto
  then have "set xs = set ys'" using Cons.prems(3) ys \<open>x = y\<close> by auto
  ultimately show ?case using Cons.IH [OF xs(2) ys'(2)] ys by simp
qed

lemma receive_state:
  assumes inv: "channel_inv M st" and acc: "acceptable (clock st) from m"
  obtains r c st' where "receive st from m eid = (Ok (max (current_sequence st) (msg_sequence m)), st')"
    "r \<in> set (nodes st)" "ns_node r = from" "c \<in> set (nodes st)" "ns_node c = newest st"
    "set (nodes st') = insert (note_received m eid r) {q \<in> set (nodes st). ns_node q \<noteq> from}"
    "newest st' = (if not_newer (note_received m eid r) c then newest st else from)"
proof -
  note sorted = channel_inv_sorted [OF inv]
  obtain i c where i: "i < length (nodes st)" "ns_node (nodes st ! i) = from"
    and c: "c \<in> set (nodes st)" "ns_node c = newest st"
    and recv: "receive st from m eid =
      (Ok (max (ns_sequence c) (msg_sequence m)),
       \<lparr>nodes = (nodes st)[i := note_received m eid (nodes st ! i)],
        newest = (if not_newer (note_received m eid (nodes st ! i)) c then newest st else from)\<rparr>)"
    using receive_accepted [OF inv acc] by metis
  have "ns_sequence c = current_sequence st" by (rule current_sequence_newest [OF sorted c, symmetric])
  then show thesis
    using that [of _ "nodes st ! i" c] recv i c
      set_update_keys_sorted [OF sorted i(1), of "note_received m eid (nodes st ! i)"] by simp
qed

lemma receive_add_commute:
  fixes st :: "'p channel_state"
  assumes inv: "channel_inv M st" and acc: "acceptable (clock st) from m"
    and recv: "receive st from m eid = (Ok ms, st1)" and add: "add_node M st1 k key = (Ok (), st2)"
  shows "\<exists>st1'. add_node M st k key = (Ok (), st1') \<and> receive st1' from m eid = (Ok ms, st2)"
proof -
  note sorted = channel_inv_sorted [OF inv]
  obtain r c where one: "ms = max (current_sequence st) (msg_sequence m)" "r \<in> set (nodes st)" "ns_node r = from"
      "c \<in> set (nodes st)" "ns_node c = newest st"
      "set (nodes st1) = insert (note_received m eid r) {q \<in> set (nodes st). ns_node q \<noteq> from}"
      "newest st1 = (if not_newer (note_received m eid r) c then newest st else from)"
    by (rule receive_state [OF inv acc, of eid]) (use recv in auto)
  obtain st1x where st1: "channel_inv M st1" "clock st1 = (clock st)(from \<mapsto> msg_sequence m)"
      "length (nodes st1) = length (nodes st)"
    by (rule receive_effect [OF inv acc, of eid]) (use recv in auto)
  have absent: "clock st1 k = None" "length (nodes st1) < M"
    using add add_node_present [OF st1(1), of k key] add_node_full [OF st1(1), of k key]
    by (cases "clock st1 k"; cases "M \<le> length (nodes st1)"; simp)+
  then have k: "k \<noteq> from" "clock st k = None" "length (nodes st) < M" using st1(2,3) by (auto split: if_splits)
  have set_add: "set (nodes t') = insert (new_record k key) (set (nodes t)) \<and> newest t' = newest t"
    if "add_node M t k key = (Ok (), t')" for t t' :: "'p channel_state"
    using that by_key.set_insert_at [of _ "nodes t" "new_record k key"]
    by (auto simp: add_node_def vec_insert_def split: sum.splits if_splits)
  obtain sta where sta: "add_node M st k key = (Ok (), sta)" "channel_inv M sta" "clock sta = (clock st)(k \<mapsto> 0)"
    by (rule add_node_absent [OF inv k(2,3), of key]) (rule that)
  have newest_known: "newest st \<noteq> k"
    using imageI [OF one(4), of ns_node] one(5) k(2) by (auto simp: clock_def node_record_def keyed_None)
  have acc': "acceptable (clock sta) from m"
    using acc k by (auto simp: acceptable_def sta(3) known_sequence_def)
  have cur: "current_sequence sta = current_sequence st"
    using set_add [OF sta(1)] newest_known by (simp add: current_sequence_def sta(3) known_sequence_def)
  obtain r' c' stb where two: "receive sta from m eid = (Ok (max (current_sequence sta) (msg_sequence m)), stb)"
      "r' \<in> set (nodes sta)" "ns_node r' = from" "c' \<in> set (nodes sta)" "ns_node c' = newest sta"
      "set (nodes stb) = insert (note_received m eid r') {q \<in> set (nodes sta). ns_node q \<noteq> from}"
      "newest stb = (if not_newer (note_received m eid r') c' then newest sta else from)"
    by (rule receive_state [OF sta(2) acc', of eid]) (rule that)
  have "r' = r" "c' = c"
    using two(2-5) one(2-5) set_add [OF sta(1)] k(1) newest_known
      keys_sorted_key_inj [OF sorted] by auto
  have sets: "set (nodes stb) = set (nodes st2)"
    using two(6) one(6) set_add [OF sta(1)] set_add [OF add] k(1) \<open>r' = r\<close> by auto
  have "channel_inv M stb" "channel_inv M st2"
    using receive_inv [OF sta(2) two(1)] add_node_inv [OF st1(1) add] by simp_all
  then have "nodes stb = nodes st2"
    using sets keys_sorted_set_eq by (metis channel_inv_sorted)
  moreover have "newest stb = newest st2"
    using two(7) one(7) set_add [OF sta(1)] set_add [OF add] \<open>r' = r\<close> \<open>c' = c\<close> by simp
  ultimately have "stb = st2" by (cases stb; cases st2) simp
  then show ?thesis using sta(1) two(1) one(1) cur by auto
qed

subsection \<open>Replaying a step\<close>

lemma take_message_OkE:
  assumes "take_message D ch cid from m eid = (Ok ms, ch')"
  obtains result chat st where
    "accept_message (compute_id (d_crypto D)) (d_max_nodes D) (ch_chat ch) cid from (msg_data m) = (Ok result, chat)"
    "receive (ch_state ch) from m eid = (Ok ms, st)"
    "remember_key D (ch\<lparr>ch_chat := chat, ch_state := st\<rparr>) result = (Ok (), ch')"
proof -
  obtain a chat where a: "accept_message (compute_id (d_crypto D)) (d_max_nodes D) (ch_chat ch) cid from (msg_data m)
      = (a, chat)" by fastforce
  obtain b st where b: "receive (ch_state ch) from m eid = (b, st)" by fastforce
  from assms a obtain result where result: "a = Ok result" by (cases a) (simp_all add: take_message_def)
  from assms a b result have b_ok: "b \<noteq> Panic" "b \<noteq> Err e" for e by (auto simp: take_message_def)
  then obtain x where x: "b = Ok x" by (cases b) auto
  obtain k ch2 where k: "remember_key D (ch\<lparr>ch_chat := chat, ch_state := st\<rparr>) result = (k, ch2)" by fastforce
  have "or_return k ch2 (\<lambda>_. (Ok x, ch2)) = (Ok ms, ch')"
    using assms by (simp add: take_message_def a b result x k)
  then have "k = Ok ()" "x = ms" "ch2 = ch'" by (cases k; simp)+
  then show thesis using that a b result x k by simp
qed

lemma replay_takes:
  assumes inv: "channel_inv (d_max_nodes D) (ch_state ch)"
    and env: "from_bytes (d_envelopes D) d = Ok env" "channel_keys (ch_state ch) (env_from env) = Some key"
    and m: "open_envelope (d_crypto D) crypto key env = Ok m" "acceptable (clock (ch_state ch)) (env_from env) m"
    and taken: "take_message D ch cid (env_from env) m (envelope_id_of (d_crypto D) crypto env) = (Ok ms, ch')"
  shows "replay_record D crypto cid d (ch_state ch) (ch_chat ch) = Ok (ch_state ch', ch_chat ch')"
proof -
  note sorted = channel_inv_sorted [OF inv]
  let ?eid = "envelope_id_of (d_crypto D) crypto env" and ?from = "env_from env"
  obtain result chat st where acc: "accept_message (compute_id (d_crypto D)) (d_max_nodes D) (ch_chat ch) cid ?from
      (msg_data m) = (Ok result, chat)" and recv: "receive (ch_state ch) ?from m ?eid = (Ok ms, st)"
    and rest: "remember_key D (ch\<lparr>ch_chat := chat, ch_state := st\<rparr>) result = (Ok (), ch')"
    by (rule take_message_OkE [OF taken])
  have verdict: "receive_verdict (clock (ch_state ch)) ?from m = Ok ()" using m(2) by (simp add: receive_verdict_Ok)
  show ?thesis
  proof (cases "\<exists>k. result = Accept_AddUser k")
    case True
    then obtain k where k: "result = Accept_AddUser k" by blast
    let ?id = "compute_id (d_crypto D) k"
    from rest obtain st2 where st2: "add_node (d_max_nodes D) st ?id k = (Ok (), st2)"
        "ch' = ch\<lparr>ch_chat := chat, ch_state := st2\<rparr>"
      by (cases "add_node (d_max_nodes D) st ?id k") (auto simp: remember_key_def k Let_def result_simps)
    obtain sta where "add_node (d_max_nodes D) (ch_state ch) ?id k = (Ok (), sta)" "receive sta ?from m ?eid = (Ok ms, st2)"
      using receive_add_commute [OF inv m(2) recv st2(1)] by blast
    then show ?thesis
      using env m(1) acc verdict st2(2)
      by (simp add: replay_record_def get_node_key_lookup [OF sorted] check_receive_verdict [OF sorted] k Let_def)
  next
    case False
    then have "ch' = ch\<lparr>ch_chat := chat, ch_state := st\<rparr>"
      using rest by (cases result) (auto simp: remember_key_def)
    then show ?thesis
      using env m(1) acc verdict recv False
      by (cases result)
        (simp_all add: replay_record_def get_node_key_lookup [OF sorted] check_receive_verdict [OF sorted] Let_def)
  qed
qed

lemma replay_all_append:
  "replay_all D crypto cid (ds @ es) st chat =
    bind_ok (replay_all D crypto cid ds st chat) (\<lambda>(st, chat). replay_all D crypto cid es st chat)"
proof (induction ds arbitrary: st chat)
  case (Cons d ds)
  then show ?case by (cases "replay_record D crypto cid d st chat") auto
qed simp

lemma or_return_OkE:
  assumes "or_return r s k = (Ok y, t)"
  obtains x where "r = Ok x" "k x = (Ok y, t)"
  using assms by (cases r) auto

lemma do_receive_OkE:
  assumes find: "map_of (cl_channels self) cid = Some ch" and inv: "channel_inv (d_max_nodes D) (ch_state ch)"
    and step: "do_receive D self cid bytes = (Ok (), self')"
  obtains env key m ms ch1 w storage where "from_bytes (d_envelopes D) bytes = Ok env"
    "channel_keys (ch_state ch) (env_from env) = Some key"
    "open_envelope (d_crypto D) (cl_crypto self) key env = Ok m"
    "acceptable (clock (ch_state ch)) (env_from env) m"
    "take_message D ch cid (env_from env) m (envelope_id_of (d_crypto D) (cl_crypto self) env) = (Ok ms, ch1)"
    "get_writer (d_io D) (ch_storage ch1) = Ok w"
    "write_and_commit (d_io D) w ms (message_count (ch_chat ch1)) (msg_sequence m) (env_from env) bytes = (Ok (), storage)"
    "self' = put_channel cid (ch1\<lparr>ch_storage := storage\<rparr>) self"
proof -
  note sorted = channel_inv_sorted [OF inv]
  from step obtain env where env: "from_bytes (d_envelopes D) bytes = Ok env"
    by (auto simp: do_receive_def result_simps)
  from step obtain key where key: "channel_keys (ch_state ch) (env_from env) = Some key"
    by (auto simp: do_receive_def result_simps env find_channel_def find get_node_key_lookup [OF sorted] Let_def)
  from step obtain m where m: "open_envelope (d_crypto D) (cl_crypto self) key env = Ok m"
    by (auto simp: do_receive_def result_simps env find_channel_def find get_node_key_lookup [OF sorted] key Let_def)
  let ?eid = "envelope_id_of (d_crypto D) (cl_crypto self) env"
  obtain taken ch1 where taken: "take_message D ch cid (env_from env) m ?eid = (taken, ch1)" by fastforce
  from step have "or_return (map_err ChannelError (receive_verdict (clock (ch_state ch)) (env_from env) m)) self (\<lambda>_.
      or_return taken (put_channel cid ch1 self) (\<lambda>max_sequence.
      or_return (map_err StorageError (get_writer (d_io D) (ch_storage ch1))) (put_channel cid ch1 self) (\<lambda>slab_writer.
      let (stored, storage) = write_and_commit (d_io D) slab_writer max_sequence (message_count (ch_chat ch1))
        (msg_sequence m) (env_from env) bytes in
      or_return stored (put_channel cid (ch1\<lparr>ch_storage := storage\<rparr>) self)
        (\<lambda>_. (Ok (), put_channel cid (ch1\<lparr>ch_storage := storage\<rparr>) self))))) = (Ok (), self')"
    by (simp add: do_receive_def env find_channel_def find get_node_key_lookup [OF sorted] key m
        check_receive_verdict [OF sorted] taken Let_def)
  then obtain ms w where verdict: "receive_verdict (clock (ch_state ch)) (env_from env) m = Ok ()" and ms: "taken = Ok ms"
    and w: "get_writer (d_io D) (ch_storage ch1) = Ok w"
    and rest: "(let (stored, storage) = write_and_commit (d_io D) w ms (message_count (ch_chat ch1))
        (msg_sequence m) (env_from env) bytes in
      or_return stored (put_channel cid (ch1\<lparr>ch_storage := storage\<rparr>) self)
        (\<lambda>_. (Ok (), put_channel cid (ch1\<lparr>ch_storage := storage\<rparr>) self))) = (Ok (), self')"
    by (auto elim!: or_return_OkE simp: result_simps)
  obtain stored storage where wc: "write_and_commit (d_io D) w ms (message_count (ch_chat ch1))
        (msg_sequence m) (env_from env) bytes = (stored, storage)" by fastforce
  with rest have "stored = Ok ()" "self' = put_channel cid (ch1\<lparr>ch_storage := storage\<rparr>) self" by (cases stored; simp)+
  then show thesis
    using that env key m verdict taken ms w wc by (simp add: receive_verdict_Ok)
qed

lemma do_send_OkE:
  assumes find: "map_of (cl_channels self) cid = Some ch" and inv: "channel_inv (d_max_nodes D) (ch_state ch)"
    and step: "do_send D self cid data = (Ok (), self')"
  obtains m env target d target' ms ch1 w storage where "address (ch_state ch) (cl_node_id self) data = Ok m"
    "seal (d_crypto D) (cl_crypto self) (cl_node_id self) (Channel cid) (cl_key_pair self) m (replicate 4096 0)
      = (Ok env, target)"
    "take_message D ch cid (cl_node_id self) m (envelope_id_of (d_crypto D) (cl_crypto self) env) = (Ok ms, ch1)"
    "to_slice (d_envelopes D) env target = (Ok d, target')"
    "get_writer (d_io D) (ch_storage ch1) = Ok w"
    "write_and_commit (d_io D) w ms (message_count (ch_chat ch1)) (msg_sequence m) (cl_node_id self) d = (Ok (), storage)"
    "self' = put_channel cid (ch1\<lparr>ch_storage := storage\<rparr>) self"
proof -
  note sorted = channel_inv_sorted [OF inv]
  let ?me = "cl_node_id self"
  from step obtain m where m: "address (ch_state ch) ?me data = Ok m"
    by (auto simp: do_send_def result_simps find_channel_def find Let_def)
  obtain sealed target where sealed: "seal (d_crypto D) (cl_crypto self) ?me (Channel cid) (cl_key_pair self) m
      (replicate 4096 0) = (sealed, target)" by fastforce
  from step obtain env where env: "sealed = Ok env"
    by (cases sealed) (auto simp: do_send_def find_channel_def find m sealed Let_def)
  obtain taken ch1 where taken: "take_message D ch cid ?me m (envelope_id_of (d_crypto D) (cl_crypto self) env) = (taken, ch1)"
    by fastforce
  obtain ser target' where ser: "to_slice (d_envelopes D) env target = (ser, target')" by fastforce
  from step have "or_return (map_err ChannelError (receive_verdict (clock (ch_state ch)) ?me m)) self (\<lambda>_.
      or_return taken (put_channel cid ch1 self) (\<lambda>max_sequence.
      or_return (map_err StorageError (get_writer (d_io D) (ch_storage ch1))) (put_channel cid ch1 self) (\<lambda>slab_writer.
      or_return (map_err SerializationError ser) (put_channel cid ch1 self) (\<lambda>d.
      let (stored, storage) = write_and_commit (d_io D) slab_writer max_sequence (message_count (ch_chat ch1))
        (msg_sequence m) ?me d in
      or_return stored (put_channel cid (ch1\<lparr>ch_storage := storage\<rparr>) self)
        (\<lambda>_. (Ok (), put_channel cid (ch1\<lparr>ch_storage := storage\<rparr>) self)))))) = (Ok (), self')"
    by (simp add: do_send_def find_channel_def find m sealed env ser check_receive_verdict [OF sorted] taken Let_def)
  then obtain ms w d where ms: "taken = Ok ms" and d: "ser = Ok d"
    and w: "get_writer (d_io D) (ch_storage ch1) = Ok w"
    and rest: "(let (stored, storage) = write_and_commit (d_io D) w ms (message_count (ch_chat ch1))
        (msg_sequence m) ?me d in
      or_return stored (put_channel cid (ch1\<lparr>ch_storage := storage\<rparr>) self)
        (\<lambda>_. (Ok (), put_channel cid (ch1\<lparr>ch_storage := storage\<rparr>) self))) = (Ok (), self')"
    by (auto elim!: or_return_OkE simp: result_simps)
  obtain stored storage where wc: "write_and_commit (d_io D) w ms (message_count (ch_chat ch1))
        (msg_sequence m) ?me d = (stored, storage)" by fastforce
  with rest have "stored = Ok ()" "self' = put_channel cid (ch1\<lparr>ch_storage := storage\<rparr>) self" by (cases stored; simp)+
  then show thesis using that m sealed env taken ms ser d w wc by simp
qed

end
