(* ===== verification/Log_Run.thy ===== *)
theory Log_Run
  imports Client_Start
begin

text \<open>
  The channel of a device as a replicated state machine. The abstract machine has the state of a channel
  and its chat; a step takes one stored record. It starts where \<^verbatim>\<open>ChannelState::new\<close> and \<^verbatim>\<open>Chat::new\<close>
  leave a device that knows one key. The runs of the machine are what the logs of the devices are
  compared by: a run is determined by the envelopes of the log, whichever device has it.
\<close>

subsection \<open>The machine\<close>

definition start_state :: "('p \<Rightarrow> node_id) \<Rightarrow> 'p \<Rightarrow> 'p channel_state" where
  "start_state cid_of key = \<lparr>nodes = [new_record (cid_of key) key], newest = cid_of key\<rparr>"

definition log_step ::
  "('c, 's, 'p, 'i) deps \<Rightarrow> channel_id \<Rightarrow> 'p channel_state \<times> 'p chat \<Rightarrow> stored \<Rightarrow> 'p channel_state \<times> 'p chat \<Rightarrow> bool" where
  "log_step D cid s r t \<longleftrightarrow>
     (\<exists>env key m. from_bytes (d_envelopes D) (rec_data r) = Ok env \<and>
        channel_keys (fst s) (env_from env) = Some key \<and>
        (\<forall>c. open_envelope (d_crypto D) c key env = Ok m) \<and>
        acceptable (clock (fst s)) (env_from env) m \<and>
        (\<forall>c st. take_message D \<lparr>ch_state = fst s, ch_storage = st, ch_chat = snd s\<rparr> cid (env_from env) m
             (envelope_id_of (d_crypto D) c env)
           = (Ok (rec_max_sequence r), \<lparr>ch_state = fst t, ch_storage = st, ch_chat = snd t\<rparr>)) \<and>
        rec_sequence r = msg_sequence m \<and> rec_sender r = env_from env \<and>
        rec_message_count r = message_count (snd t))"

inductive log_run ::
  "('c, 's, 'p, 'i) deps \<Rightarrow> channel_id \<Rightarrow> 'p channel_state \<times> 'p chat \<Rightarrow> stored list \<Rightarrow>
     'p channel_state \<times> 'p chat \<Rightarrow> bool"
  for D :: "('c, 's, 'p, 'i) deps" and cid :: channel_id where
  run_nil: "log_run D cid s [] s"
| run_cons: "log_step D cid s r t \<Longrightarrow> log_run D cid t rs u \<Longrightarrow> log_run D cid s (r # rs) u"

inductive_simps log_run_Nil [simp]: "log_run D cid s [] u"
inductive_simps log_run_Cons: "log_run D cid s (r # rs) u"

lemma log_run_append: "log_run D cid s (xs @ ys) u \<longleftrightarrow> (\<exists>t. log_run D cid s xs t \<and> log_run D cid t ys u)"
  by (induction xs arbitrary: s) (auto simp: log_run_Cons)

text \<open>A step is determined by the envelope: the record, and the state behind it.\<close>

lemma log_step_determined:
  assumes one: "log_step D cid s r t" and two: "log_step D cid s r' t'" and same: "rec_data r = rec_data r'"
  shows "r = r' \<and> t = t'"
proof -
  obtain env key m where e: "from_bytes (d_envelopes D) (rec_data r) = Ok env" "channel_keys (fst s) (env_from env) = Some key"
      "\<forall>c. open_envelope (d_crypto D) c key env = Ok m" "rec_sequence r = msg_sequence m" "rec_sender r = env_from env"
    and t: "\<forall>c st. take_message D \<lparr>ch_state = fst s, ch_storage = st, ch_chat = snd s\<rparr> cid (env_from env) m
        (envelope_id_of (d_crypto D) c env)
      = (Ok (rec_max_sequence r), \<lparr>ch_state = fst t, ch_storage = st, ch_chat = snd t\<rparr>)"
      "rec_message_count r = message_count (snd t)"
    using one unfolding log_step_def by blast
  obtain env' key' m' where e': "from_bytes (d_envelopes D) (rec_data r') = Ok env'"
      "channel_keys (fst s) (env_from env') = Some key'" "\<forall>c. open_envelope (d_crypto D) c key' env' = Ok m'"
      "rec_sequence r' = msg_sequence m'" "rec_sender r' = env_from env'"
    and t': "\<forall>c st. take_message D \<lparr>ch_state = fst s, ch_storage = st, ch_chat = snd s\<rparr> cid (env_from env') m'
        (envelope_id_of (d_crypto D) c env')
      = (Ok (rec_max_sequence r'), \<lparr>ch_state = fst t', ch_storage = st, ch_chat = snd t'\<rparr>)"
      "rec_message_count r' = message_count (snd t')"
    using two unfolding log_step_def by blast
  have env: "env' = env" using e(1) e'(1) same by simp
  then have "key' = key" using e(2) e'(2) by simp
  then have "m' = m" using e(3) e'(3) env by simp
  then have "rec_max_sequence r' = rec_max_sequence r \<and> fst t' = fst t \<and> snd t' = snd t"
    using spec [OF spec [OF t(1)]] spec [OF spec [OF t'(1)]] env by (metis Pair_inject channel.select_convs(1,3) result.inject(1))
  then show ?thesis
    using e e' t(2) t'(2) same env \<open>m' = m\<close> by (cases r; cases r') (auto simp: prod_eq_iff)
qed

lemma log_run_determined:
  "log_run D cid s rs t \<Longrightarrow> log_run D cid s rs' t' \<Longrightarrow> map rec_data rs' = map rec_data rs \<Longrightarrow> rs' = rs \<and> t' = t"
proof (induction arbitrary: rs' rule: log_run.induct)
  case (run_nil s)
  then show ?case by simp
next
  case (run_cons s r u rs t)
  then obtain r' qs where rs': "rs' = r' # qs" "rec_data r' = rec_data r" "map rec_data qs = map rec_data rs" by auto
  with run_cons.prems(1) obtain u' where u': "log_step D cid s r' u'" "log_run D cid u' qs t'"
    by (auto simp: log_run_Cons)
  have "r = r' \<and> u = u'" by (rule log_step_determined [OF run_cons.hyps(1) u'(1)]) (simp add: rs'(2))
  then show ?case using run_cons.IH [of qs] u'(2) rs'(1,3) by simp
qed

subsection \<open>Steps that the client takes\<close>

lemma take_message_storage:
  "take_message D (ch\<lparr>ch_storage := st\<rparr>) cid from m eid =
    (let (r, ch') = take_message D ch cid from m eid in (r, ch'\<lparr>ch_storage := st\<rparr>))"
proof (cases ch)
  case ch: (fields s0 st0 c0)
  obtain accepted chat where a: "accept_message (compute_id (d_crypto D)) (d_max_nodes D) c0 cid from (msg_data m)
      = (accepted, chat)" by fastforce
  obtain received state where b: "receive s0 from m eid = (received, state)" by fastforce
  show ?thesis
  proof (cases accepted)
    case (Ok result)
    show ?thesis
    proof (cases "received", goal_cases)
      case (1 x)
      show ?case
      proof (cases result)
        case (Accept_AddUser k)
        obtain added state' where k: "add_node (d_max_nodes D) state (compute_id (d_crypto D) k) k = (added, state')"
          by fastforce
        show ?thesis
          unfolding ch by (cases added) (simp_all add: take_message_def remember_key_def a b Ok 1 Accept_AddUser k)
      qed (simp_all add: ch take_message_def remember_key_def a b Ok 1)
    qed (simp_all add: take_message_def ch a b Ok)
  qed (simp_all add: take_message_def ch a)
qed

lemma channel_with_storage: "\<lparr>ch_state = ch_state x, ch_storage = st, ch_chat = ch_chat x\<rparr> = x\<lparr>ch_storage := st\<rparr>"
  by (cases x) simp

lemma log_stepI:
  assumes D: "D = app_deps SLAB P SR SM SE SN M MC"
    and env: "from_bytes (d_envelopes D) (rec_data r) = Ok env" "channel_keys (ch_state ch) (env_from env) = Some key"
      "open_envelope (d_crypto D) c key env = Ok m" "acceptable (clock (ch_state ch)) (env_from env) m"
    and taken: "take_message D ch cid (env_from env) m (envelope_id_of (d_crypto D) c env) = (Ok (rec_max_sequence r), ch1)"
    and r: "rec_sequence r = msg_sequence m" "rec_sender r = env_from env" "rec_message_count r = message_count (ch_chat ch1)"
  shows "log_step D cid (ch_state ch, ch_chat ch) r (ch_state ch1, ch_chat ch1)"
proof -
  have any: "open_envelope (d_crypto D) c' key env = Ok m"
      "envelope_id_of (d_crypto D) c' env = envelope_id_of (d_crypto D) c env" for c'
    using env(3) by (simp_all add: D rust_crypto_trait_def)
  have "take_message D (ch\<lparr>ch_storage := st\<rparr>) cid (env_from env) m (envelope_id_of (d_crypto D) c' env)
      = (Ok (rec_max_sequence r), ch1\<lparr>ch_storage := st\<rparr>)" for c' st
    using taken by (simp add: take_message_storage any(2) [of c'])
  then show ?thesis
    unfolding log_step_def using env any(1) r by (intro exI [of _ env] exI [of _ key] exI [of _ m]) (simp add: channel_with_storage)
qed

text \<open>\<open>received_in\<close>: a state has received the message of a record and can tell.\<close>

definition received_in :: "('c, 's, 'p, 'i) deps \<Rightarrow> 'p channel_state \<Rightarrow> stored \<Rightarrow> bool" where
  "received_in D st r \<longleftrightarrow>
     (\<exists>env key m s. from_bytes (d_envelopes D) (rec_data r) = Ok env \<and> channel_keys st (env_from env) = Some key \<and>
        (\<forall>c. open_envelope (d_crypto D) c key env = Ok m) \<and> clock st (env_from env) = Some s \<and> msg_sequence m \<le> s)"

text \<open>What the state of a later moment keeps of an earlier one.\<close>

definition state_le :: "'p channel_state \<Rightarrow> 'p channel_state \<Rightarrow> bool" where
  "state_le st st' \<longleftrightarrow> channel_keys st \<subseteq>\<^sub>m channel_keys st' \<and>
     (\<forall>n s. clock st n = Some s \<longrightarrow> (\<exists>s'. clock st' n = Some s' \<and> s \<le> s'))"

lemma state_le_refl [simp]: "state_le st st"
  by (simp add: state_le_def)

lemma state_le_trans [trans]: "state_le a b \<Longrightarrow> state_le b c \<Longrightarrow> state_le a c"
  unfolding state_le_def by (meson map_le_trans order_trans)

lemma received_in_mono:
  assumes "received_in D st r" "state_le st st'"
  shows "received_in D st' r"
proof -
  obtain env key m s where r: "from_bytes (d_envelopes D) (rec_data r) = Ok env" "channel_keys st (env_from env) = Some key"
      "\<forall>c. open_envelope (d_crypto D) c key env = Ok m" "clock st (env_from env) = Some s" "msg_sequence m \<le> s"
    using assms(1) unfolding received_in_def by blast
  moreover from r(2) have "channel_keys st' (env_from env) = Some key"
    using assms(2) unfolding state_le_def map_le_def by (metis domI)
  moreover obtain s' where "clock st' (env_from env) = Some s'" "s \<le> s'"
    using assms(2) r(4) unfolding state_le_def by blast
  ultimately show ?thesis unfolding received_in_def by (meson order_trans)
qed

definition machine_inv :: "('c, 's, 'p, 'i) deps \<Rightarrow> 'p channel_state \<times> 'p chat \<Rightarrow> bool" where
  "machine_inv D s \<longleftrightarrow> channel_inv (d_max_nodes D) (fst s) \<and> chat_inv (compute_id (d_crypto D)) (d_max_nodes D) (snd s)"

lemma clock_of_key: "channel_keys st n = Some k \<Longrightarrow> clock st n \<noteq> None"
  by (auto simp: channel_keys_def clock_def)

lemma log_step_effect:
  assumes inv: "machine_inv D s" and step: "log_step D cid s r t"
  shows "machine_inv D t" "state_le (fst s) (fst t)" "received_in D (fst t) r"
    "rec_max_sequence r = current_sequence (fst t)" "rec_sequence r \<le> rec_max_sequence r"
    "\<exists>l. clock (fst s) (rec_sender r) = Some l \<and> l < rec_sequence r"
proof -
  obtain env key m where env: "from_bytes (d_envelopes D) (rec_data r) = Ok env"
      "channel_keys (fst s) (env_from env) = Some key" "\<forall>c. open_envelope (d_crypto D) c key env = Ok m"
      "acceptable (clock (fst s)) (env_from env) m" "rec_sequence r = msg_sequence m" "rec_sender r = env_from env"
    and taken: "\<forall>c st. take_message D \<lparr>ch_state = fst s, ch_storage = st, ch_chat = snd s\<rparr> cid (env_from env) m
        (envelope_id_of (d_crypto D) c env)
      = (Ok (rec_max_sequence r), \<lparr>ch_state = fst t, ch_storage = st, ch_chat = snd t\<rparr>)"
    using step unfolding log_step_def by blast
  let ?ch = "\<lambda>x. \<lparr>ch_state = fst x, ch_storage = undefined, ch_chat = snd x\<rparr>"
  have inv': "channel_inv (d_max_nodes D) (ch_state (?ch s))"
      "chat_inv (compute_id (d_crypto D)) (d_max_nodes D) (ch_chat (?ch s))"
    and acc: "acceptable (clock (ch_state (?ch s))) (env_from env) m"
    using inv env(4) by (simp_all add: machine_inv_def)
  from taken have "take_message D (?ch s) cid (env_from env) m (envelope_id_of (d_crypto D) undefined env)
      = (Ok (rec_max_sequence r), ?ch t)" by blast
  note t = take_message_cases [OF inv' acc this, simplified]
  have moves: "clock_moves (clock (fst s)) (env_from env) (msg_sequence m) (clock (fst t))"
    and keys: "keys_move (compute_id (d_crypto D)) (fst s) (env_from env) m (fst t)"
    and ms: "rec_max_sequence r = max (current_sequence (fst s)) (msg_sequence m)"
    using t by simp_all
  show "machine_inv D t" using t by (simp add: machine_inv_def)
  show "rec_max_sequence r = current_sequence (fst t)" using t by simp
  show "rec_sequence r \<le> rec_max_sequence r" using ms env(5) by simp
  have last: "clock (fst s) (env_from env) = Some (sender_last m)" "sender_last m < msg_sequence m"
    using env(4) by (simp_all add: acceptable_def)
  then show "\<exists>l. clock (fst s) (rec_sender r) = Some l \<and> l < rec_sequence r" by (simp add: env(5,6))
  have le: "channel_keys (fst s) \<subseteq>\<^sub>m channel_keys (fst t)"
    using keys clock_of_key by (fastforce simp: keys_move_def map_le_def split: protocol.splits)
  moreover have "\<exists>q'. clock (fst t) n = Some q' \<and> q \<le> q'" if "clock (fst s) n = Some q" for n q
    using moves last that by (cases "n = env_from env") (auto simp: clock_moves_def)
  ultimately show "state_le (fst s) (fst t)" by (simp add: state_le_def)
  have "channel_keys (fst t) (env_from env) = Some key" using le env(2) by (auto simp: map_le_def dom_def)
  moreover have "clock (fst t) (env_from env) = Some (msg_sequence m)" using moves by (simp add: clock_moves_def)
  ultimately show "received_in D (fst t) r" unfolding received_in_def using env(1,3) by blast
qed

lemma log_run_effect:
  "log_run D cid s rs t \<Longrightarrow> machine_inv D s \<Longrightarrow>
    machine_inv D t \<and> state_le (fst s) (fst t) \<and> (\<forall>r\<in>set rs. received_in D (fst t) r) \<and>
    (rs \<noteq> [] \<longrightarrow> rec_max_sequence (last rs) = current_sequence (fst t))"
proof (induction rule: log_run.induct)
  case (run_nil s)
  then show ?case by simp
next
  case (run_cons s r t rs u)
  note e = log_step_effect [OF run_cons.prems run_cons.hyps(1)]
  have ih: "machine_inv D u" "state_le (fst t) (fst u)" "\<forall>r\<in>set rs. received_in D (fst u) r"
      "rs \<noteq> [] \<longrightarrow> rec_max_sequence (last rs) = current_sequence (fst u)"
    using run_cons.IH [OF e(1)] by blast+
  have "rs = [] \<Longrightarrow> u = t" using run_cons.hyps(2) by simp
  with e ih show ?case using state_le_trans received_in_mono by fastforce
qed

text \<open>The replay of \<^verbatim>\<open>open_chat\<close> follows a run of the machine.\<close>

lemma log_run_replays:
  fixes D :: "('c, 's, 'p, 'i) deps"
  shows "log_run D cid s rs t \<Longrightarrow> machine_inv D s \<Longrightarrow>
    replay_all D c cid (map rec_data rs) (fst s) (snd s) = Ok t"
proof (induction rule: log_run.induct)
  case (run_nil s)
  then show ?case by simp
next
  case (run_cons s r t rs u)
  let ?ch = "\<lambda>x. \<lparr>ch_state = fst x, ch_storage = (undefined :: 'i storage), ch_chat = snd x\<rparr>"
  obtain env key m where env: "from_bytes (d_envelopes D) (rec_data r) = Ok env"
      "channel_keys (fst s) (env_from env) = Some key" "\<forall>c. open_envelope (d_crypto D) c key env = Ok m"
      "acceptable (clock (fst s)) (env_from env) m"
    and taken: "\<forall>c st. take_message D \<lparr>ch_state = fst s, ch_storage = st, ch_chat = snd s\<rparr> cid (env_from env) m
        (envelope_id_of (d_crypto D) c env)
      = (Ok (rec_max_sequence r), \<lparr>ch_state = fst t, ch_storage = st, ch_chat = snd t\<rparr>)"
    using run_cons.hyps(1) unfolding log_step_def by blast
  have "replay_record D c cid (rec_data r) (ch_state (?ch s)) (ch_chat (?ch s)) = Ok (ch_state (?ch t), ch_chat (?ch t))"
    by (rule replay_takes [where env = env and key = key and m = m])
      (use env taken run_cons.prems in \<open>simp_all add: machine_inv_def\<close>)
  then show ?case
    using run_cons.IH log_step_effect(1) [OF run_cons.prems run_cons.hyps(1)] by (simp add: case_prod_unfold)
qed

subsection \<open>The channel of a device\<close>

text \<open>
  \<open>replica\<close>: a channel whose log is a run of the machine from the owner's key, with the state and the
  chat that the run leads to.
\<close>

abbreviation machine_start :: "('c, 's, 'p, 'i) deps \<Rightarrow> 'p \<Rightarrow> channel_id \<Rightarrow> 'p channel_state \<times> 'p chat" where
  "machine_start D key cid \<equiv> (start_state (compute_id (d_crypto D)) key, chat_new cid)"

definition replica ::
  "('c, 's, 'p, 'i) deps \<Rightarrow> ('i \<Rightarrow> stored list list \<Rightarrow> bool) \<Rightarrow> 'p \<Rightarrow> channel_id \<Rightarrow> ('p, 'i) channel \<Rightarrow>
     stored list list \<Rightarrow> bool" where
  "replica D holds key cid ch rss \<longleftrightarrow>
     channel_ok D holds ch rss \<and> log_run D cid (machine_start D key cid) (concat rss) (ch_state ch, ch_chat ch)"

lemma start_state_facts:
  assumes "0 < M"
  shows "channel_inv M (start_state cid_of key)" "clock (start_state cid_of key) = [cid_of key \<mapsto> 0]"
    "channel_keys (start_state cid_of key) = [cid_of key \<mapsto> key]"
proof -
  show "channel_inv M (start_state cid_of key)"
    by (rule channel_new_inv [of M "cid_of key" key]) (use assms in \<open>simp add: channel_new_def vec_push_def start_state_def\<close>)
  show "clock (start_state cid_of key) = [cid_of key \<mapsto> 0]"
    "channel_keys (start_state cid_of key) = [cid_of key \<mapsto> key]"
    by (auto simp: start_state_def clock_def channel_keys_def node_record_def keyed_def fun_eq_iff)
qed

lemma replica_nodes: "replica D holds key cid ch rss \<Longrightarrow> 0 < d_max_nodes D"
  by (cases "d_max_nodes D") (auto simp: replica_def channel_ok_def channel_inv_def)

lemma replica_inv: "replica D holds key cid ch rss \<Longrightarrow> channel_inv (d_max_nodes D) (ch_state ch)"
  unfolding replica_def channel_ok_def by (elim conjE)

lemma machine_start_inv: "0 < d_max_nodes D \<Longrightarrow> machine_inv D (machine_start D key cid)"
  by (simp add: machine_inv_def start_state_facts(1) chat_new_inv)

lemma replica_run:
  assumes "replica D holds key cid ch rss"
  shows "machine_inv D (machine_start D key cid)" "machine_inv D (ch_state ch, ch_chat ch)"
    "log_run D cid (machine_start D key cid) (concat rss) (ch_state ch, ch_chat ch)"
    "\<forall>r\<in>set (concat rss). received_in D (ch_state ch) r"
    "rss \<noteq> [] \<Longrightarrow> rec_max_sequence (last (concat rss)) = current_sequence (ch_state ch)"
proof -
  show inv: "machine_inv D (machine_start D key cid)" by (rule machine_start_inv [OF replica_nodes [OF assms]])
  show run: "log_run D cid (machine_start D key cid) (concat rss) (ch_state ch, ch_chat ch)"
    using assms by (simp add: replica_def)
  note e = log_run_effect [OF run inv]
  show "machine_inv D (ch_state ch, ch_chat ch)" "\<forall>r\<in>set (concat rss). received_in D (ch_state ch) r"
    using e by simp_all
  have "[] \<notin> set rss" using assms by (simp add: replica_def channel_ok_def)
  then have "rss \<noteq> [] \<Longrightarrow> concat rss \<noteq> []" by (cases rss) auto
  then show "rss \<noteq> [] \<Longrightarrow> rec_max_sequence (last (concat rss)) = current_sequence (ch_state ch)" using e by simp
qed

text \<open>The owner's key is known to every replica.\<close>

lemma replica_owner_key:
  assumes "replica D holds key cid ch rss"
  shows "channel_keys (ch_state ch) (compute_id (d_crypto D) key) = Some key"
proof -
  have "state_le (start_state (compute_id (d_crypto D)) key) (ch_state ch)"
    using log_run_effect [OF replica_run(3) [OF assms] replica_run(1) [OF assms]] by simp
  then have "[compute_id (d_crypto D) key \<mapsto> key] \<subseteq>\<^sub>m channel_keys (ch_state ch)"
    by (simp add: state_le_def start_state_facts(3) [OF replica_nodes [OF assms]])
  then show ?thesis by (simp add: map_le_def)
qed

lemma replica_extend:
  assumes "replica D holds key cid ch rss" "channel_ok D holds ch' (rss @ [[r]])"
    and "log_step D cid (ch_state ch, ch_chat ch) r (ch_state ch', ch_chat ch')"
  shows "replica D holds key cid ch' (rss @ [[r]])"
  using assms by (auto simp: replica_def log_run_append log_run_Cons)

end
