(* ===== verification/Client_Reopen.thy ===== *)
theory Client_Reopen
  imports Log_Run
begin

text \<open>
  \<^verbatim>\<open>init_chat\<close>, and the life of the channel it makes: every message that its owner's device sends or
  receives goes to the log, and opening that log again gives back exactly the same channel.
\<close>

subsection \<open>A new channel\<close>

definition start_channel :: "node_id \<Rightarrow> 'p \<Rightarrow> 'i \<Rightarrow> channel_id \<Rightarrow> ('p, 'i) channel" where
  "start_channel me key io cid =
     \<lparr>ch_state = \<lparr>nodes = [new_record me key], newest = me\<rparr>, ch_storage = storage_new io, ch_chat = chat_new cid\<rparr>"

lemma channel_new_Ok: "channel_new M me key = Ok st \<longleftrightarrow> 0 < M \<and> st = \<lparr>nodes = [new_record me key], newest = me\<rparr>"
  by (auto simp: channel_new_def vec_push_def)

lemma init_chat_OkE:
  assumes "init_chat D self name io = (Ok cid, self')"
    and me: "key = kp_public (cl_key_pair self)" "me = compute_id (d_crypto D) key"
  obtains nc crypto buf m env target ms ch1 w d target' storage chs where
    "nc_owner nc = key" "nc_name nc = name" "length name \<le> NAME_MAX" "0 < d_max_nodes D"
    "address (ch_state (start_channel me key io cid)) me (NewChannel nc) = Ok m"
    "seal (d_crypto D) crypto me (Channel cid) (cl_key_pair self) m buf = (Ok env, target)"
    "take_message D (start_channel me key io cid) cid me m (envelope_id_of (d_crypto D) crypto env) = (Ok ms, ch1)"
    "get_writer (d_io D) (storage_new io) = Ok w"
    "to_slice (d_envelopes D) env target = (Ok d, target')"
    "write_and_commit (d_io D) w ms (message_count (ch_chat ch1)) (msg_sequence m) me d = (Ok (), storage)"
    "index_map_insert (d_max_channels D) cid (ch1\<lparr>ch_storage := storage\<rparr>) (cl_channels self) = Some chs"
    "self' = self\<lparr>cl_crypto := crypto, cl_channels := chs\<rparr>"
proof -
  obtain n crypto where n: "nonce (d_crypto D) (cl_crypto self) = (n, crypto)" by fastforce
  let ?self = "self\<lparr>cl_crypto := crypto\<rparr>"
  let ?nc = "\<lparr>nc_nonce = n, nc_name = name, nc_owner = key\<rparr>"
  obtain ser buf where ser: "to_slice (d_new_channels D) ?nc (replicate 4096 0) = (ser, buf)" by fastforce
  from assms(1) have name: "length name \<le> NAME_MAX" "string_try_from NAME_MAX name = Some name"
    by (auto simp: init_chat_def n string_try_from_def split: if_splits)
  from assms(1) obtain bs where bs: "ser = Ok bs"
    by (cases ser) (auto simp: init_chat_def n name ser me(1) [symmetric])
  define c where "c = channel_id_from_bytes (d_crypto D) crypto bs"
  from assms(1) obtain st0 where st0: "channel_new (d_max_nodes D) me key = Ok st0"
    by (auto simp: init_chat_def n name ser me(1) [symmetric] me(2) [symmetric] bs Let_def result_simps)
  then have new: "0 < d_max_nodes D"
      "channel_new (d_max_nodes D) me key = Ok (ch_state (start_channel me key io cid))"
    by (simp_all add: channel_new_Ok start_channel_def)
  let ?ch = "start_channel me key io cid"
  from assms(1) obtain m where m: "address (ch_state ?ch) me (NewChannel ?nc) = Ok m"
    by (auto simp: init_chat_def n name ser me(1) [symmetric] me(2) [symmetric] bs new Let_def result_simps)
  obtain sealed target where sealed: "seal (d_crypto D) crypto me (Channel c) (cl_key_pair self) m buf = (sealed, target)"
    by fastforce
  from assms(1) obtain env where env: "sealed = Ok env"
    by (cases sealed) (auto simp: init_chat_def n name ser me(1) [symmetric] me(2) [symmetric] bs new m c_def [symmetric] sealed Let_def)
  let ?eid = "envelope_id_of (d_crypto D) crypto env"
  obtain accepted chat where acc: "accept_message (compute_id (d_crypto D)) (d_max_nodes D) (chat_new c) c me (msg_data m)
      = (accepted, chat)" by fastforce
  obtain received st where recv: "receive (ch_state ?ch) me m ?eid = (received, st)" by fastforce
  obtain ser2 target' where ser2: "to_slice (d_envelopes D) env target = (ser2, target')" by fastforce
  have body: "or_return (map_err ChannelError (check_receive (ch_state ?ch) me m ?eid)) ?self (\<lambda>_.
      or_return (map_err ChatError accepted) ?self (\<lambda>_.
      or_return (map_err ChannelError received) ?self (\<lambda>ms.
      or_return (map_err StorageError (get_writer (d_io D) (storage_new io))) ?self (\<lambda>w.
      or_return (map_err SerializationError ser2) ?self (\<lambda>d.
      let (stored, storage) = write_and_commit (d_io D) w ms (message_count chat) (msg_sequence m) me d in
      or_return stored ?self (\<lambda>_.
      let (inserted, self) = insert_channel D ?self c
            \<lparr>ch_state = st, ch_storage = storage, ch_chat = chat\<rparr> in
      or_return inserted self (\<lambda>_. (Ok c, self)))))))) = (Ok cid, self')"
    using assms(1)
    by (simp add: init_chat_def n name ser me(1) [symmetric] me(2) [symmetric] bs new m c_def [symmetric] sealed env
        acc recv ser2 Let_def)
  from body obtain result ms w d where ok: "accepted = Ok result" "received = Ok ms"
      "get_writer (d_io D) (storage_new io) = Ok w" "ser2 = Ok d" and rest: "
      (let (stored, storage) = write_and_commit (d_io D) w ms (message_count chat) (msg_sequence m) me d in
      or_return stored ?self (\<lambda>_.
      let (inserted, self) = insert_channel D ?self c
            \<lparr>ch_state = st, ch_storage = storage, ch_chat = chat\<rparr> in
      or_return inserted self (\<lambda>_. (Ok c, self)))) = (Ok cid, self')"
    by (auto elim!: or_return_OkE simp: result_simps)
  obtain stored storage where wc: "write_and_commit (d_io D) w ms (message_count chat) (msg_sequence m) me d
      = (stored, storage)" by fastforce
  from rest wc have stored: "stored = Ok ()" by (cases stored) auto
  from rest wc stored obtain chs where chs: "index_map_insert (d_max_channels D) c
        \<lparr>ch_state = st, ch_storage = storage, ch_chat = chat\<rparr> (cl_channels self) = Some chs"
      "self' = self\<lparr>cl_crypto := crypto, cl_channels := chs\<rparr>" "c = cid"
    by (auto simp: insert_channel_def split: option.splits)
  have none: "result = Accept_None"
  proof -
    have "msg_data m = NewChannel ?nc"
      using address_acceptable(2) [OF channel_new_inv [OF new(2)] m] .
    with acc ok(1) show ?thesis by (metis accept_NewChannel_Ok)
  qed
  let ?ch1 = "?ch\<lparr>ch_chat := chat, ch_state := st\<rparr>"
  have "take_message D ?ch cid me m ?eid = (Ok ms, ?ch1)"
    using acc recv ok(1,2) chs(3) none by (simp add: take_message_def start_channel_def remember_key_def)
  then show thesis
    using name(1) new m sealed env ok wc stored chs ser2
    by (intro that [of ?nc m crypto buf env target ms ?ch1 w d target' storage chs]) (simp_all add: start_channel_def)
qed

subsection \<open>The life of a channel\<close>

text \<open>
  A call is \<open>torn\<close> when it panics, or fails although it has changed the client: the channel then has a message
  in its clock that its log lacks. \<open>torn_errors\<close> says with which errors that happens.
\<close>

definition torn ::
  "(unit, client_error) result \<Rightarrow> ('c, 's, 'p, 'i) client \<Rightarrow> ('c, 's, 'p, 'i) client \<Rightarrow> bool" where
  "torn r self self' \<longleftrightarrow> r = Panic \<or> r \<noteq> Ok () \<and> self' \<noteq> self"

lemma torn_Ok [simp]: "\<not> torn (Ok u) self self'"
  by (simp add: torn_def)

lemma whole_cases:
  assumes "\<not> torn r self self'"
  obtains "r = Ok ()" | "self' = self"
  using assms by (auto simp: torn_def)

lemma torn_errors:
  assumes D: "D = app_deps SLAB P SR SM SE SN M MC"
    and ch: "map_of (cl_channels self) cid = Some ch" "channel_ok D (mem_holds SLAB SR enc) ch rss"
    and step: "do_send D self cid data = (r, self') \<or> do_receive D self cid bytes = (r, self')" and torn: "torn r self self'"
  shows "r = Panic \<or> r = Err (ChannelError NodeExists) \<or> r = Err (ChannelError (ClientMax M)) \<or>
    (\<exists>e. r = Err (StorageError e)) \<or> (\<exists>e. r = Err (SerializationError e))"
proof -
  note ok = ch(2) [unfolded D]
  have "failed D (mem_holds SLAB SR enc) self cid rss e self'" if "r = Err e" for e
    using step
  proof
    assume "do_send D self cid data = (r, self')"
    from app.do_send_cases [OF ch(1) ok this [unfolded D]] that show ?thesis by (simp add: D)
  next
    assume "do_receive D self cid bytes = (r, self')"
    from app.do_receive_cases [OF ch(1) ok this [unfolded D]] that show ?thesis by (simp add: D)
  qed
  then show ?thesis using torn by (cases r) (auto simp: torn_def failed_def D)
qed

text \<open>
  \<open>owner_run D holds kp cid self\<close>: the client \<open>self\<close> of the device with the keys \<open>kp\<close> made the
  channel \<open>cid\<close> on an empty store and has since called \<^verbatim>\<open>do_send\<close> and \<^verbatim>\<open>do_receive\<close> on it, with any data and any
  bytes, where no call was torn (calls that fail without that are included), with anything in
  between that leaves this channel alone (other channels, a restart of the generator).
\<close>

inductive owner_run ::
  "('c, 's, 'p, 'i) deps \<Rightarrow> ('i \<Rightarrow> stored list list \<Rightarrow> bool) \<Rightarrow> ('s, 'p) key_pair \<Rightarrow> channel_id \<Rightarrow>
     ('c, 's, 'p, 'i) client \<Rightarrow> bool"
  for D :: "('c, 's, 'p, 'i) deps" and holds :: "'i \<Rightarrow> stored list list \<Rightarrow> bool" and kp :: "('s, 'p) key_pair"
    and cid :: channel_id where
  owner_init: "cl_key_pair self = kp \<Longrightarrow> cl_node_id self = compute_id (d_crypto D) (kp_public kp) \<Longrightarrow> holds io [] \<Longrightarrow>
    init_chat D self name io = (Ok cid, self') \<Longrightarrow> owner_run D holds kp cid self'"
| owner_send: "owner_run D holds kp cid self \<Longrightarrow> do_send D self cid data = (r, self') \<Longrightarrow> \<not> torn r self self' \<Longrightarrow>
    owner_run D holds kp cid self'"
| owner_receive: "owner_run D holds kp cid self \<Longrightarrow> do_receive D self cid bytes = (r, self') \<Longrightarrow> \<not> torn r self self' \<Longrightarrow>
    owner_run D holds kp cid self'"
| owner_other: "owner_run D holds kp cid self \<Longrightarrow> cl_key_pair self' = cl_key_pair self \<Longrightarrow>
    cl_node_id self' = cl_node_id self \<Longrightarrow>
    map_of (cl_channels self') cid = map_of (cl_channels self) cid \<Longrightarrow> owner_run D holds kp cid self'"

text \<open>A message that a device takes in and stores extends its run by one step.\<close>

lemma replica_step:
  assumes D: "D = app_deps SLAB P SR SM SE SN M MC"
    and ok: "replica D (mem_holds SLAB SR enc) key cid ch rss"
    and env: "env_from env = who" "from_bytes SE d = Ok env" "channel_keys (ch_state ch) who = Some k"
      "open_envelope (d_crypto D) c k env = Ok m"
    and acc: "acceptable (clock (ch_state ch)) who m"
    and taken: "take_message D ch cid who m (envelope_id_of (d_crypto D) c env) = (Ok ms, ch1)"
    and w: "get_writer (d_io D) (ch_storage ch1) = Ok w"
    and stored: "write_and_commit (d_io D) w ms (message_count (ch_chat ch1)) (msg_sequence m) who d
      = (Ok (), storage)"
  obtains r where "rec_data r = d"
    "replica D (mem_holds SLAB SR enc) key cid (ch1\<lparr>ch_storage := storage\<rparr>) (rss @ [[r]])"
    "log_step D cid (ch_state ch, ch_chat ch) r (ch_state ch1, ch_chat ch1)" "rec_sender r = who"
proof -
  let ?h = "mem_holds SLAB SR enc" and ?ch' = "ch1\<lparr>ch_storage := storage\<rparr>"
  have okc: "channel_ok D ?h ch rss" using ok by (simp add: replica_def)
  then have inv: "channel_inv (d_max_nodes D) (ch_state ch)"
      "chat_inv (compute_id (d_crypto D)) (d_max_nodes D) (ch_chat ch)" by (simp_all add: channel_ok_def)
  have "advanced D ?h ch rss who m d ?ch'"
    using app.store_taken [of SLAB P SR SM SE SN M MC enc ch rss who m cid _ ms ch1 w d "Ok ()" storage]
      okc acc taken w stored by (simp add: D)
  then obtain r where r: "channel_ok D ?h ?ch' (rss @ [[r]])" "rec_data r = d" "rec_sender r = who"
      "rec_sequence r = msg_sequence m" "rec_max_sequence r = current_sequence (ch_state ch1)"
      "rec_message_count r = message_count (ch_chat ch1)"
    by (auto simp: advanced_def)
  have "ms = rec_max_sequence r" using take_message_cases [OF inv acc taken] r(5) by simp
  then have "log_step D cid (ch_state ch, ch_chat ch) r (ch_state ch1, ch_chat ch1)"
    using env acc taken r by (intro log_stepI [OF D, of r env ch k c m]) (simp_all add: D)
  then show thesis using that [OF r(2)] replica_extend [OF ok r(1)] r(3) by simp
qed

lemma replica_start:
  assumes D: "D = app_deps SLAB P SR SM SE SN M MC" and "mem_holds SLAB SR enc io []" "0 < M"
  shows "replica D (mem_holds SLAB SR enc) key cid (start_channel (compute_id (d_crypto D) key) key io cid) []"
  using assms(2) chat_new_inv start_state_facts(1) [OF assms(3), of "compute_id (d_crypto D)" key]
  by (simp add: replica_def channel_ok_def start_channel_def D log_ok_def storage_new_def flip: start_state_def)

lemma serde_reads_back:
  assumes "serde_ok S enc" "to_slice S x buf = (Ok bs, buf')"
  shows "from_bytes S bs = Ok x"
  using serde_to_slice_cases(1) [OF assms] assms(1) by (simp add: serde_ok_def)

lemma receive_extends:
  assumes D: "D = app_deps SLAB P SR SM SE SN M MC"
    and ch: "map_of (cl_channels self) cid = Some ch" "replica D (mem_holds SLAB SR enc) key cid ch rss"
    and step: "do_receive D self cid bytes = (Ok (), self')"
  obtains ch' r where "self' = put_channel cid ch' self" "rec_data r = bytes"
    "replica D (mem_holds SLAB SR enc) key cid ch' (rss @ [[r]])"
proof -
  have inv: "channel_inv (d_max_nodes D) (ch_state ch)" by (rule replica_inv [OF ch(2)])
  obtain env k m ms ch1 w storage where "from_bytes (d_envelopes D) bytes = Ok env"
      "channel_keys (ch_state ch) (env_from env) = Some k"
      "open_envelope (d_crypto D) (cl_crypto self) k env = Ok m"
      "acceptable (clock (ch_state ch)) (env_from env) m"
      "take_message D ch cid (env_from env) m (envelope_id_of (d_crypto D) (cl_crypto self) env) = (Ok ms, ch1)"
      "get_writer (d_io D) (ch_storage ch1) = Ok w"
      "write_and_commit (d_io D) w ms (message_count (ch_chat ch1)) (msg_sequence m) (env_from env) bytes = (Ok (), storage)"
      "self' = put_channel cid (ch1\<lparr>ch_storage := storage\<rparr>) self"
    by (rule do_receive_OkE [OF ch(1) inv step])
  note step = this
  have "from_bytes SE bytes = Ok env" using step(1) by (simp add: D)
  from replica_step [OF D ch(2) refl this step(2-7)] step(8) show thesis by (metis that)
qed

lemma send_extends:
  assumes D: "D = app_deps SLAB P SR SM SE SN M MC" and keys: "rust_matching P SM (cl_key_pair self)"
    and envs: "serde_ok SE enc_env"
    and ch: "map_of (cl_channels self) cid = Some ch" "replica D (mem_holds SLAB SR enc) key cid ch rss"
    and own: "channel_keys (ch_state ch) (cl_node_id self) = Some (kp_public (cl_key_pair self))"
    and step: "do_send D self cid data = (Ok (), self')"
  obtains ch' r where "self' = put_channel cid ch' self"
    "replica D (mem_holds SLAB SR enc) key cid ch' (rss @ [[r]])" "rec_sender r = cl_node_id self"
proof -
  have inv: "channel_inv (d_max_nodes D) (ch_state ch)" by (rule replica_inv [OF ch(2)])
  obtain m env target d target' ms ch1 w storage where "address (ch_state ch) (cl_node_id self) data = Ok m"
      "seal (d_crypto D) (cl_crypto self) (cl_node_id self) (Channel cid) (cl_key_pair self) m (replicate 4096 0)
        = (Ok env, target)"
      "take_message D ch cid (cl_node_id self) m (envelope_id_of (d_crypto D) (cl_crypto self) env) = (Ok ms, ch1)"
      "to_slice (d_envelopes D) env target = (Ok d, target')"
      "get_writer (d_io D) (ch_storage ch1) = Ok w"
      "write_and_commit (d_io D) w ms (message_count (ch_chat ch1)) (msg_sequence m) (cl_node_id self) d = (Ok (), storage)"
      "self' = put_channel cid (ch1\<lparr>ch_storage := storage\<rparr>) self"
    by (rule do_send_OkE [OF ch(1) inv step])
  note step = this
  note sealed = step(2) [unfolded D app_deps_simps]
  have env: "env_from env = cl_node_id self"
      "open_envelope (d_crypto D) (cl_crypto self) (kp_public (cl_key_pair self)) env = Ok m"
    using rust.open_sealed [OF keys sealed refl] by (simp_all add: D)
  have d: "from_bytes SE d = Ok env"
    by (rule serde_reads_back [OF envs step(4) [unfolded D app_deps_simps]])
  from replica_step [OF D ch(2) env(1) d own env(2) address_acceptable(1) [OF inv step(1)] step(3,5,6)] step(7)
  show thesis by (metis that)
qed

lemma init_extends:
  assumes D: "D = app_deps SLAB P SR SM SE SN M MC" and keys: "rust_matching P SM (cl_key_pair self)"
    and envs: "serde_ok SE enc_env" and key: "key = kp_public (cl_key_pair self)" "me = compute_id (d_crypto D) key"
    and io: "mem_holds SLAB SR enc io []" and step: "init_chat D self name io = (Ok cid, self')"
  obtains ch r where "replica D (mem_holds SLAB SR enc) key cid ch [[r]]" "rec_sender r = me"
    "map_of (cl_channels self') cid = Some ch" "cl_key_pair self' = cl_key_pair self" "cl_node_id self' = cl_node_id self"
proof -
  let ?ch = "start_channel me key io cid"
  obtain nc crypto buf m env target ms ch1 w d target' storage chs where
      "0 < d_max_nodes D" "address (ch_state ?ch) me (NewChannel nc) = Ok m"
      "seal (d_crypto D) crypto me (Channel cid) (cl_key_pair self) m buf = (Ok env, target)"
      "take_message D ?ch cid me m (envelope_id_of (d_crypto D) crypto env) = (Ok ms, ch1)"
      "get_writer (d_io D) (storage_new io) = Ok w" "to_slice (d_envelopes D) env target = (Ok d, target')"
      "write_and_commit (d_io D) w ms (message_count (ch_chat ch1)) (msg_sequence m) me d = (Ok (), storage)"
      "index_map_insert (d_max_channels D) cid (ch1\<lparr>ch_storage := storage\<rparr>) (cl_channels self) = Some chs"
      "self' = self\<lparr>cl_crypto := crypto, cl_channels := chs\<rparr>"
    by (rule init_chat_OkE [OF step key])
  note made = this
  have start: "replica D (mem_holds SLAB SR enc) key cid ?ch []"
    using replica_start [OF D io] made(1) by (simp add: D key(2))
  have inv: "channel_inv (d_max_nodes D) (ch_state ?ch)" by (rule replica_inv [OF start])
  note sealed = made(3) [unfolded D app_deps_simps]
  have env: "env_from env = me" "open_envelope (d_crypto D) crypto key env = Ok m"
    using rust.open_sealed [OF keys sealed key(1)] by (simp_all add: D)
  have d: "from_bytes SE d = Ok env"
    by (rule serde_reads_back [OF envs made(6) [unfolded D app_deps_simps]])
  have st: "ch_storage ch1 = storage_new io"
    using made(4) by (rule take_message_OkE) (auto simp: remember_key_def start_channel_def Let_def
        split: accept_result.splits prod.splits)
  have own: "channel_keys (ch_state ?ch) me = Some key" unfolding key(2) by (rule replica_owner_key [OF start [unfolded key(2)]])
  from replica_step [OF D start env(1) d own env(2) address_acceptable(1) [OF inv made(2)] made(4), of w storage]
  obtain r where "replica D (mem_holds SLAB SR enc) key cid (ch1\<lparr>ch_storage := storage\<rparr>) [[r]]" "rec_sender r = me"
    using made(5,7) st by auto
  then show thesis using made(9) index_map_insert_Some [OF made(8)] by (intro that) auto
qed

lemma owner_run_replica:
  assumes D: "D = app_deps SLAB P SR SM SE SN M MC" and keys: "rust_matching P SM kp" and envs: "serde_ok SE enc_env"
  shows "owner_run D (mem_holds SLAB SR enc) kp cid self \<Longrightarrow>
    cl_key_pair self = kp \<and> cl_node_id self = compute_id (d_crypto D) (kp_public kp) \<and>
    (\<exists>ch rss. map_of (cl_channels self) cid = Some ch \<and> replica D (mem_holds SLAB SR enc) (kp_public kp) cid ch rss)"
proof (induction rule: owner_run.induct)
  case (owner_init self io name self')
  have "rust_matching P SM (cl_key_pair self)" "kp_public kp = kp_public (cl_key_pair self)"
    using keys owner_init.hyps(1) by simp_all
  from init_extends [OF D this(1) envs this(2) refl owner_init.hyps(3,4)]
  show ?case using owner_init.hyps(1,2) by metis
next
  case (owner_send self data r self')
  then obtain ch rss where self: "cl_key_pair self = kp" "cl_node_id self = compute_id (d_crypto D) (kp_public kp)"
    and ch: "map_of (cl_channels self) cid = Some ch" "replica D (mem_holds SLAB SR enc) (kp_public kp) cid ch rss"
    by blast
  from owner_send.hyps(3) show ?case
  proof (cases rule: whole_cases)
    case 1
    obtain ch' z where "self' = put_channel cid ch' self"
        "replica D (mem_holds SLAB SR enc) (kp_public kp) cid ch' (rss @ [[z]])"
      by (rule send_extends [OF D _ envs ch _ owner_send.hyps(2) [unfolded 1]])
        (use keys self replica_owner_key [OF ch(2)] in simp_all)
    then show ?thesis using self by (auto simp: put_channel_def update_conv')
  qed (use owner_send.IH in simp)
next
  case (owner_receive self bytes r self')
  then obtain ch rss where self: "cl_key_pair self = kp" "cl_node_id self = compute_id (d_crypto D) (kp_public kp)"
    and ch: "map_of (cl_channels self) cid = Some ch" "replica D (mem_holds SLAB SR enc) (kp_public kp) cid ch rss"
    by blast
  from owner_receive.hyps(3) show ?case
  proof (cases rule: whole_cases)
    case 1
    obtain ch' z where "self' = put_channel cid ch' self"
        "replica D (mem_holds SLAB SR enc) (kp_public kp) cid ch' (rss @ [[z]])"
      by (rule receive_extends [OF D ch owner_receive.hyps(2) [unfolded 1]])
    then show ?thesis using self by (auto simp: put_channel_def update_conv')
  qed (use owner_receive.IH in simp)
next
  case (owner_other self self')
  then show ?case by auto
qed

text \<open>
  \<open>member_run D holds key cid self\<close>: the client \<open>self\<close> joined the channel \<open>cid\<close> of the owner with the
  key \<open>key\<close> by \<^verbatim>\<open>add_channel\<close> on an empty store, and has since called \<^verbatim>\<open>do_receive\<close> and \<^verbatim>\<open>do_send\<close> on it, where no call
  was torn; when it sends a message, the channel has its own key for it, and not another one with the same
  identifier.
\<close>

definition knows_own_key :: "('c, 's, 'p, 'i) client \<Rightarrow> channel_id \<Rightarrow> 'p \<Rightarrow> bool" where
  "knows_own_key self cid own \<longleftrightarrow>
     (\<exists>ch. map_of (cl_channels self) cid = Some ch \<and> channel_keys (ch_state ch) (cl_node_id self) = Some own)"

inductive member_run ::
  "('c, 's, 'p, 'i) deps \<Rightarrow> ('i \<Rightarrow> stored list list \<Rightarrow> bool) \<Rightarrow> ('s, 'p) key_pair \<Rightarrow> 'p \<Rightarrow> channel_id \<Rightarrow>
     ('c, 's, 'p, 'i) client \<Rightarrow> bool"
  for D :: "('c, 's, 'p, 'i) deps" and holds :: "'i \<Rightarrow> stored list list \<Rightarrow> bool" and kp :: "('s, 'p) key_pair"
    and key :: 'p and cid :: channel_id where
  member_join: "cl_key_pair self = kp \<Longrightarrow> holds io [] \<Longrightarrow> add_channel D self key cid io = (Ok (), self') \<Longrightarrow>
    member_run D holds kp key cid self'"
| member_send: "member_run D holds kp key cid self \<Longrightarrow> do_send D self cid data = (r, self') \<Longrightarrow> \<not> torn r self self' \<Longrightarrow>
    r = Ok () \<longrightarrow> knows_own_key self cid (kp_public kp) \<Longrightarrow> member_run D holds kp key cid self'"
| member_receive: "member_run D holds kp key cid self \<Longrightarrow> do_receive D self cid bytes = (r, self') \<Longrightarrow>
    \<not> torn r self self' \<Longrightarrow> member_run D holds kp key cid self'"
| member_other: "member_run D holds kp key cid self \<Longrightarrow> cl_key_pair self' = cl_key_pair self \<Longrightarrow>
    cl_node_id self' = cl_node_id self \<Longrightarrow>
    map_of (cl_channels self') cid = map_of (cl_channels self) cid \<Longrightarrow> member_run D holds kp key cid self'"

lemma add_channel_OkE:
  assumes "add_channel D self key cid io = (Ok (), self')"
  obtains chs where "0 < d_max_nodes D"
    "index_map_insert (d_max_channels D) cid (start_channel (compute_id (d_crypto D) key) key io cid) (cl_channels self)
      = Some chs" "self' = self\<lparr>cl_channels := chs\<rparr>"
proof -
  from assms obtain st where st: "channel_new (d_max_nodes D) (compute_id (d_crypto D) key) key = Ok st"
    by (auto simp: add_channel_def Let_def result_simps)
  then have new: "0 < d_max_nodes D"
      "\<lparr>ch_state = st, ch_storage = storage_new io, ch_chat = chat_new cid\<rparr> = start_channel (compute_id (d_crypto D) key) key io cid"
    by (simp_all add: channel_new_Ok start_channel_def)
  with assms st show thesis
    using that by (auto simp: add_channel_def insert_channel_def Let_def split: option.splits)
qed

lemma member_run_replica:
  assumes D: "D = app_deps SLAB P SR SM SE SN M MC" and keys: "rust_matching P SM kp" and envs: "serde_ok SE enc_env"
  shows "member_run D (mem_holds SLAB SR enc) kp key cid self \<Longrightarrow> cl_key_pair self = kp \<and>
    (\<exists>ch rss. map_of (cl_channels self) cid = Some ch \<and> replica D (mem_holds SLAB SR enc) key cid ch rss)"
proof (induction rule: member_run.induct)
  case (member_join self io self')
  obtain chs where chs: "0 < d_max_nodes D"
      "index_map_insert (d_max_channels D) cid (start_channel (compute_id (d_crypto D) key) key io cid) (cl_channels self)
        = Some chs" "self' = self\<lparr>cl_channels := chs\<rparr>"
    by (rule add_channel_OkE [OF member_join.hyps(3)])
  have "replica D (mem_holds SLAB SR enc) key cid (start_channel (compute_id (d_crypto D) key) key io cid) []"
    using replica_start [OF D member_join.hyps(2)] chs(1) by (simp add: D)
  then show ?case using member_join.hyps(1) chs(3) index_map_insert_Some [OF chs(2)] by auto
next
  case (member_send self data r self')
  then obtain ch rss where self: "cl_key_pair self = kp"
    and ch: "map_of (cl_channels self) cid = Some ch" "replica D (mem_holds SLAB SR enc) key cid ch rss" by blast
  from member_send.hyps(3) show ?case
  proof (cases rule: whole_cases)
    case 1
    then have "channel_keys (ch_state ch) (cl_node_id self) = Some (kp_public (cl_key_pair self))"
      using member_send.hyps(4) ch(1) self by (simp add: knows_own_key_def)
    then obtain ch' z where "self' = put_channel cid ch' self" "replica D (mem_holds SLAB SR enc) key cid ch' (rss @ [[z]])"
      by (rule send_extends [OF D _ envs ch _ member_send.hyps(2) [unfolded 1], rotated]) (use keys self in simp_all)
    then show ?thesis using self by (auto simp: put_channel_def update_conv')
  qed (use member_send.IH in simp)
next
  case (member_receive self bytes r self')
  then obtain ch rss where self: "cl_key_pair self = kp"
    and ch: "map_of (cl_channels self) cid = Some ch" "replica D (mem_holds SLAB SR enc) key cid ch rss" by blast
  from member_receive.hyps(3) show ?case
  proof (cases rule: whole_cases)
    case 1
    obtain ch' z where "self' = put_channel cid ch' self" "replica D (mem_holds SLAB SR enc) key cid ch' (rss @ [[z]])"
      by (rule receive_extends [OF D ch member_receive.hyps(2) [unfolded 1]])
    then show ?thesis using self by (auto simp: put_channel_def update_conv')
  qed (use member_receive.IH in simp)
qed auto

lemma init_chat_runs:
  assumes key: "key = kp_public (cl_key_pair self)" "me = compute_id (d_crypto D) key"
    and start: "nonce (d_crypto D) (cl_crypto self) = (n, crypto)" "nc = \<lparr>nc_nonce = n, nc_name = name, nc_owner = key\<rparr>"
      "length name \<le> NAME_MAX" "0 < d_max_nodes D" "to_slice (d_new_channels D) nc (replicate 4096 0) = (Ok bs, buf)"
      "cid = channel_id_from_bytes (d_crypto D) crypto bs"
    and ch: "ch = start_channel me key io cid"
    and sent: "address (ch_state ch) me (NewChannel nc) = Ok m"
      "seal (d_crypto D) crypto me (Channel cid) (cl_key_pair self) m buf = (Ok env, target)"
      "to_slice (d_envelopes D) env target = (Ok d, target')"
    and taken: "take_message D ch cid me m (envelope_id_of (d_crypto D) crypto env) = (Ok ms, ch1)"
    and stored: "get_writer (d_io D) (storage_new io) = Ok w"
      "write_and_commit (d_io D) w ms (message_count (ch_chat ch1)) (msg_sequence m) me d = (Ok (), storage)"
    and room: "index_map_insert (d_max_channels D) cid (ch1\<lparr>ch_storage := storage\<rparr>) (cl_channels self) = Some chs"
  shows "init_chat D self name io = (Ok cid, self\<lparr>cl_crypto := crypto, cl_channels := chs\<rparr>)"
proof -
  have new: "channel_new (d_max_nodes D) me key = Ok (ch_state ch)"
    using start(4) by (simp add: channel_new_Ok ch start_channel_def)
  note inv = channel_new_inv [OF new]
  note m = address_acceptable [OF inv sent(1)]
  let ?eid = "envelope_id_of (d_crypto D) crypto env"
  obtain result chat st where acc: "accept_message (compute_id (d_crypto D)) (d_max_nodes D) (ch_chat ch) cid me (msg_data m)
      = (Ok result, chat)" and recv: "receive (ch_state ch) me m ?eid = (Ok ms, st)"
    and rest: "remember_key D (ch\<lparr>ch_chat := chat, ch_state := st\<rparr>) result = (Ok (), ch1)"
    by (rule take_message_OkE [OF taken])
  have none: "result = Accept_None" using acc m(2) accept_NewChannel_Ok by metis
  then have ch1: "ch1 = ch\<lparr>ch_chat := chat, ch_state := st\<rparr>" using rest by (simp add: remember_key_def)
  then have made: "ch1\<lparr>ch_storage := storage\<rparr> = \<lparr>ch_state = st, ch_storage = storage, ch_chat = chat\<rparr>"
    by (simp add: ch start_channel_def)
  have verdict: "check_receive (ch_state ch) me m ?eid = Ok ()"
    using m(1) by (simp add: check_receive_verdict [OF channel_inv_sorted [OF inv]] receive_verdict_Ok)
  have name: "string_try_from NAME_MAX name = Some name" using start(3) by (simp add: string_try_from_def)
  have chat: "ch_chat ch = chat_new cid" "ch_chat ch1 = chat" "ch_state ch1 = st"
    by (simp_all add: ch start_channel_def ch1)
  show ?thesis
    using stored(2) room
    by (simp add: init_chat_def start(1,5) name start(2,6) [symmetric] key(1) [symmetric] key(2) [symmetric] new sent
        verdict acc [unfolded chat(1)] recv stored(1) chat(2) made insert_channel_def Let_def)
qed

text \<open>The first message of a channel.\<close>

definition first_message :: "node_id \<Rightarrow> 'p new_channel \<Rightarrow> 'p protocol message" where
  "first_message me nc = \<lparr>cause = me, sender_last = 0, msg_sequence = 1, msg_data = NewChannel nc\<rparr>"

lemma start_channel_simps [simp]:
  "ch_state (start_channel me key io cid) = \<lparr>nodes = [new_record me key], newest = me\<rparr>"
  "ch_storage (start_channel me key io cid) = storage_new io"
  "ch_chat (start_channel me key io cid) = chat_new cid"
  by (simp_all add: start_channel_def)

lemma start_clock:
  "clock \<lparr>nodes = [new_record me key], newest = me\<rparr> = [me \<mapsto> 0]"
  "channel_keys \<lparr>nodes = [new_record me key], newest = me\<rparr> = [me \<mapsto> key]"
  by (auto simp: clock_def channel_keys_def node_record_def keyed_def fun_eq_iff)

lemma take_first_message:
  assumes M: "0 < d_max_nodes D" and me: "me = compute_id (d_crypto D) key" "nc_owner nc = key"
    and ch: "ch = start_channel me key io cid"
  obtains st ch1 where "address (ch_state ch) me (NewChannel nc) = Ok (first_message me nc)"
    "take_message D ch cid me (first_message me nc) eid = (Ok 1, ch1)"
    "ch1 = ch\<lparr>ch_state := st, ch_chat := (chat_new cid)\<lparr>users := [(me, key)], owner_id := Some me\<rparr>\<rparr>"
    "clock st = [me \<mapsto> 1]" "channel_keys st = [me \<mapsto> key]"
proof -
  have new: "channel_new (d_max_nodes D) me key = Ok (ch_state ch)" using M by (simp add: channel_new_Ok ch)
  note inv = channel_new_inv [OF new]
  have cur: "current_sequence (ch_state ch) = 0"
    by (simp add: current_sequence_def known_sequence_def ch start_clock)
  have addr: "address (ch_state ch) me (NewChannel nc) = Ok (first_message me nc)"
    unfolding address_spec [OF inv] cur by (simp add: ch start_clock first_message_def checked_add_def)
  note acc = address_acceptable(1) [OF inv addr]
  obtain st where st: "receive (ch_state ch) me (first_message me nc) eid
      = (Ok (max (current_sequence (ch_state ch)) (msg_sequence (first_message me nc))), st)"
      "clock st = (clock (ch_state ch))(me \<mapsto> msg_sequence (first_message me nc))"
      "channel_keys st = channel_keys (ch_state ch)"
    using receive_effect [OF inv acc] by metis
  have "accept_message (compute_id (d_crypto D)) (d_max_nodes D) (chat_new cid) cid me (NewChannel nc)
      = (Ok Accept_None, (chat_new cid)\<lparr>users := [(me, key)], owner_id := Some me\<rparr>)"
    using M me by (simp add: accept_message_def chat_new_def add_user_def index_map_insert_def Let_def)
  then have "take_message D ch cid me (first_message me nc) eid
      = (Ok 1, ch\<lparr>ch_state := st, ch_chat := (chat_new cid)\<lparr>users := [(me, key)], owner_id := Some me\<rparr>\<rparr>)"
    using st(1) cur by (simp add: take_message_def remember_key_def ch first_message_def max_def)
  then show thesis
    using that addr st(2,3) by (simp add: ch start_clock first_message_def)
qed

end
