(* ===== verification/Start_Demo.thy ===== *)
theory Start_Demo
  imports Client_Reopen
begin

text \<open>
  A concrete device that makes a channel, for the witnesses: the client \<open>demo_owner\<close> with the
  parameters of the theory \<open>Demo\<close>, any slab size that takes the first record, and any capacities.
\<close>

abbreviation start_deps :: "nat \<Rightarrow> nat \<Rightarrow> nat \<Rightarrow> (nat rust_crypto, u64, u64, mem_io) deps" where
  "start_deps SLAB M MC \<equiv>
     app_deps SLAB demo_primitives plain_serde message_serde envelope_serde new_channel_serde M MC"

definition demo_owner :: "(nat rust_crypto, u64, u64, mem_io) client" where
  "demo_owner = \<lparr>cl_crypto = \<lparr>rng = 0\<rparr>, cl_node_id = NodeId (Id 7), cl_key_pair = demo_pair 7, cl_channels = []\<rparr>"

definition demo_new_channel :: "string \<Rightarrow> u64 new_channel" where
  "demo_new_channel name = \<lparr>nc_nonce = 0, nc_name = name, nc_owner = 7\<rparr>"

abbreviation demo_first_message :: "string \<Rightarrow> u64 protocol message" where
  "demo_first_message name \<equiv> first_message (NodeId (Id 7)) (demo_new_channel name)"

definition demo_first_envelope :: "channel_id \<Rightarrow> string \<Rightarrow> sealed_envelope" where
  "demo_first_envelope cid name = \<lparr>env_from = NodeId (Id 7), env_to = Channel cid,
     env_serialized = enc_message (demo_first_message name), env_signature = to_be_bytes (7 :: u64)\<rparr>"

definition demo_cid :: "string \<Rightarrow> channel_id" where
  "demo_cid name = channel_id_from_bytes (rust_crypto_trait demo_primitives message_serde) \<lparr>rng = 1\<rparr>
     (enc_new_channel (demo_new_channel name))"

lemma demo_owner_simps [simp]:
  "cl_crypto demo_owner = \<lparr>rng = 0\<rparr>" "cl_node_id demo_owner = NodeId (Id 7)" "cl_key_pair demo_owner = demo_pair 7"
  "cl_channels demo_owner = []" "kp_public (demo_pair k) = k" "nc_owner (demo_new_channel name) = 7"
  by (simp_all add: demo_owner_def demo_pair_def demo_new_channel_def)

lemma demo_owner_id: "compute_id (rust_crypto_trait demo_primitives message_serde) 7 = NodeId (Id 7)"
  using demo_compute_id [of 0 7] by simp

lemma demo_first_lengths:
  "length (enc_message (demo_first_message name)) = 73 + length name"
  "length (enc_envelope (demo_first_envelope cid name)) = 220 + 2 * length name"
  "length (enc_new_channel (demo_new_channel name)) = 25 + length name"
proof -
  show m: "length (enc_message (demo_first_message name)) = 73 + length name"
    by (simp add: enc_message_def first_message_def demo_new_channel_def SHA256_SIZE_def enc_string_def)
  have "length (mark bs) = Suc (2 * length bs)" for bs
    by (induction bs) (simp_all add: mark_def)
  then show "length (enc_envelope (demo_first_envelope cid name)) = 220 + 2 * length name"
    by (simp add: enc_envelope_def demo_first_envelope_def m SHA256_SIZE_def)
  show "length (enc_new_channel (demo_new_channel name)) = 25 + length name"
    by (simp add: enc_new_channel_def demo_new_channel_def enc_string_def)
qed

lemma demo_nonce: "nonce (rust_crypto_trait demo_primitives message_serde) \<lparr>rng = 0\<rparr> = (0, \<lparr>rng = 1\<rparr>)"
  by (simp add: rust_crypto_trait_def rust_nonce_def demo_primitives_def)

lemma demo_new_channel_written:
  assumes "length name \<le> NAME_MAX"
  shows "to_slice new_channel_serde (demo_new_channel name) (replicate 4096 0)
    = (Ok (enc_new_channel (demo_new_channel name)), overwrite (replicate 4096 0) 0 (enc_new_channel (demo_new_channel name)))"
  by (rule serde_to_slice_fits [OF new_channel_serde_ok]) (use assms in \<open>simp add: demo_first_lengths NAME_MAX_def\<close>)

lemma demo_first_seal:
  assumes name: "length name \<le> NAME_MAX"
  obtains target target' where "seal (rust_crypto_trait demo_primitives message_serde) c (NodeId (Id 7)) (Channel cid)
      (demo_pair 7) (demo_first_message name) (overwrite (replicate 4096 0) 0 (enc_new_channel (demo_new_channel name)))
    = (Ok (demo_first_envelope cid name), target)"
    "to_slice envelope_serde (demo_first_envelope cid name) target
      = (Ok (enc_envelope (demo_first_envelope cid name)), target')"
proof -
  let ?buf = "overwrite (replicate 4096 0) 0 (enc_new_channel (demo_new_channel name))"
  let ?m = "demo_first_message name" and ?env = "demo_first_envelope cid name"
  have buf: "length ?buf = 4096" using name by (simp add: demo_first_lengths NAME_MAX_def)
  then have ser: "to_slice message_serde ?m ?buf = (Ok (enc_message ?m), overwrite ?buf 0 (enc_message ?m))"
    using name by (intro serde_to_slice_fits [OF message_serde_ok]) (simp add: demo_first_lengths NAME_MAX_def)
  have "seal (rust_crypto_trait demo_primitives message_serde) c (NodeId (Id 7)) (Channel cid) (demo_pair 7) ?m ?buf
      = (Ok ?env, overwrite ?buf 0 (enc_message ?m))"
    using ser demo_first_lengths(1) [of name] name
    by (simp add: rust_crypto_trait_def rust_seal_def digest_array_def digest_def demo_primitives_def MAX_ENVELOPE_def
        SHA256_SIZE_def sealed_envelope_new_def vec_from_slice_def MAX_SIG_def demo_pair_def demo_first_envelope_def
        NAME_MAX_def)
  moreover have "length (overwrite ?buf 0 (enc_message ?m)) = 4096"
    using buf name by (simp add: demo_first_lengths NAME_MAX_def del: length_overwrite) (simp add: demo_first_lengths)
  then have "to_slice envelope_serde ?env (overwrite ?buf 0 (enc_message ?m))
      = (Ok (enc_envelope ?env), overwrite (overwrite ?buf 0 (enc_message ?m)) 0 (enc_envelope ?env))"
    using name by (intro serde_to_slice_fits [OF envelope_serde_ok]) (simp add: demo_first_lengths NAME_MAX_def)
  ultimately show thesis by (rule that)
qed

text \<open>The channel that has logged its announcement is a replica.\<close>

lemma demo_first_replica:
  assumes io: "mem_holds SLAB plain_serde plain_enc io []" and D: "D = start_deps SLAB M MC" "0 < M"
    and ch: "ch = start_channel me 7 io cid" "me = NodeId (Id 7)"
    and sealed: "seal (d_crypto D) \<lparr>rng = 1\<rparr> me (Channel cid) (demo_pair 7) m buf = (Ok env, target)"
    and first: "address (ch_state ch) me p = Ok m"
      "take_message D ch cid me m (envelope_id_of (d_crypto D) \<lparr>rng = 1\<rparr> env) = (Ok ms, ch1)"
    and written: "get_writer (d_io D) (ch_storage ch1) = Ok w"
      "write_and_commit (d_io D) w ms (message_count (ch_chat ch1)) (msg_sequence m) me (enc_envelope env) = (Ok (), storage)"
  obtains r where "rec_data r = enc_envelope env"
    "replica D (mem_holds SLAB plain_serde plain_enc) 7 cid (ch1\<lparr>ch_storage := storage\<rparr>) [[r]]"
proof -
  have me: "compute_id (d_crypto D) 7 = me" by (simp add: D(1) ch(2) demo_owner_id)
  have rep: "replica D (mem_holds SLAB plain_serde plain_enc) 7 cid ch []"
    using replica_start [OF D(1) io, of 7 cid] D me by (simp add: ch(1))
  have inv: "channel_inv (d_max_nodes D) (ch_state ch)" by (rule replica_inv [OF rep])
  have own: "channel_keys (ch_state ch) me = Some 7" using replica_owner_key [OF rep] me by simp
  have reads: "from_bytes envelope_serde (enc_envelope env) = Ok env" by (rule serde_from_bytes [OF envelope_serde_ok])
  have opens: "open_envelope (d_crypto D) \<lparr>rng = 1\<rparr> 7 env = Ok m" "env_from env = me"
    using rust.open_sealed [OF demo_matching [of 7] sealed [unfolded D(1) app_deps_simps], of 7]
    by (simp_all add: demo_pair_def D(1))
  show thesis
    by (rule replica_step [OF D(1) rep opens(2) reads own opens(1) address_acceptable(1) [OF inv first(1)] first(2) written(1)])
      (use written(2) that in simp_all)
qed

lemma demo_init_runs:
  assumes io: "mem_holds SLAB plain_serde plain_enc io []" "0 < max_index io"
    and size: "292 + 2 * length name \<le> SLAB" "length name \<le> NAME_MAX" "0 < M" "0 < MC"
  obtains ch r where "init_chat (start_deps SLAB M MC) demo_owner name io
    = (Ok (demo_cid name), demo_owner\<lparr>cl_crypto := \<lparr>rng = 1\<rparr>, cl_channels := [(demo_cid name, ch)]\<rparr>)"
    "clock (ch_state ch) = [NodeId (Id 7) \<mapsto> 1]" "channel_keys (ch_state ch) = [NodeId (Id 7) \<mapsto> 7]"
    "ch_chat ch = (chat_new (demo_cid name))\<lparr>users := [(NodeId (Id 7), 7)], owner_id := Some (NodeId (Id 7))\<rparr>"
    "max_index (storage_io (ch_storage ch)) = max_index io"
    "replica (start_deps SLAB M MC) (mem_holds SLAB plain_serde plain_enc) 7 (demo_cid name) ch [[r]]"
    "length (rec_data r) = 220 + 2 * length name"
proof -
  let ?D = "start_deps SLAB M MC" and ?me = "NodeId (Id 7)" and ?m = "demo_first_message name"
  let ?nc = "demo_new_channel name" and ?bs = "enc_new_channel (demo_new_channel name)" and ?cid = "demo_cid name"
  let ?buf = "overwrite (replicate 4096 0) 0 ?bs" and ?env = "demo_first_envelope (demo_cid name) name"
  let ?ch = "start_channel ?me (7 :: u64) io ?cid"
  obtain target target' where sealed: "seal (d_crypto ?D) \<lparr>rng = 1\<rparr> ?me (Channel ?cid) (cl_key_pair demo_owner) ?m ?buf
      = (Ok ?env, target)" "to_slice envelope_serde ?env target = (Ok (enc_envelope ?env), target')"
    using demo_first_seal [OF size(2)] by (metis app_deps_simps(1) demo_owner_simps(3))
  obtain st1 ch1 where first: "address (ch_state ?ch) ?me (NewChannel ?nc) = Ok ?m"
      "take_message ?D ?ch ?cid ?me ?m (envelope_id_of (d_crypto ?D) \<lparr>rng = 1\<rparr> ?env) = (Ok 1, ch1)"
      "ch1 = ?ch\<lparr>ch_state := st1, ch_chat := (chat_new ?cid)\<lparr>users := [(?me, 7)], owner_id := Some ?me\<rparr>\<rparr>"
      "clock st1 = [?me \<mapsto> 1]" "channel_keys st1 = [?me \<mapsto> 7]"
    by (rule take_first_message [where D = ?D and me = ?me and key = 7 and nc = ?nc and ch = ?ch and io = io and
          cid = ?cid and eid = "envelope_id_of (d_crypto ?D) \<lparr>rng = 1\<rparr> ?env"])
      (use size(3) demo_owner_id in simp_all)
  let ?r = "\<lparr>rec_max_sequence = 1, rec_message_count = message_count (ch_chat ch1),
    rec_sequence = msg_sequence ?m, rec_sender = ?me, rec_data = enc_envelope ?env\<rparr>"
  have held: "mem_holds SLAB plain_serde plain_enc (storage_io (storage_new io)) []"
      "length [] < max_index (storage_io (storage_new io))"
    using io by (simp_all add: storage_new_def)
  have "INITIAL_OFFSET + 4 + length (plain_enc ?r) \<le> SLAB"
    using size(1) by (simp add: length_plain_enc demo_first_lengths INITIAL_OFFSET_def)
  then obtain w storage where w: "get_writer (mem_io_trait SLAB plain_serde) (storage_new io) = Ok w"
      "write_and_commit (mem_io_trait SLAB plain_serde) w 1 (message_count (ch_chat ch1)) (msg_sequence ?m) ?me
        (enc_envelope ?env) = (Ok (), storage)" "max_index (storage_io storage) = max_index (storage_io (storage_new io))"
    using mem_store_ok [OF held, of ?r] by (metis stored.select_convs(1-5))
  let ?self = "demo_owner\<lparr>cl_crypto := \<lparr>rng = 1\<rparr>, cl_channels := [(?cid, ch1\<lparr>ch_storage := storage\<rparr>)]\<rparr>"
  have start: "7 = kp_public (cl_key_pair demo_owner)" "?me = compute_id (d_crypto ?D) 7"
      "nonce (d_crypto ?D) (cl_crypto demo_owner) = (0, \<lparr>rng = 1\<rparr>)"
      "?nc = \<lparr>nc_nonce = 0, nc_name = name, nc_owner = 7\<rparr>" "0 < d_max_nodes ?D"
      "to_slice (d_new_channels ?D) ?nc (replicate 4096 0) = (Ok ?bs, ?buf)"
      "?cid = channel_id_from_bytes (d_crypto ?D) \<lparr>rng = 1\<rparr> ?bs"
    using size(3) demo_owner_id demo_nonce demo_new_channel_written [OF size(2)]
    by (simp_all add: demo_new_channel_def demo_cid_def)
  have written: "to_slice (d_envelopes ?D) ?env target = (Ok (enc_envelope ?env), target')"
      "get_writer (d_io ?D) (storage_new io) = Ok w"
      "write_and_commit (d_io ?D) w 1 (message_count (ch_chat ch1)) (msg_sequence ?m) ?me (enc_envelope ?env) = (Ok (), storage)"
      "index_map_insert (d_max_channels ?D) ?cid (ch1\<lparr>ch_storage := storage\<rparr>) (cl_channels demo_owner)
        = Some [(?cid, ch1\<lparr>ch_storage := storage\<rparr>)]"
    using sealed(2) w size(4) by (simp_all add: index_map_insert_def)
  have init: "init_chat ?D demo_owner name io = (Ok ?cid, ?self)"
    by (rule init_chat_runs [OF start(1-4) size(2) start(5-7) refl first(1) sealed(1) written(1) first(2) written(2-4)])
  have "ch_state (ch1\<lparr>ch_storage := storage\<rparr>) = st1" "max_index (storage_io (ch_storage (ch1\<lparr>ch_storage := storage\<rparr>))) = max_index io"
    "ch_chat (ch1\<lparr>ch_storage := storage\<rparr>) = (chat_new ?cid)\<lparr>users := [(?me, 7)], owner_id := Some ?me\<rparr>"
    using w(3) by (simp_all add: first(3) storage_new_def)
  note made = this
  have writer: "get_writer (d_io ?D) (ch_storage ch1) = Ok w" using w(1) by (simp add: first(3))
  obtain r where r: "rec_data r = enc_envelope ?env"
      "replica ?D (mem_holds SLAB plain_serde plain_enc) 7 ?cid (ch1\<lparr>ch_storage := storage\<rparr>) [[r]]"
    by (rule demo_first_replica [OF io(1) refl size(3) refl refl sealed(1) [unfolded demo_owner_simps] first(1,2) writer written(3)])
  have "length (rec_data r) = 220 + 2 * length name" by (simp add: r(1) demo_first_lengths)
  then show thesis using made r(2) by (intro that [OF init]) (simp_all only: first(4,5))
qed

lemma demo_received_log:
  obtains io r where "demo_holds io [[r]]" "rec_data r = enc_envelope demo_envelope"
proof -
  obtain st :: "mem_io storage" where st: "demo_holds (storage_io st) []" "max_index (storage_io st) = 2"
    by (rule demo_storage)
  obtain self' where received: "do_receive (demo_deps 2000) (demo_client 9 st) (ChannelId (Id 3))
      (enc_envelope demo_envelope) = (Ok (), self')"
    by (rule demo_receive_ok [OF st])
  obtain m who ch' where "advanced (demo_deps 2000) demo_holds (demo_channel st) [] who m (enc_envelope demo_envelope) ch'"
    using app.do_receive_cases [OF demo_client_simps(4) demo_channel_ok [OF st(1)] received] by auto
  then show thesis using that by (auto simp: advanced_def channel_ok_def)
qed

end
