(* ===== verification/Client_Life.thy ===== *)
theory Client_Life
  imports Start_Demo
begin

text \<open>
  Properties of the beginning of a channel and of its life across restarts: what \<^verbatim>\<open>init_chat\<close> makes,
  that \<^verbatim>\<open>open_chat\<close> is the replay of the log and gives the owner's device its channel back, and that
  it cannot do so on any other device.
\<close>

subsection \<open>Making a channel\<close>

text \<open>
  C26. What \<^verbatim>\<open>init_chat\<close> makes. On an empty store, with a name that fits, room for the channel, and an
  envelope and a record that fit their buffers, it succeeds: the channel's id is the hash of the
  announcement, the client has it beside its other channels, its log holds exactly the envelope of the
  announcement, and its state is that of a channel whose only node, member and owner is the device
  itself, at sequence number 1 and with no chat message counted.
\<close>

theorem new_channel_made:
  assumes D: "D = app_deps SLAB P SR SM SE SN M MC"
    and key: "key = kp_public (cl_key_pair self)" "me = compute_id (d_crypto D) key"
    and start: "nonce (d_crypto D) (cl_crypto self) = (n, crypto)" "nc = \<lparr>nc_nonce = n, nc_name = name, nc_owner = key\<rparr>"
      "length name \<le> NAME_MAX" "0 < M" "to_slice SN nc (replicate 4096 0) = (Ok bs, buf)"
      "cid = channel_id_from_bytes (d_crypto D) crypto bs"
    and sealed: "seal (d_crypto D) crypto me (Channel cid) (cl_key_pair self) (first_message me nc) buf = (Ok env, target)"
      "to_slice SE env target = (Ok d, target')"
    and store: "mem_holds SLAB SR enc io []" "0 < max_index io"
      "\<forall>r. rec_data r = d \<longrightarrow> INITIAL_OFFSET + 4 + length (enc r) \<le> SLAB"
    and room: "map_of (cl_channels self) cid \<noteq> None \<or> length (cl_channels self) < MC"
  shows "\<exists>ch self'. init_chat D self name io = (Ok cid, self') \<and>
    map_of (cl_channels self') = (map_of (cl_channels self))(cid \<mapsto> ch) \<and> cl_key_pair self' = cl_key_pair self \<and>
    advanced D (mem_holds SLAB SR enc) (start_channel me key io cid) [] me (first_message me nc) d ch \<and>
    clock (ch_state ch) = [me \<mapsto> 1] \<and> channel_keys (ch_state ch) = [me \<mapsto> key] \<and>
    ch_chat ch = \<lparr>chat_id = cid, owner_id = Some me, users = [(me, key)], chat_message_count = 0\<rparr>"
proof -
  let ?ch = "start_channel me key io cid"
  obtain st ch1 where addr: "address (ch_state ?ch) me (NewChannel nc) = Ok (first_message me nc)"
    and taken: "take_message D ?ch cid me (first_message me nc) (envelope_id_of (d_crypto D) crypto env) = (Ok 1, ch1)"
    and ch1: "ch1 = ?ch\<lparr>ch_state := st, ch_chat := (chat_new cid)\<lparr>users := [(me, key)], owner_id := Some me\<rparr>\<rparr>"
    and st: "clock st = [me \<mapsto> 1]" "channel_keys st = [me \<mapsto> key]"
    by (rule take_first_message [OF _ key(2), of nc ?ch io cid]) (use start(2,4) in \<open>simp_all add: D\<close>)
  let ?r = "\<lparr>rec_max_sequence = 1, rec_message_count = message_count (ch_chat ch1),
    rec_sequence = msg_sequence (first_message me nc), rec_sender = me, rec_data = d\<rparr>"
  have held: "mem_holds SLAB SR enc (storage_io (storage_new io)) []" "length [] < max_index (storage_io (storage_new io))"
    using store by (simp_all add: storage_new_def)
  have "INITIAL_OFFSET + 4 + length (enc ?r) \<le> SLAB" using store(3) by simp
  then obtain w storage where w: "get_writer (mem_io_trait SLAB SR) (storage_new io) = Ok w"
      "write_and_commit (mem_io_trait SLAB SR) w 1 (message_count (ch_chat ch1)) (msg_sequence (first_message me nc)) me d
        = (Ok (), storage)"
    using mem_store_ok [OF held, of ?r] by (metis stored.select_convs(1-5))
  let ?ch' = "ch1\<lparr>ch_storage := storage\<rparr>"
  obtain chs where chs: "index_map_insert MC cid ?ch' (cl_channels self) = Some chs"
    using room by (cases "index_map_insert MC cid ?ch' (cl_channels self)") (auto simp: index_map_insert_None)
  have made: "init_chat D self name io = (Ok cid, self\<lparr>cl_crypto := crypto, cl_channels := chs\<rparr>)"
    by (rule init_chat_runs [OF key start(1,2,3) _ _ start(6) refl addr sealed(1) _ taken])
      (use start(4,5) sealed(2) w chs in \<open>simp_all add: D\<close>)
  have ok: "channel_ok D (mem_holds SLAB SR enc) ?ch []"
    using replica_start [OF D store(1) start(4), of key cid] by (simp add: replica_def key(2))
  have acc: "acceptable (clock (ch_state ?ch)) me (first_message me nc)"
    using ok by (intro address_acceptable(1) [OF _ addr, of "d_max_nodes D"]) (simp add: channel_ok_def)
  have "advanced D (mem_holds SLAB SR enc) ?ch [] me (first_message me nc) d ?ch'"
    using app.store_taken [of SLAB P SR SM SE SN M MC enc ?ch "[]" me "first_message me nc" cid _ 1 ch1 w d "Ok ()" storage]
      ok acc taken w by (simp add: D ch1)
  then show ?thesis
    using made index_map_insert_Some [OF chs] st
    by (intro exI [of _ ?ch'] exI [of _ "self\<lparr>cl_crypto := crypto, cl_channels := chs\<rparr>"])
      (simp add: ch1 chat_new_def)
qed

theorem new_channel_made_witness:
  "\<exists>io ch self'. init_chat (demo_deps 2000) demo_owner ''room'' io = (Ok (demo_cid ''room''), self') \<and>
    map_of (cl_channels self') (demo_cid ''room'') = Some ch \<and> clock (ch_state ch) = [NodeId (Id 7) \<mapsto> 1] \<and>
    ch_chat ch = \<lparr>chat_id = demo_cid ''room'', owner_id = Some (NodeId (Id 7)), users = [(NodeId (Id 7), 7)],
      chat_message_count = 0\<rparr>"
proof -
  let ?D = "demo_deps 2000" and ?me = "NodeId (Id 7)" and ?cid = "demo_cid ''room''" and ?nc = "demo_new_channel ''room''"
  let ?env = "demo_first_envelope ?cid ''room''"
  obtain st :: "mem_io storage" where st: "demo_holds (storage_io st) []" "max_index (storage_io st) = 2"
    by (rule demo_storage)
  have name: "length ''room'' \<le> NAME_MAX" by (simp add: NAME_MAX_def)
  have start: "7 = kp_public (cl_key_pair demo_owner)" "?me = compute_id (d_crypto ?D) 7"
      "nonce (d_crypto ?D) (cl_crypto demo_owner) = (0, \<lparr>rng = 1\<rparr>)"
      "?nc = \<lparr>nc_nonce = 0, nc_name = ''room'', nc_owner = 7\<rparr>" "(0 :: nat) < 4"
      "?cid = channel_id_from_bytes (d_crypto ?D) \<lparr>rng = 1\<rparr> (enc_new_channel ?nc)"
    using demo_owner_id demo_nonce by (simp_all add: demo_new_channel_def demo_cid_def)
  obtain target target' where sealed: "seal (d_crypto ?D) \<lparr>rng = 1\<rparr> ?me (Channel ?cid) (cl_key_pair demo_owner)
      (first_message ?me ?nc) (overwrite (replicate 4096 0) 0 (enc_new_channel ?nc)) = (Ok ?env, target)"
      "to_slice envelope_serde ?env target = (Ok (enc_envelope ?env), target')"
    using demo_first_seal [OF name] by (metis app_deps_simps(1) demo_owner_simps(3))
  have room: "0 < max_index (storage_io st)" "map_of (cl_channels demo_owner) ?cid \<noteq> None \<or> length (cl_channels demo_owner) < 2"
      "\<forall>r. rec_data r = enc_envelope ?env \<longrightarrow> INITIAL_OFFSET + 4 + length (plain_enc r) \<le> 2000"
    using st(2) by (simp_all add: length_plain_enc demo_first_lengths INITIAL_OFFSET_def)
  from new_channel_made [OF refl start(1-4) name start(5) demo_new_channel_written [OF name] start(6) sealed st(1)
      room(1,3,2)]
  obtain ch self' where "init_chat ?D demo_owner ''room'' (storage_io st) = (Ok ?cid, self')"
      "map_of (cl_channels self') = (map_of (cl_channels demo_owner))(?cid \<mapsto> ch)" "clock (ch_state ch) = [?me \<mapsto> 1]"
      "ch_chat ch = \<lparr>chat_id = ?cid, owner_id = Some ?me, users = [(?me, 7)], chat_message_count = 0\<rparr>"
    by blast
  then show ?thesis by (metis fun_upd_same)
qed

subsection \<open>Opening a channel\<close>

text \<open>
  C27. Opening a channel always ends, and it is the replay of its log. Over a memory device that holds any
  log, \<^verbatim>\<open>open_chat\<close> returns; unless the new state itself is refused it takes the stored envelopes, in
  the order they were written, into a new state whose only node is the device itself, stops at the
  first that is refused without adding a channel, and otherwise adds the channel that results.
\<close>

theorem open_chat_replays:
  assumes D: "D = app_deps SLAB P SR SM SE SN M MC"
    and log: "mem_holds SLAB SR enc io rss" "[] \<notin> set rss" and M: "0 < M"
    and me: "key = kp_public (cl_key_pair self)" "me = compute_id (d_crypto D) key"
  shows "open_chat D self cid io = Some (or_return
    (replay_all D (cl_crypto self) cid (map rec_data (concat rss))
      \<lparr>nodes = [new_record me key], newest = me\<rparr> (chat_new cid)) self
    (\<lambda>(channel, chat). insert_channel D self cid
      \<lparr>ch_state = channel, ch_storage = storage_new io, ch_chat = chat\<rparr>))"
proof -
  have "channel_new (d_max_nodes D) (compute_id (d_crypto D) (kp_public (cl_key_pair self)))
      (kp_public (cl_key_pair self)) = Ok \<lparr>nodes = [new_record me key], newest = me\<rparr>"
    using M me by (simp add: D channel_new_def vec_push_def)
  with mem_source.open_replays [of D SLAB SR enc io rss self] log show ?thesis by (simp add: D)
qed


theorem open_chat_replays_witness:
  "\<exists>io. open_chat (demo_deps 2000) demo_owner (ChannelId (Id 3)) io = Some (or_return
    (replay_all (demo_deps 2000) \<lparr>rng = 0\<rparr> (ChannelId (Id 3)) [enc_envelope demo_envelope]
      \<lparr>nodes = [new_record (NodeId (Id 7)) 7], newest = NodeId (Id 7)\<rparr> (chat_new (ChannelId (Id 3)))) demo_owner
    (\<lambda>(channel, chat). insert_channel (demo_deps 2000) demo_owner (ChannelId (Id 3))
      \<lparr>ch_state = channel, ch_storage = storage_new io, ch_chat = chat\<rparr>))"
proof -
  obtain io r where io: "demo_holds io [[r]]" "rec_data r = enc_envelope demo_envelope" by (rule demo_received_log)
  have "NodeId (Id 7) = compute_id (d_crypto (demo_deps 2000)) 7" by (simp add: demo_owner_id)
  from open_chat_replays [OF refl io(1) _ _ _ this, of demo_owner "ChannelId (Id 3)"] io(2)
  show ?thesis by (intro exI [of _ io]) simp
qed

text \<open>
  C8. A restart loses nothing. Whatever the owner of a channel has sent and received since it made the
  channel, failing calls included as long as none was torn (a torn call leaves a message in the clock that the log
  lacks), opening the channel's store on a client with the same keys gives back exactly the channel:
  the clock, the keys, the chat and the storage, also where the live handlers and the replay of
  \<^verbatim>\<open>open_chat\<close> apply their updates in different orders.
\<close>

theorem reopened_channel_restored:
  assumes D: "D = app_deps SLAB P SR SM SE SN M MC" and keys: "rust_matching P SM kp" and envs: "serde_ok SE enc_env"
    and run: "owner_run D (mem_holds SLAB SR enc) kp cid self" "map_of (cl_channels self) cid = Some ch"
    and b: "cl_key_pair b = kp" "map_of (cl_channels b) cid \<noteq> None \<or> length (cl_channels b) < MC"
  shows "\<exists>b'. open_chat D b cid (storage_io (ch_storage ch)) = Some (Ok (), b') \<and>
    map_of (cl_channels b') = (map_of (cl_channels b))(cid \<mapsto> ch)"
proof -
  let ?key = "kp_public kp" and ?io = "storage_io (ch_storage ch)"
  obtain rss where rss: "replica D (mem_holds SLAB SR enc) ?key cid ch rss"
    using owner_run_replica [OF D keys envs run(1)] run(2) by auto
  then have ok: "mem_holds SLAB SR enc ?io rss" "[] \<notin> set rss"
    by (simp_all add: replica_def channel_ok_def)
  have new: "channel_new (d_max_nodes D) (compute_id (d_crypto D) (kp_public (cl_key_pair b)))
      (kp_public (cl_key_pair b)) = Ok (start_state (compute_id (d_crypto D)) ?key)"
    using replica_nodes [OF rss] by (simp add: channel_new_Ok b(1) start_state_def)
  obtain chs where chs: "index_map_insert MC cid ch (cl_channels b) = Some chs"
    using b(2) by (cases "index_map_insert MC cid ch (cl_channels b)") (auto simp: index_map_insert_None)
  have "\<lparr>ch_state = ch_state ch, ch_storage = storage_new ?io, ch_chat = ch_chat ch\<rparr> = ch"
    by (cases ch) (simp add: storage_new_def)
  then have "open_chat D b cid ?io = Some (Ok (), b\<lparr>cl_channels := chs\<rparr>)"
    using mem_source.open_replays [OF _ _ ok new] log_run_replays [OF replica_run(3) [OF rss] replica_run(1) [OF rss], of "cl_crypto b"] chs
    by (simp add: D insert_channel_def)
  then show ?thesis using index_map_insert_Some [OF chs] by auto
qed

theorem reopened_channel_restored_witness:
  "\<exists>io ch self' b'. init_chat (demo_deps 2000) demo_owner ''room'' io = (Ok (demo_cid ''room''), self') \<and>
    map_of (cl_channels self') (demo_cid ''room'') = Some ch \<and>
    open_chat (demo_deps 2000) demo_owner (demo_cid ''room'') (storage_io (ch_storage ch)) = Some (Ok (), b') \<and>
    map_of (cl_channels b') (demo_cid ''room'') = Some ch"
proof -
  let ?D = "demo_deps 2000" and ?cid = "demo_cid ''room''"
  obtain st :: "mem_io storage" where st: "demo_holds (storage_io st) []" "max_index (storage_io st) = 2"
    by (rule demo_storage)
  obtain ch where init: "init_chat ?D demo_owner ''room'' (storage_io st)
      = (Ok ?cid, demo_owner\<lparr>cl_crypto := \<lparr>rng = 1\<rparr>, cl_channels := [(?cid, ch)]\<rparr>)"
    by (rule demo_init_runs [OF st(1), of "''room''" 4 2]) (use st(2) in \<open>simp_all add: NAME_MAX_def\<close>)
  let ?self = "demo_owner\<lparr>cl_crypto := \<lparr>rng = 1\<rparr>, cl_channels := [(?cid, ch)]\<rparr>"
  have me: "cl_node_id demo_owner = compute_id (d_crypto ?D) (kp_public (demo_pair 7))" by (simp add: demo_owner_id)
  have run: "owner_run ?D demo_holds (demo_pair 7) ?cid ?self"
    by (rule owner_init [where holds = demo_holds and io = "storage_io st", OF demo_owner_simps(3) me st(1) init])
  have find: "map_of (cl_channels ?self) ?cid = Some ch" by simp
  obtain b' where "open_chat ?D demo_owner ?cid (storage_io (ch_storage ch)) = Some (Ok (), b')"
      "map_of (cl_channels b') = (map_of (cl_channels demo_owner))(?cid \<mapsto> ch)"
    using reopened_channel_restored [OF refl demo_matching envelope_serde_ok run find, of demo_owner] by auto
  with init find show ?thesis by (metis fun_upd_same)
qed

text \<open>
  C34. Only the device that wrote the first message of a log can open it. \<^verbatim>\<open>open_chat\<close> starts from a
  state that knows the device's own node alone, so a member's log, which begins with the owner's
  announcement, is refused with \<open>UnknownNode\<close> and no channel is added: after a restart a member has
  lost the channel although its store holds all of it.
\<close>

theorem foreign_log_refused:
  assumes D: "D = app_deps SLAB P SR SM SE SN M MC" and M: "0 < M"
    and log: "mem_holds SLAB SR enc io rss" "[] \<notin> set rss" "concat rss = r # rs"
    and first: "from_bytes SE (rec_data r) = Ok env"
      "env_from env \<noteq> compute_id (d_crypto D) (kp_public (cl_key_pair self))"
  shows "open_chat D self cid io = Some (Err (ChannelError UnknownNode), self)"
proof -
  let ?key = "kp_public (cl_key_pair self)"
  let ?me = "compute_id (d_crypto D) ?key"
  let ?st = "\<lparr>nodes = [new_record ?me ?key], newest = ?me\<rparr>"
  have new: "channel_new (d_max_nodes D) ?me ?key = Ok ?st" by (simp add: D channel_new_Ok M)
  note sorted = channel_inv_sorted [OF channel_new_inv [OF new]]
  have unknown: "get_node_key ?st (env_from env) = Err UnknownNode"
    using first(2) by (simp add: get_node_key_lookup [OF sorted] start_clock)
  have "replay_record D (cl_crypto self) cid (rec_data r) ?st (chat_new cid) = Err (ChannelError UnknownNode)"
    using first(1) unknown by (simp add: replay_record_def D Let_def)
  then show ?thesis
    using mem_source.open_replays [OF _ _ log(1,2) new] log(3) by (simp add: D)
qed

theorem foreign_log_refused_witness:
  "\<exists>io. open_chat (demo_deps 2000) (demo_client 9 (storage_new io)) (ChannelId (Id 3)) io
    = Some (Err (ChannelError UnknownNode), demo_client 9 (storage_new io))"
proof -
  obtain io r where "demo_holds io [[r]]" "rec_data r = enc_envelope demo_envelope" by (rule demo_received_log)
  moreover have "from_bytes envelope_serde (enc_envelope demo_envelope) = Ok demo_envelope"
    using envelope_serde_ok unfolding serde_ok_def by blast
  moreover have "env_from demo_envelope \<noteq> compute_id (d_crypto (demo_deps 2000))
      (kp_public (cl_key_pair (demo_client 9 (storage_new io))))"
    unfolding demo_client_simps demo_owner_simps(5) demo_compute_id by (simp add: demo_envelope_def)
  ultimately have "open_chat (demo_deps 2000) (demo_client 9 (storage_new io)) (ChannelId (Id 3)) io
      = Some (Err (ChannelError UnknownNode), demo_client 9 (storage_new io))"
    by (intro foreign_log_refused [OF refl _ \<open>demo_holds io [[r]]\<close>, where r = r and rs = "[]" and env = demo_envelope]) simp_all
  then show ?thesis by blast
qed

end
