(* ===== verification/Crypto_Properties.thy ===== *)
theory Crypto_Properties
  imports Client_Properties
begin

text \<open>
  What a signature protects. That collisions of SHA-256 are hard to find is not a property of the function, so
  nothing of the kind is assumed: the theorem names the two pairs of byte strings, one of which collides if an
  envelope opens that should not. What is used of the signature scheme is that of PKCS #1 v1.5, as
  \<^verbatim>\<open>VerifyingKey<Sha256>\<close> implements it: a signature contains the SHA-256 hash of what it signs.
\<close>

lemma concat_fields_inject:
  assumes "length a = length a'" "length b = length b'" "concat [a, b, c] = concat [a', b', c']"
  shows "a = a'" "b = b'" "c = c'"
  using assms by auto

text \<open>The bytes over which an envelope is signed.\<close>

abbreviation signed_fields :: "sealed_envelope \<Rightarrow> u8 list list" where
  "signed_fields env \<equiv>
     [node_id_to_be_bytes (env_from env), recipient_to_be_bytes (env_to env), env_serialized env]"

lemma length_recipient_to_be_bytes [simp]: "length (recipient_to_be_bytes to) = SHA256_SIZE"
  by (cases to) simp_all

lemma node_id_to_be_bytes_inject: "node_id_to_be_bytes a = node_id_to_be_bytes b \<longleftrightarrow> a = b"
  by (cases a; cases b) (metis id_from_to_bytes node_id.sel node_id_to_be_bytes_def)

lemma signed_fields_inject:
  assumes "concat (signed_fields env') = concat (signed_fields env)"
  shows "env_from env' = env_from env" "recipient_to_be_bytes (env_to env') = recipient_to_be_bytes (env_to env)"
    "env_serialized env' = env_serialized env"
  using concat_fields_inject [OF _ _ assms] by (simp_all add: node_id_to_be_bytes_inject)

text \<open>A collision of the hash function: two different byte strings with the same hash.\<close>

definition collides :: "('rng, 's, 'p, 'sig) primitives \<Rightarrow> u8 list \<Rightarrow> u8 list \<Rightarrow> bool" where
  "collides P x y \<longleftrightarrow> x \<noteq> y \<and> sha256 P x = sha256 P y"

text \<open>
  A signature that is valid for two digests has the hash of both, so the digests collide or are those of the same
  bytes, unless those bytes collide: the code signs the SHA-256 digest of the fields, and the signature scheme hashes it
  once more.
\<close>

lemma same_signature_same_fields:
  assumes hashed: "\<forall>x y sig. verify P key x sig \<and> verify P key y sig \<longrightarrow> sha256 P x = sha256 P y"
    and valid: "verify P key (digest P xs) sig" "verify P key (digest P ys) sig"
  shows "concat xs = concat ys \<or> collides P (concat xs) (concat ys) \<or> collides P (digest P xs) (digest P ys)"
proof -
  have "sha256 P (digest P xs) = sha256 P (digest P ys)" using hashed valid by blast
  then show ?thesis by (auto simp: collides_def digest_def)
qed

text \<open>
  C22. What the signature of an envelope protects. A sealed envelope opens to its message under the public
  key of the pair. Another envelope that carries its signature opens under that key only if sender,
  content and the bytes of the recipient are the same, or else SHA-256 has a collision, of the signed bytes of the two
  envelopes or of their two digests. The kind of the recipient is not protected: the envelope
  also opens with a node as its recipient in place of the channel with the same bytes, and the other way
  round. Of the signature scheme it is used that a signature contains the hash of what it signs.
\<close>

theorem signature_binds_envelope:
  assumes P: "primitives_ok P" and S: "serde_ok S enc" and pair: "kp_public kp = to_public_key P (kp_private kp)"
    and sealed: "rust_seal P S MAX_ENV MAX_SIGNATURE from to kp m target = (Ok env, target')"
    and hashed: "\<forall>x y sig. verify P (kp_public kp) x sig \<and> verify P (kp_public kp) y sig \<longrightarrow> sha256 P x = sha256 P y"
    and copied: "env_signature env' = env_signature env"
  shows "rust_open P S (kp_public kp) env = Ok m \<and>
    (\<forall>m'. rust_open P S (kp_public kp) env' = Ok m' \<longrightarrow>
       (m' = m \<and> env_from env' = from \<and> env_serialized env' = env_serialized env \<and>
          recipient_to_be_bytes (env_to env') = recipient_to_be_bytes to) \<or>
       collides P (concat (signed_fields env')) (concat (signed_fields env)) \<or>
       collides P (digest P (signed_fields env')) (digest P (signed_fields env))) \<and>
    (\<forall>to'. recipient_to_be_bytes to' = recipient_to_be_bytes to \<longrightarrow>
       rust_open P S (kp_public kp) (env\<lparr>env_to := to'\<rparr>) = Ok m)"
proof -
  obtain r sig where env: "env = \<lparr>env_from = from, env_to = to, env_serialized = enc m, env_signature = sig\<rparr>"
    and signed: "sign_with_rng P (kp_private kp) r
      (digest P [node_id_to_be_bytes from, recipient_to_be_bytes to, enc m]) = Some sig"
    using rust_seal_Ok [OF S sealed] by metis
  obtain parsed where parsed: "signature_try_from P sig = Some parsed"
      "verify P (kp_public kp) (digest P (signed_fields env)) parsed"
    using signed_verifies [OF P signed] pair by (auto simp: env)
  have read: "from_bytes S (enc m) = Ok m" using S by (simp add: serde_ok_def)
  have opens: "rust_open P S (kp_public kp) env = Ok m"
    using parsed read by (simp add: rust_open_def env)
  moreover have "rust_open P S (kp_public kp) (env\<lparr>env_to := to'\<rparr>) = Ok m"
    if "recipient_to_be_bytes to' = recipient_to_be_bytes to" for to'
    using parsed read that by (simp add: rust_open_def env)
  moreover have "(m' = m \<and> env_from env' = from \<and> env_serialized env' = env_serialized env \<and>
        recipient_to_be_bytes (env_to env') = recipient_to_be_bytes to) \<or>
      collides P (concat (signed_fields env')) (concat (signed_fields env)) \<or>
      collides P (digest P (signed_fields env')) (digest P (signed_fields env))"
    if "rust_open P S (kp_public kp) env' = Ok m'" for m'
  proof -
    have valid: "verify P (kp_public kp) (digest P (signed_fields env')) parsed"
      and content: "from_bytes S (env_serialized env') = Ok m'"
      using that copied parsed(1) by (auto simp: rust_open_def env Let_def result_simps split: if_splits)
    from same_signature_same_fields [OF hashed valid parsed(2)] show ?thesis
    proof
      assume "concat (signed_fields env') = concat (signed_fields env)"
      note same = signed_fields_inject [OF this]
      show ?thesis using same content read by (simp add: env)
    qed simp
  qed
  ultimately show ?thesis by blast
qed

text \<open>Primitives whose signature is the digest, and whose digest is the first 32 bytes.\<close>

definition prefix_primitives :: "(nat, u64, u64, u8 list) primitives" where
  "prefix_primitives =
     \<lparr>sha256 = (\<lambda>bs. take 32 (bs @ replicate 32 0)), hkdf_expand = (\<lambda>ikm info. Some (replicate 32 0)),
      rng_from_seed = (\<lambda>_. 0), rng_gen = (\<lambda>n. (of_nat n, Suc n)), to_public_key_der = (\<lambda>k. Some (to_be_bytes k)),
      to_pkcs8_der = (\<lambda>k. Some (to_be_bytes k)), sign_with_rng = (\<lambda>k r h. Some h), signature_try_from = Some,
      verify = (\<lambda>k h s. s = h), rsa_private_key_new = (\<lambda>r bits. (Some 7, Suc r)), to_public_key = (\<lambda>k. k)\<rparr>"

lemma prefix_primitives_ok: "primitives_ok prefix_primitives"
  by (auto simp: primitives_ok_def prefix_primitives_def SHA256_SIZE_def min_def)

lemma prefix_digest: "digest prefix_primitives (signed_fields env) = node_id_to_be_bytes (env_from env)"
  by (simp add: digest_def prefix_primitives_def SHA256_SIZE_def)

lemma prefix_hash:
  "sha256 prefix_primitives (concat (signed_fields env)) = node_id_to_be_bytes (env_from env)"
  "sha256 prefix_primitives (node_id_to_be_bytes n) = node_id_to_be_bytes n"
  by (simp_all add: prefix_primitives_def SHA256_SIZE_def)

theorem signature_binds_envelope_witness:
  "\<exists>env target. rust_seal prefix_primitives message_serde MAX_ENVELOPE MAX_SIG (NodeId (Id 7)) (Channel (ChannelId (Id 3)))
      (demo_pair 7) demo_message (replicate 4096 0) = (Ok env, target) \<and>
    rust_open prefix_primitives message_serde 7 (env\<lparr>env_to := Node (NodeId (Id 3))\<rparr>) = Ok demo_message \<and>
    (\<forall>m'. rust_open prefix_primitives message_serde 7 (env\<lparr>env_from := NodeId (Id 9)\<rparr>) \<noteq> Ok m')"
proof -
  have ser: "to_slice message_serde demo_message (replicate 4096 0)
      = (Ok (enc_message demo_message), overwrite (replicate 4096 0) 0 (enc_message demo_message))"
    by (rule serde_to_slice_fits [OF message_serde_ok]) (simp add: demo_lengths)
  obtain env target where sealed: "rust_seal prefix_primitives message_serde MAX_ENVELOPE MAX_SIG (NodeId (Id 7))
      (Channel (ChannelId (Id 3))) (demo_pair 7) demo_message (replicate 4096 0) = (Ok env, target)"
      "env_from env = NodeId (Id 7)"
    by (simp add: rust_seal_def ser digest_array_def prefix_primitives_def digest_def SHA256_SIZE_def
        sealed_envelope_new_def vec_from_slice_def demo_lengths MAX_ENVELOPE_def MAX_SIG_def)
  have pair: "kp_public (demo_pair 7) = to_public_key prefix_primitives (kp_private (demo_pair 7))"
    and hashed: "\<forall>x y sig. verify prefix_primitives (kp_public (demo_pair 7)) x sig \<and>
      verify prefix_primitives (kp_public (demo_pair 7)) y sig \<longrightarrow> sha256 prefix_primitives x = sha256 prefix_primitives y"
    by (simp_all add: prefix_primitives_def demo_pair_def)
  let ?env' = "env\<lparr>env_from := NodeId (Id 9)\<rparr>"
  have "env_signature ?env' = env_signature env" by simp
  moreover have "\<not> collides prefix_primitives (concat (signed_fields ?env')) (concat (signed_fields env))"
      "\<not> collides prefix_primitives (digest prefix_primitives (signed_fields ?env')) (digest prefix_primitives (signed_fields env))"
    unfolding collides_def prefix_digest prefix_hash node_id_to_be_bytes_inject by (simp_all add: sealed(2))
  ultimately have "rust_open prefix_primitives message_serde 7 (env\<lparr>env_to := Node (NodeId (Id 3))\<rparr>) = Ok demo_message \<and>
      (\<forall>m'. rust_open prefix_primitives message_serde 7 ?env' \<noteq> Ok m')"
    using signature_binds_envelope [OF prefix_primitives_ok message_serde_ok pair sealed(1) hashed _, of ?env']
    by (auto simp: demo_pair_def node_id_to_be_bytes_def channel_id_to_be_bytes_def)
  with sealed(1) show ?thesis by blast
qed

end
