(* ===== verification/Sync_Properties.thy ===== *)
theory Sync_Properties
  imports Client_Sync Client_Life
begin

text \<open>
  Properties of a synchronisation: the responder's merge of the two vector clocks, and the buffer that
  carries envelopes from the responder's log to the requester.
\<close>

text \<open>
  C21. The three nested loops with which \<^verbatim>\<open>start_sync_response\<close> merges its sorted nodes with the
  requester's sorted clock compute the union of the two as maps: a node that the request names keeps the
  request's sequence, a node that only the responder knows gets the first sequence the responder has of
  it, in the order of the ids. The call succeeds exactly when the union has at most \<^verbatim>\<open>MAX_NODES\<close>
  nodes, and otherwise ends with \<open>Unreachable\<close>, which two honest devices can thus reach.
\<close>

theorem response_merges_clocks:
  assumes find: "map_of (cl_channels self) cid = Some ch" and inv: "channel_inv (d_max_nodes D) (ch_state ch)"
    and request: "keys_sorted clk_node (req_vector_clock request)"
    and step: "start_sync_response D self cid state request = (r, state')"
  shows "r = (if card (ns_node ` set (nodes (ch_state ch)) \<union> clk_node ` set (req_vector_clock request)) \<le> d_max_nodes D
      then Ok () else Err Client_Unreachable) \<and>
    keys_sorted clk_node (rs_vector_clock state') \<and>
    (r = Ok () \<longrightarrow> (\<forall>k. keyed clk_node (rs_vector_clock state') k =
       (case keyed clk_node (req_vector_clock request) k of
          Some c \<Rightarrow> Some c
        | None \<Rightarrow> map_option fresh_clock (node_record (ch_state ch) k))))"
proof -
  note sorted = channel_inv_sorted [OF inv]
  let ?m = "merge_clocks (nodes (ch_state ch)) (req_vector_clock request)"
  have "keys_sorted clk_node (take n ?m)" for n
    using merge_clocks_sorted [OF sorted request] sorted_wrt_take by (simp add: take_map [symmetric])
  then show ?thesis
    using step merge_clocks_sorted [OF sorted request] keyed_merge_clocks [OF sorted request]
    unfolding start_sync_response_merges [OF find] node_record_def length_merge_clocks [OF sorted request, symmetric]
    by (auto simp: push_all_def split: if_splits)
qed

abbreviation demo_sync_deps :: "nat \<Rightarrow> (nat rust_crypto, u64, u64, mem_io) deps" where
  "demo_sync_deps M \<equiv>
     app_deps 2000 demo_primitives plain_serde message_serde envelope_serde new_channel_serde M 2"

definition demo_request :: "node_id \<Rightarrow> sync_request" where
  "demo_request n = \<lparr>req_session_id = 0, req_bytes_budget = 0, req_vector_clock = [sync_clock_new n 0]\<rparr>"

lemma demo_request_clock:
  "req_vector_clock (demo_request n) = [\<lparr>clk_node = n, clk_sequence = 0\<rparr>]"
  "keys_sorted clk_node (req_vector_clock (demo_request n))"
  by (simp_all add: demo_request_def sync_clock_new_def)

theorem response_merges_clocks_witness:
  "\<exists>st. fst (start_sync_response (demo_sync_deps 3) (demo_client 7 st) (ChannelId (Id 3))
      (sync_responder_new (demo_request (NodeId (Id 8)))) (demo_request (NodeId (Id 8)))) = Ok () \<and>
    fst (start_sync_response (demo_sync_deps 2) (demo_client 7 st) (ChannelId (Id 3))
      (sync_responder_new (demo_request (NodeId (Id 8)))) (demo_request (NodeId (Id 8)))) = Err Client_Unreachable"
proof -
  obtain st :: "mem_io storage" where "demo_holds (storage_io st) []" by (rule demo_storage)
  have inv: "channel_inv (d_max_nodes (demo_sync_deps M)) (ch_state (demo_channel st))" if "2 \<le> M" for M
    using demo_state_inv that by (simp add: channel_inv_def demo_state_def)
  have union: "card (ns_node ` set (nodes (ch_state (demo_channel st))) \<union> clk_node ` set (req_vector_clock (demo_request (NodeId (Id 8))))) = 3"
    by (simp add: demo_request_clock demo_state_def)
  have "fst (start_sync_response (demo_sync_deps M) (demo_client 7 st) (ChannelId (Id 3))
      (sync_responder_new (demo_request (NodeId (Id 8)))) (demo_request (NodeId (Id 8)))) = (if 3 \<le> M then Ok () else Err Client_Unreachable)"
    if "2 \<le> M" for M
    using response_merges_clocks [OF demo_client_simps(4) inv [OF that] demo_request_clock(2) prod.collapse [symmetric]] union
    by (metis app_deps_simps(6))
  from this [of 3] this [of 2] show ?thesis by auto
qed

subsection \<open>The buffer\<close>

lemma start_below:
  assumes merged: "start_sync_response D self cid state0 request = (Ok (), state)"
    and find: "map_of (cl_channels self) cid = Some ch" and inv: "channel_inv (d_max_nodes D) (ch_state ch)"
    and request: "keys_sorted clk_node (req_vector_clock request)"
    and start: "get_min_sequence state = Some start"
    and lacks: "case keyed clk_node (req_vector_clock request) n of
      Some c \<Rightarrow> clk_sequence c < s
    | None \<Rightarrow> \<exists>q. node_record (ch_state ch) n = Some q \<and> first_sequence q \<le> s"
  shows "start \<le> s"
proof -
  note sorted = channel_inv_sorted [OF inv]
  have vec: "rs_vector_clock state = merge_clocks (nodes (ch_state ch)) (req_vector_clock request)"
    using merged unfolding start_sync_response_merges [OF find] by (auto simp: push_all_def split: if_splits)
  have "\<exists>c. keyed clk_node (rs_vector_clock state) n = Some c \<and> clk_sequence c \<le> s"
    using lacks unfolding vec keyed_merge_clocks [OF sorted request]
    by (auto simp: node_record_def fresh_clock_def split: option.splits)
  then obtain c where "c \<in> set (rs_vector_clock state)" "clk_sequence c \<le> s"
    using keyed_Some [OF merge_clocks_sorted [OF sorted request]] unfolding vec by auto
  moreover from this(1) have "start \<le> clk_sequence c"
    using start by (auto simp: get_min_sequence_Min split: if_splits)
  ultimately show ?thesis by simp
qed

lemma mem_dropWhile_not:
  "sorted_wrt (\<le>) (map f xs) \<Longrightarrow> x \<in> set xs \<Longrightarrow> (a :: 'b::linorder) \<le> f x \<Longrightarrow> x \<in> set (dropWhile (\<lambda>r. \<not> a \<le> f r) xs)"
  by (induction xs) auto

text \<open>What the responder's buffer holds, and what a requester does with it.\<close>

lemma buffer_served:
  assumes D: "D = app_deps SLAB P SR SM SE SN M MC"
    and a: "map_of (cl_channels a) cid = Some ch" "mem_holds SLAB SR enc (storage_io (ch_storage ch)) rss" "[] \<notin> set rss"
    and start: "get_min_sequence state = Some start"
    and served: "served = dropWhile (\<lambda>r. \<not> start \<le> rec_max_sequence r) (concat rss)" "served \<noteq> []"
    and small: "\<forall>r\<in>set served. length (rec_data r) + LEN_SIZE < usize_limit" "length buffer < usize_limit"
    and ds: "ds = fitting (length buffer) (map rec_data served)"
  shows "\<exists>n buffer'. fill_send_buffer D a cid state buffer = (Ok (of_nat (length ds), n), buffer') \<and> n \<le> length buffer \<and>
       (\<forall>b. receive_buffer D b cid (take n buffer') (of_nat (length ds)) = receive_each D b cid ds)"
proof -
  let ?st = "ch_storage ch"
  obtain c where c: "get_cursor_from_sequence (d_io D) (d_records D) ?st start = Ok (Some c)" "stands enc rss c served"
    using mem_source.search_spec [OF a(2), of "\<lambda>r. start \<le> rec_max_sequence r"] served(2)
    unfolding served(1) [symmetric]
    by (auto simp: get_cursor_from_sequence_def D split: result.splits option.splits)
  have len: "length (packed ds) \<le> length buffer" "length ds \<le> length buffer"
    by (simp_all add: ds length_packed_fitting length_fitting)
  have "fill_loop D ?st c buffer 0 0 = (Ok (of_nat (length ds), length (packed ds)), overwrite buffer 0 (packed ds))"
    using mem_source.fill_loop_packs [OF _ _ a(2,3) c(2) small(1,2), of D 0 0] by (simp add: D ds Let_def)
  then have "fill_send_buffer D a cid state buffer
      = (Ok (of_nat (length ds), length (packed ds)), overwrite buffer 0 (packed ds))"
    using a(1) start c(1) by (simp add: fill_send_buffer_def find_channel_def)
  moreover have "receive_buffer D b cid (take (length (packed ds)) (overwrite buffer 0 (packed ds))) (of_nat (length ds))
      = receive_each D b cid ds" for b
  proof -
    have "take (length (packed ds)) (overwrite buffer 0 (packed ds)) = [] @ packed ds @ []"
      using len(1) by (simp add: overwrite_def)
    moreover have "unat (of_nat (length ds) :: u32) = length ds"
      using len(2) small(2) by (simp add: unat_of_nat usize_limit_def)
    ultimately show ?thesis
      using receive_loop_packed [of "packed ds" "[]" ds "[]" D b cid] len(1) small(2)
      by (simp add: receive_buffer_def)
  qed
  ultimately show ?thesis using len(1) by blast
qed

text \<open>
  C11. A synchronisation hands over, in order and unchanged, what the requester lacks. The responder's
  merged clock gives a first sequence; the buffer it fills holds the envelopes of its log from that
  sequence on that fit, all messages among them that the requester's clock lacks. A requester that is
  given the used part of the buffer and the count does exactly what it would do if it received these
  envelopes one by one, with those it already has skipped.
\<close>

theorem sync_buffer_round_trip:
  assumes D: "D = app_deps SLAB P SR SM SE SN M MC"
    and a: "map_of (cl_channels a) cid = Some ch" "channel_ok D (mem_holds SLAB SR enc) ch rss"
    and request: "keys_sorted clk_node (req_vector_clock request)"
    and merged: "start_sync_response D a cid state0 request = (Ok (), state)" "get_min_sequence state = Some start"
    and served: "served = dropWhile (\<lambda>r. \<not> start \<le> rec_max_sequence r) (concat rss)" "served \<noteq> []"
    and small: "\<forall>r\<in>set served. length (rec_data r) + LEN_SIZE < usize_limit" "length buffer < usize_limit"
    and ds: "ds = fitting (length buffer) (map rec_data served)"
  shows "(\<forall>r\<in>set (concat rss). (case keyed clk_node (req_vector_clock request) (rec_sender r) of
       Some c \<Rightarrow> clk_sequence c < rec_sequence r
     | None \<Rightarrow> \<exists>q. node_record (ch_state ch) (rec_sender r) = Some q \<and> first_sequence q \<le> rec_sequence r) \<longrightarrow>
       r \<in> set served) \<and>
    (\<exists>n buffer'. fill_send_buffer D a cid state buffer = (Ok (of_nat (length ds), n), buffer') \<and> n \<le> length buffer \<and>
       (\<forall>b. receive_buffer D b cid (take n buffer') (of_nat (length ds)) = receive_each D b cid ds))"
proof (intro conjI ballI impI)
  have inv: "channel_inv (d_max_nodes D) (ch_state ch)" "mem_holds SLAB SR enc (storage_io (ch_storage ch)) rss"
      "[] \<notin> set rss" and log: "log_ok (ch_state ch) (concat rss)"
    using a(2) by (simp_all add: channel_ok_def)
  {
    fix r assume r: "r \<in> set (concat rss)" and lacks: "case keyed clk_node (req_vector_clock request) (rec_sender r) of
       Some c \<Rightarrow> clk_sequence c < rec_sequence r
     | None \<Rightarrow> \<exists>q. node_record (ch_state ch) (rec_sender r) = Some q \<and> first_sequence q \<le> rec_sequence r"
    have "start \<le> rec_sequence r" by (rule start_below [OF merged(1) a(1) inv(1) request merged(2) lacks])
    moreover have "rec_sequence r \<le> rec_max_sequence r" using log r unfolding log_ok_def by blast
    ultimately show "r \<in> set served"
      unfolding served(1) using log r by (intro mem_dropWhile_not) (auto simp: log_ok_def)
  }
  show "\<exists>n buffer'. fill_send_buffer D a cid state buffer = (Ok (of_nat (length ds), n), buffer') \<and>
      n \<le> length buffer \<and>
      (\<forall>b. receive_buffer D b cid (take n buffer') (of_nat (length ds)) = receive_each D b cid ds)"
    by (rule buffer_served [OF D a(1) inv(2,3) merged(2) served small ds])
qed

lemma demo_served_channel:
  obtains ch r where "channel_ok (demo_deps 2000) demo_holds ch [[r]]" "rec_data r = enc_envelope demo_envelope"
    "NodeId (Id 9) \<in> ns_node ` set (nodes (ch_state ch))"
proof -
  obtain st :: "mem_io storage" where st: "demo_holds (storage_io st) []" "max_index (storage_io st) = 2"
    by (rule demo_storage)
  obtain self' where received: "do_receive (demo_deps 2000) (demo_client 9 st) (ChannelId (Id 3))
      (enc_envelope demo_envelope) = (Ok (), self')"
    by (rule demo_receive_ok [OF st])
  obtain m who ch where ch: "advanced (demo_deps 2000) demo_holds (demo_channel st) [] who m (enc_envelope demo_envelope) ch"
    using app.do_receive_cases [OF demo_client_simps(4) demo_channel_ok [OF st(1)] received] by auto
  then obtain r where r: "channel_ok (demo_deps 2000) demo_holds ch [[r]]" "rec_data r = enc_envelope demo_envelope"
    by (auto simp: advanced_def)
  have "clock_moves (clock demo_state) who (msg_sequence m) (clock (ch_state ch))" using ch by (simp add: advanced_def)
  then have "clock (ch_state ch) (NodeId (Id 9)) \<noteq> None"
    unfolding clock_moves_def demo_clock(1) by (cases "NodeId (Id 9) = who") auto
  then show thesis using that r by (simp add: clock_def node_record_def keyed_None)
qed

theorem sync_buffer_round_trip_witness:
  "\<exists>a state n buffer'. fill_send_buffer (demo_deps 2000) a (ChannelId (Id 3)) state (replicate 1000 0)
      = (Ok (1, n), buffer') \<and>
    (\<forall>b. receive_buffer (demo_deps 2000) b (ChannelId (Id 3)) (take n buffer') 1
      = receive_each (demo_deps 2000) b (ChannelId (Id 3)) [enc_envelope demo_envelope])"
proof -
  let ?D = "demo_deps 2000" and ?req = "demo_request (NodeId (Id 9))"
  obtain ch r where ch: "channel_ok ?D demo_holds ch [[r]]" "rec_data r = enc_envelope demo_envelope"
    and known: "NodeId (Id 9) \<in> ns_node ` set (nodes (ch_state ch))" by (rule demo_served_channel)
  define a where "a = demo_owner\<lparr>cl_channels := [(ChannelId (Id 3), ch)]\<rparr>"
  have find: "map_of (cl_channels a) (ChannelId (Id 3)) = Some ch" by (simp add: a_def)
  have inv: "channel_inv 4 (ch_state ch)" using ch(1) by (simp add: channel_ok_def)
  note sorted = channel_inv_sorted [OF inv] and req = demo_request_clock(2) [of "NodeId (Id 9)"]
  let ?m = "merge_clocks (nodes (ch_state ch)) (req_vector_clock ?req)"
  have "distinct (map ns_node (nodes (ch_state ch)))" using sorted by (simp add: strict_sorted_iff)
  then have "length ?m \<le> 4"
    unfolding length_merge_clocks [OF sorted req] using known inv distinct_card
    by (fastforce simp: demo_request_clock(1) insert_absorb channel_inv_def)
  then obtain state where state: "start_sync_response ?D a (ChannelId (Id 3)) (sync_responder_new ?req) ?req = (Ok (), state)"
      "rs_vector_clock state = ?m"
    unfolding start_sync_response_merges [OF find] by (simp add: push_all_def)
  have zero: "\<lparr>clk_node = NodeId (Id 9), clk_sequence = 0\<rparr> \<in> set ?m"
    unfolding set_merge_clocks [OF sorted req] by (simp add: demo_request_clock(1))
  then have "Min (clk_sequence ` set ?m) \<le> 0" by (intro Min_le) force+
  moreover have "?m \<noteq> []" using zero by fastforce
  ultimately have start: "get_min_sequence state = Some 0"
    by (simp add: get_min_sequence_Min state(2) word_le_nat_alt word_unat_eq_iff)
  let ?d = "enc_envelope demo_envelope"
  have small: "\<forall>r\<in>set [r]. length (rec_data r) + LEN_SIZE < usize_limit" "length (replicate 1000 (0 :: u8)) < usize_limit"
      "[r] = dropWhile (\<lambda>r. \<not> 0 \<le> rec_max_sequence r) (concat [[r]])"
      "[?d] = fitting (length (replicate 1000 (0 :: u8))) (map rec_data [r])"
    by (simp_all add: ch(2) demo_lengths LEN_SIZE_def usize_limit_def)
  from sync_buffer_round_trip [OF refl find ch(1) req state(1) start small(3) _ small(1,2,4)]
  show ?thesis by (intro exI [of _ a] exI [of _ state]) fastforce
qed

end
