(* ===== verification/Following.thy ===== *)
theory Following
  imports Sync_Properties
begin

text \<open>
  How one device follows the log of another: a record that a device has received is refused without an
  effect, a record that its machine takes next is received and stored, and one round of synchronisation
  (\<open>sync_round\<close>) hands over a part of the log that begins no later than where the requester stands.
\<close>

subsection \<open>Following a run\<close>

lemma update_twice: "AList.update k v (AList.update k w al) = AList.update k v al"
  by (induction al) auto

lemma put_channel_twice: "put_channel cid ch (put_channel cid ch' self) = put_channel cid ch self"
  by (simp add: put_channel_def update_twice)

lemma received_refused:
  assumes find: "map_of (cl_channels self) cid = Some ch" and inv: "channel_inv (d_max_nodes D) (ch_state ch)"
    and known: "received_in D (ch_state ch) r"
  shows "do_receive D self cid (rec_data r) = (Err (ChannelError AlreadyReceived), self)"
proof -
  note sorted = channel_inv_sorted [OF inv]
  obtain env key m s where r: "from_bytes (d_envelopes D) (rec_data r) = Ok env"
      "channel_keys (ch_state ch) (env_from env) = Some key" "\<forall>c. open_envelope (d_crypto D) c key env = Ok m"
      "clock (ch_state ch) (env_from env) = Some s" "msg_sequence m \<le> s"
    using known unfolding received_in_def by blast
  have "receive_verdict (clock (ch_state ch)) (env_from env) m = Err AlreadyReceived"
    using r(4,5) by (simp add: receive_verdict_def)
  then show ?thesis
    using r(1-3) by (simp add: do_receive_def find_channel_def find get_node_key_lookup [OF sorted]
        check_receive_verdict [OF sorted] Let_def)
qed

lemma receive_each_received:
  assumes find: "map_of (cl_channels self) cid = Some ch" and inv: "channel_inv (d_max_nodes D) (ch_state ch)"
  shows "\<forall>r\<in>set rs. received_in D (ch_state ch) r \<Longrightarrow>
    receive_each D self cid (map rec_data rs @ ds) = receive_each D self cid ds"
  by (induction rs) (simp_all add: received_refused [OF find inv])

text \<open>The records of a device's log fit the slabs of every device of the same slab size.\<close>

lemma mem_holds_fits:
  assumes "mem_holds SLAB SR enc io rss" "r \<in> set (concat rss)"
  shows "INITIAL_OFFSET + 4 + length (enc r) \<le> SLAB"
proof -
  obtain i where i: "i < length rss" "r \<in> set (rss ! i)"
    using assms(2) by (metis UN_E in_set_conv_nth set_concat)
  have "i < max_index io" using assms(1) i(1) by (simp add: mem_holds_def)
  moreover have "\<forall>i<max_index io. slab_at SLAB enc (mem_data io) i (if i < length rss then rss ! i else [])"
    using assms(1) unfolding mem_holds_def by (elim conjE)
  ultimately have "slab_at SLAB enc (mem_data io) i (rss ! i)" using i(1) by (metis (full_types))
  then have "INITIAL_OFFSET + length (frames enc (rss ! i)) \<le> SLAB" by (simp add: slab_at_def)
  moreover obtain xs ys where "rss ! i = xs @ r # ys" using i(2) by (meson split_list)
  then have "4 + length (enc r) \<le> length (frames enc (rss ! i))" by simp
  ultimately show ?thesis by simp
qed

lemma follow_step:
  assumes D: "D = app_deps SLAB P SR SM SE SN M MC"
    and find: "map_of (cl_channels self) cid = Some peer" and rep: "replica D (mem_holds SLAB SR enc) key cid peer rss"
    and step: "log_step D cid (ch_state peer, ch_chat peer) r t"
    and room: "length rss < max_index (storage_io (ch_storage peer))" "INITIAL_OFFSET + 4 + length (enc r) \<le> SLAB"
  obtains peer' where "do_receive D self cid (rec_data r) = (Ok (), put_channel cid peer' self)"
    "replica D (mem_holds SLAB SR enc) key cid peer' (rss @ [[r]])" "(ch_state peer', ch_chat peer') = t"
    "max_index (storage_io (ch_storage peer')) = max_index (storage_io (ch_storage peer))"
proof -
  note inv = replica_inv [OF rep]
  obtain env k m where r: "from_bytes (d_envelopes D) (rec_data r) = Ok env"
      "channel_keys (ch_state peer) (env_from env) = Some k" "\<forall>c. open_envelope (d_crypto D) c k env = Ok m"
      "acceptable (clock (ch_state peer)) (env_from env) m" "rec_sequence r = msg_sequence m" "rec_sender r = env_from env"
      "rec_message_count r = message_count (snd t)"
    and taken: "\<forall>c st. take_message D \<lparr>ch_state = ch_state peer, ch_storage = st, ch_chat = ch_chat peer\<rparr> cid (env_from env) m
        (envelope_id_of (d_crypto D) c env)
      = (Ok (rec_max_sequence r), \<lparr>ch_state = fst t, ch_storage = st, ch_chat = snd t\<rparr>)"
    using step unfolding log_step_def fst_conv snd_conv by blast
  let ?ch1 = "\<lparr>ch_state = fst t, ch_storage = ch_storage peer, ch_chat = snd t\<rparr>"
  have "\<lparr>ch_state = ch_state peer, ch_storage = ch_storage peer, ch_chat = ch_chat peer\<rparr> = peer" by simp
  then have taken: "take_message D peer cid (env_from env) m (envelope_id_of (d_crypto D) (cl_crypto self) env)
      = (Ok (rec_max_sequence r), ?ch1)" using spec [OF spec [OF taken]] by metis
  have held: "mem_holds SLAB SR enc (storage_io (ch_storage peer)) rss" using rep by (simp add: replica_def channel_ok_def)
  obtain w storage where w: "get_writer (mem_io_trait SLAB SR) (ch_storage peer) = Ok w"
      "write_and_commit (mem_io_trait SLAB SR) w (rec_max_sequence r) (rec_message_count r) (rec_sequence r) (rec_sender r)
        (rec_data r) = (Ok (), storage)" "max_index (storage_io storage) = max_index (storage_io (ch_storage peer))"
    by (rule mem_store_ok [OF held room])
  let ?peer' = "?ch1\<lparr>ch_storage := storage\<rparr>"
  have got: "do_receive D self cid (rec_data r) = (Ok (), put_channel cid ?peer' self)"
    by (rule do_receive_runs [OF channel_inv_sorted [OF inv] find, where env = env and key = k and m = m and w = w
          and ms = "rec_max_sequence r"])
      (use r taken w(1,2) in \<open>simp_all add: D flip: receive_verdict_Ok\<close>)
  have env: "from_bytes SE (rec_data r) = Ok env" "get_writer (d_io D) (ch_storage ?ch1) = Ok w"
      "write_and_commit (d_io D) w (rec_max_sequence r) (message_count (ch_chat ?ch1)) (msg_sequence m) (env_from env) (rec_data r)
        = (Ok (), storage)"
    using r w(1,2) by (simp_all add: D)
  obtain r' where r': "rec_data r' = rec_data r" "replica D (mem_holds SLAB SR enc) key cid ?peer' (rss @ [[r']])"
      "log_step D cid (ch_state peer, ch_chat peer) r' (ch_state ?ch1, ch_chat ?ch1)"
    by (rule replica_step [OF D rep refl env(1) r(2) spec [OF r(3)] r(4) taken env(2,3)])
  have "r' = r" using log_step_determined [OF step r'(3)] r'(1) by simp
  then show thesis using that [OF got] r'(2) w(3) by simp
qed

text \<open>
  \<open>log_merge D cid s rs zs t\<close>: a machine in state \<open>s\<close> that is offered the records \<open>rs\<close> of another device passes
  over those that it has received, takes the others as the records \<open>zs\<close>, and ends in \<open>t\<close>.
\<close>

inductive log_merge ::
  "('c, 's, 'p, 'i) deps \<Rightarrow> channel_id \<Rightarrow> 'p channel_state \<times> 'p chat \<Rightarrow> stored list \<Rightarrow> stored list \<Rightarrow>
     'p channel_state \<times> 'p chat \<Rightarrow> bool"
  for D :: "('c, 's, 'p, 'i) deps" and cid :: channel_id where
  merge_nil: "log_merge D cid s [] [] s"
| merge_received: "received_in D (fst s) r \<Longrightarrow> log_merge D cid s rs zs t \<Longrightarrow> log_merge D cid s (r # rs) zs t"
| merge_taken: "log_step D cid s z u \<Longrightarrow> rec_data z = rec_data r \<Longrightarrow> log_merge D cid u rs zs t \<Longrightarrow>
    log_merge D cid s (r # rs) (z # zs) t"

lemma log_run_merge: "log_run D cid s rs t \<Longrightarrow> log_merge D cid s rs rs t"
  by (induction rule: log_run.induct) (auto intro: log_merge.intros)

lemma log_merge_run: "log_merge D cid s rs zs t \<Longrightarrow> log_run D cid s zs t"
  by (induction rule: log_merge.induct) (auto simp: log_run_Cons)

lemma follow_merge:
  assumes D: "D = app_deps SLAB P SR SM SE SN M MC"
  shows "log_merge D cid s rs zs t \<Longrightarrow> map_of (cl_channels self) cid = Some peer \<Longrightarrow> s = (ch_state peer, ch_chat peer) \<Longrightarrow>
    replica D (mem_holds SLAB SR enc) key cid peer rss \<Longrightarrow>
    length rss + length zs \<le> max_index (storage_io (ch_storage peer)) \<Longrightarrow>
    \<forall>r\<in>set zs. INITIAL_OFFSET + 4 + length (enc r) \<le> SLAB \<Longrightarrow>
    \<exists>peer'. receive_each D self cid (map rec_data rs) = (Ok (), put_channel cid peer' self) \<and>
      (ch_state peer', ch_chat peer') = t \<and> max_index (storage_io (ch_storage peer')) = max_index (storage_io (ch_storage peer)) \<and>
      replica D (mem_holds SLAB SR enc) key cid peer' (rss @ map (\<lambda>r. [r]) zs)"
proof (induction arbitrary: self peer rss rule: log_merge.induct)
  case (merge_nil s)
  then show ?case by (intro exI [of _ peer]) (simp add: put_channel_same)
next
  case (merge_received s r rs zs t)
  have "do_receive D self cid (rec_data r) = (Err (ChannelError AlreadyReceived), self)"
    using received_refused [OF merge_received.prems(1) replica_inv [OF merge_received.prems(3)]] merge_received.hyps(1)
      merge_received.prems(2) by simp
  then show ?case using merge_received.IH [OF merge_received.prems] by simp
next
  case (merge_taken s z u r rs zs t)
  have room: "length rss < max_index (storage_io (ch_storage peer))" "INITIAL_OFFSET + 4 + length (enc z) \<le> SLAB"
    using merge_taken.prems(4,5) by simp_all
  obtain p1 where p1: "do_receive D self cid (rec_data z) = (Ok (), put_channel cid p1 self)"
      "replica D (mem_holds SLAB SR enc) key cid p1 (rss @ [[z]])" "(ch_state p1, ch_chat p1) = u"
      "max_index (storage_io (ch_storage p1)) = max_index (storage_io (ch_storage peer))"
    by (rule follow_step [OF D merge_taken.prems(1,3) merge_taken.hyps(1) [unfolded merge_taken.prems(2)] room])
  have find: "map_of (cl_channels (put_channel cid p1 self)) cid = Some p1" by (simp add: map_of_put_channel)
  obtain p2 where p2: "receive_each D (put_channel cid p1 self) cid (map rec_data rs)
        = (Ok (), put_channel cid p2 (put_channel cid p1 self))" "(ch_state p2, ch_chat p2) = t"
      "replica D (mem_holds SLAB SR enc) key cid p2 ((rss @ [[z]]) @ map (\<lambda>r. [r]) zs)"
      "max_index (storage_io (ch_storage p2)) = max_index (storage_io (ch_storage p1))"
    using merge_taken.IH [OF find p1(3) [symmetric] p1(2)] merge_taken.prems(4,5) p1(4) by auto
  then show ?case using p1(1,4) merge_taken.hyps(2) by (intro exI [of _ p2]) (simp add: put_channel_twice)
qed

lemmas follow_run = follow_merge [OF _ log_run_merge]

subsection \<open>One round of synchronisation\<close>

lemma own_clocks_keys:
  "keys_sorted clk_node (own_clocks ns) = keys_sorted ns_node ns" "clk_node ` set (own_clocks ns) = ns_node ` set ns"
  by (simp_all add: sync_clock_new_def image_image comp_def)

lemma clock_dom: "keys_sorted ns_node (nodes st) \<Longrightarrow> dom (clock st) = ns_node ` set (nodes st)"
  by (fastforce simp: clock_Some)

lemma state_le_dom: "state_le st st' \<Longrightarrow> dom (clock st) \<subseteq> dom (clock st')"
  by (auto simp: state_le_def)

text \<open>
  A responder that knows the requester's nodes can always merge the clocks, and the sequence from which it answers is at
  most every sequence the requester knows.
\<close>

lemma response_made:
  assumes find: "map_of (cl_channels a) cid = Some ch" and inv: "channel_inv (d_max_nodes D) (ch_state ch)"
    and peer: "channel_inv (d_max_nodes D) st" and le: "dom (clock st) \<subseteq> dom (clock (ch_state ch))"
    and request: "req_vector_clock request = own_clocks (nodes st)"
  obtains state start where "start_sync_response D a cid state0 request = (Ok (), state)"
    "get_min_sequence state = Some start" "\<forall>n s. clock st n = Some s \<longrightarrow> start \<le> s"
proof -
  note sorted = channel_inv_sorted [OF inv] and sorted' = channel_inv_sorted [OF peer]
  have req: "keys_sorted clk_node (req_vector_clock request)"
    using sorted' unfolding request own_clocks_keys .
  let ?m = "merge_clocks (nodes (ch_state ch)) (req_vector_clock request)"
  have "ns_node ` set (nodes (ch_state ch)) \<union> clk_node ` set (req_vector_clock request) = ns_node ` set (nodes (ch_state ch))"
    using le unfolding clock_dom [OF sorted] clock_dom [OF sorted'] request own_clocks_keys by auto
  then have "length ?m = card (ns_node ` set (nodes (ch_state ch)))" by (simp add: length_merge_clocks [OF sorted req])
  also have "\<dots> = length (nodes (ch_state ch))"
    using sorted distinct_card [of "map ns_node (nodes (ch_state ch))"] by (simp add: strict_sorted_iff)
  also have "\<dots> \<le> d_max_nodes D" using inv by (simp add: channel_inv_def)
  finally have resp: "start_sync_response D a cid state0 request = (Ok (), state0\<lparr>rs_vector_clock := ?m\<rparr>)"
    unfolding start_sync_response_merges [OF find] by (simp add: push_all_def)
  obtain c where c: "c \<in> set (nodes st)" using peer by (auto simp: channel_inv_def)
  have mem: "\<lparr>clk_node = ns_node n, clk_sequence = ns_sequence n\<rparr> \<in> set ?m" if "n \<in> set (nodes st)" for n
    unfolding set_merge_clocks [OF sorted req] using that by (auto simp: request sync_clock_new_def)
  let ?start = "Min (clk_sequence ` set ?m)"
  have "?m \<noteq> []" using mem [OF c] by fastforce
  then have start: "get_min_sequence (state0\<lparr>rs_vector_clock := ?m\<rparr>) = Some ?start" by (simp add: get_min_sequence_Min)
  have "?start \<le> s" if known: "clock st n = Some s" for n s
  proof -
    obtain q where q: "q \<in> set (nodes st)" "ns_sequence q = s" using known by (auto simp: clock_Some [OF sorted'])
    have "s \<in> clk_sequence ` set ?m" using imageI [OF mem [OF q(1)], of clk_sequence] q(2) by simp
    then show ?thesis by simp
  qed
  with resp start show thesis using that by blast
qed

lemma dropWhile_append_hd: "ys = [] \<or> \<not> Q (hd ys) \<Longrightarrow> dropWhile Q (xs @ ys) = dropWhile Q xs @ ys"
  by (induction xs) (cases ys, auto)

lemma fitting_prefix: "fitting room ds = take (length (fitting room ds)) ds"
  by (induction room ds rule: fitting.induct) auto

lemma fitting_all: "length (packed ds) \<le> room \<Longrightarrow> fitting room ds = ds"
  by (induction room ds rule: fitting.induct) (auto simp: LEN_SIZE_def)

lemma length_packed_drop: "length (packed (map rec_data (dropWhile Q rs))) \<le> length (packed (map rec_data rs))"
  by (induction rs) auto

text \<open>Every record of a log that fits into a buffer is short.\<close>

lemma packed_short:
  assumes "length (packed (map rec_data rs)) < usize_limit"
  shows "\<forall>r\<in>set rs. length (rec_data r) + LEN_SIZE < usize_limit"
proof -
  have "length (rec_data r) + LEN_SIZE \<le> length (packed (map rec_data rs))" if "r \<in> set rs" for r
    using that by (induction rs) (auto simp: LEN_SIZE_def)
  then show ?thesis using assms by (meson le_less_trans)
qed

text \<open>
  One round: the responder serves its log from \<open>start\<close> on, whatever the two devices have, as soon as one
  entry of the requester's clock is within the responder's log.
\<close>

lemma replica_last:
  assumes a: "replica D holds key cid ch rss" "rss \<noteq> []" and start: "start \<le> current_sequence (ch_state ch)"
  shows "dropWhile (\<lambda>r. \<not> start \<le> rec_max_sequence r) (concat rss) \<noteq> []"
proof -
  have "[] \<notin> set rss" using a(1) by (simp add: replica_def channel_ok_def)
  then have "concat rss \<noteq> []" using a(2) by (cases rss) auto
  moreover have "start \<le> rec_max_sequence (last (concat rss))" using replica_run(5) [OF a] start by simp
  ultimately show ?thesis using last_in_set dropWhile_eq_Nil_conv by metis
qed

lemma sync_round:
  assumes D: "D = app_deps SLAB P SR SM SE SN M MC"
    and a: "map_of (cl_channels a) cid = Some ch" "replica D (mem_holds SLAB SR enc) key cid ch rssa" "rssa \<noteq> []"
    and b: "map_of (cl_channels b) cid = Some peer" "channel_inv (d_max_nodes D) (ch_state peer)"
    and known: "dom (clock (ch_state peer)) \<subseteq> dom (clock (ch_state ch))"
    and reach: "clock (ch_state peer) i = Some q" "q \<le> current_sequence (ch_state ch)"
    and small: "\<forall>r\<in>set (concat rssa). length (rec_data r) + LEN_SIZE < usize_limit" "length buffer < usize_limit"
  obtains request state start ds n buffer' where
    "finish_sync_request D b cid request0 = (Ok (), request)"
    "start_sync_response D a cid (sync_responder_new request) request = (Ok (), state)"
    "\<forall>n s. clock (ch_state peer) n = Some s \<longrightarrow> start \<le> s"
    "ds = fitting (length buffer) (map rec_data (dropWhile (\<lambda>r. \<not> start \<le> rec_max_sequence r) (concat rssa)))"
    "fill_send_buffer D a cid state buffer = (Ok (of_nat (length ds), n), buffer')"
    "receive_buffer D b cid (take n buffer') (of_nat (length ds)) = receive_each D b cid ds"
proof -
  let ?request = "request0\<lparr>req_vector_clock := own_clocks (nodes (ch_state peer))\<rparr>"
  have held: "mem_holds SLAB SR enc (storage_io (ch_storage ch)) rssa" "[] \<notin> set rssa"
    using a(2) by (simp_all add: replica_def channel_ok_def)
  obtain state start where resp: "start_sync_response D a cid (sync_responder_new ?request) ?request = (Ok (), state)"
      "get_min_sequence state = Some start" "\<forall>n s. clock (ch_state peer) n = Some s \<longrightarrow> start \<le> s"
    by (rule response_made [OF a(1) replica_inv [OF a(2)] b(2) known, of ?request]) simp_all
  let ?served = "dropWhile (\<lambda>r. \<not> start \<le> rec_max_sequence r) (concat rssa)"
  have ne: "?served \<noteq> []" by (rule replica_last [OF a(2,3)]) (use resp(3) reach in \<open>meson order_trans\<close>)
  have "\<forall>r\<in>set ?served. length (rec_data r) + LEN_SIZE < usize_limit" using small(1) by (blast dest: set_dropWhileD)
  from buffer_served [OF D a(1) held resp(2) refl ne this small(2) refl]
  obtain n buffer' where "fill_send_buffer D a cid state buffer
        = (Ok (of_nat (length (fitting (length buffer) (map rec_data ?served))), n), buffer')"
      "receive_buffer D b cid (take n buffer') (of_nat (length (fitting (length buffer) (map rec_data ?served))))
        = receive_each D b cid (fitting (length buffer) (map rec_data ?served))"
    by blast
  moreover have "finish_sync_request D b cid request0 = (Ok (), ?request)"
    using finish_sync_request_known [OF b(1) channel_inv_list_nodes [OF b(2)]] by (simp add: list_nodes_def)
  ultimately show thesis using resp(1,3) by (intro that [OF _ _ _ refl])
qed

text \<open>A device whose log goes on where the other's ends is ahead of it in every way.\<close>

lemma replica_behind:
  assumes a: "replica D holds key cid ch rssa" and b: "replica D holds key cid peer rssb"
    and behind: "concat rssa = concat rssb @ ys"
  shows "log_run D cid (ch_state peer, ch_chat peer) ys (ch_state ch, ch_chat ch)"
    "dom (clock (ch_state peer)) \<subseteq> dom (clock (ch_state ch))"
    "\<exists>i q. clock (ch_state peer) i = Some q \<and> q \<le> current_sequence (ch_state ch)"
proof -
  obtain t where t: "log_run D cid (machine_start D key cid) (concat rssb) t" "log_run D cid t ys (ch_state ch, ch_chat ch)"
    using replica_run(3) [OF a] unfolding behind by (auto simp: log_run_append)
  have "t = (ch_state peer, ch_chat peer)" using log_run_determined [OF t(1) replica_run(3) [OF b]] by simp
  then show run: "log_run D cid (ch_state peer, ch_chat peer) ys (ch_state ch, ch_chat ch)" using t(2) by simp
  have le: "state_le (ch_state peer) (ch_state ch)" using log_run_effect [OF run replica_run(2) [OF b]] by simp
  then show "dom (clock (ch_state peer)) \<subseteq> dom (clock (ch_state ch))" by (rule state_le_dom)
  have "channel_keys (ch_state peer) (compute_id (d_crypto D) key) \<noteq> None" by (simp add: replica_owner_key [OF b])
  then obtain i q where q: "clock (ch_state peer) i = Some q" using clock_of_key by fastforce
  then obtain q' where "clock (ch_state ch) i = Some q'" "q \<le> q'" using le by (auto simp: state_le_def)
  then have "q \<le> current_sequence (ch_state ch)"
    using clock_le_current [OF replica_inv [OF a]] by (meson order_trans)
  with q show "\<exists>i q. clock (ch_state peer) i = Some q \<and> q \<le> current_sequence (ch_state ch)" by blast
qed

text \<open>What it is served begins within the log of the device that is behind.\<close>

lemma served_behind:
  assumes b: "replica D holds key cid peer rssb"
    and run: "log_run D cid (ch_state peer, ch_chat peer) ys t"
    and start: "\<forall>n s. clock (ch_state peer) n = Some s \<longrightarrow> start \<le> s"
  shows "dropWhile (\<lambda>r. \<not> start \<le> rec_max_sequence r) (concat rssb @ ys)
      = dropWhile (\<lambda>r. \<not> start \<le> rec_max_sequence r) (concat rssb) @ ys"
proof (rule dropWhile_append_hd)
  show "ys = [] \<or> \<not> \<not> start \<le> rec_max_sequence (hd ys)"
  proof (cases ys)
    case (Cons r rs)
    obtain u where "log_step D cid (ch_state peer, ch_chat peer) r u" using run by (auto simp: Cons log_run_Cons)
    note e = log_step_effect [OF replica_run(2) [OF b] this]
    obtain l where "clock (ch_state peer) (rec_sender r) = Some l" "l < rec_sequence r" using e(6) by auto
    then have "start \<le> rec_max_sequence r" using start e(5) by (meson less_imp_le order_trans)
    then show ?thesis by (simp add: Cons)
  qed simp
qed

subsection \<open>Devices of a channel\<close>

text \<open>A device of a channel, on which no call was torn: the one that made it, or one that joined it with the owner's key.\<close>

definition device_run ::
  "('c, 's, 'p, 'i) deps \<Rightarrow> ('i \<Rightarrow> stored list list \<Rightarrow> bool) \<Rightarrow> ('s, 'p) key_pair \<Rightarrow> 'p \<Rightarrow> channel_id \<Rightarrow>
     ('c, 's, 'p, 'i) client \<Rightarrow> bool" where
  "device_run D holds kp key cid self \<longleftrightarrow>
     (owner_run D holds kp cid self \<and> key = kp_public kp) \<or> member_run D holds kp key cid self"

lemma device_run_replica:
  assumes "D = app_deps SLAB P SR SM SE SN M MC" "rust_matching P SM kp" "serde_ok SE enc_env"
    and "device_run D (mem_holds SLAB SR enc) kp key cid self" "map_of (cl_channels self) cid = Some ch"
  shows "\<exists>rss. replica D (mem_holds SLAB SR enc) key cid ch rss"
  using assms(4,5) owner_run_replica [OF assms(1-3)] member_run_replica [OF assms(1-3)]
  by (fastforce simp: device_run_def)

end
