(* ===== verification/Replica_Demo.thy ===== *)
theory Replica_Demo
  imports Following Start_Demo
begin

text \<open>
  A channel with a history, for the witnesses: device 7 made it, added the user 9 and sent a text; device
  9 joined it with the owner's key and has received the first two messages.
\<close>

subsection \<open>Sending\<close>

lemma nodes_card:
  assumes "channel_inv M st"
  shows "length (nodes st) = card (dom (clock st))"
proof -
  note sorted = channel_inv_sorted [OF assms]
  have "dom (clock st) = ns_node ` set (nodes st)" by (force simp: clock_Some [OF sorted] dom_def)
  then show ?thesis
    using sorted distinct_card [of "map ns_node (nodes st)"] by (simp add: strict_sorted_iff)
qed

lemma update_new: "map_of al k = None \<Longrightarrow> AList.update k v al = al @ [(k, v)]"
  by (induction al) (auto split: if_splits)

lemma take_add_user:
  assumes inv: "channel_inv (d_max_nodes D) (ch_state ch)" and acc: "acceptable (clock (ch_state ch)) from m"
    and m: "msg_data m = AddUser u" "n = compute_id (d_crypto D) (au_key u)"
    and chat: "owner_id (ch_chat ch) = Some from" "map_of (users (ch_chat ch)) n = None"
      "length (users (ch_chat ch)) < d_max_nodes D"
    and state: "clock (ch_state ch) n = None" "length (nodes (ch_state ch)) < d_max_nodes D"
  obtains ms ch1 where "take_message D ch cid from m eid = (Ok ms, ch1)"
    "ch_chat ch1 = (ch_chat ch)\<lparr>users := users (ch_chat ch) @ [(n, au_key u)]\<rparr>"
    "clock (ch_state ch1) = (clock (ch_state ch))(from \<mapsto> msg_sequence m, n \<mapsto> 0)"
proof -
  let ?us = "users (ch_chat ch) @ [(n, au_key u)]"
  have "index_map_insert (d_max_nodes D) n (au_key u) (users (ch_chat ch)) = Some ?us"
    using chat(2,3) by (simp add: index_map_insert_def update_new)
  then have accepted: "accept_message (compute_id (d_crypto D)) (d_max_nodes D) (ch_chat ch) cid from (msg_data m)
      = (Ok (Accept_AddUser (au_key u)), (ch_chat ch)\<lparr>users := ?us\<rparr>)"
    by (simp add: accept_message_def m chat(1) add_user_def Let_def)
  obtain st' where st': "receive (ch_state ch) from m eid = (Ok (max (current_sequence (ch_state ch)) (msg_sequence m)), st')"
      "channel_inv (d_max_nodes D) st'" "clock st' = (clock (ch_state ch))(from \<mapsto> msg_sequence m)"
      "length (nodes st') = length (nodes (ch_state ch))"
    using receive_effect [OF inv acc] by metis
  have "n \<noteq> from" using state(1) acc by (auto simp: acceptable_def)
  then have absent: "clock st' n = None" by (simp add: st'(3) state(1))
  obtain st2 where st2: "add_node (d_max_nodes D) st' n (au_key u) = (Ok (), st2)" "clock st2 = (clock st')(n \<mapsto> 0)"
    by (rule add_node_absent [OF st'(2) absent, of "au_key u"]) (use st'(4) state(2) in \<open>simp_all\<close>)
  have "take_message D ch cid from m eid = (Ok (max (current_sequence (ch_state ch)) (msg_sequence m)),
      ch\<lparr>ch_chat := (ch_chat ch)\<lparr>users := ?us\<rparr>, ch_state := st2\<rparr>)"
    using st2(1) by (simp add: take_message_def accepted st'(1) remember_key_def m(2))
  then show thesis by (rule that) (simp_all add: st2(2) st'(3))
qed

lemma mark_length: "length (mark bs) = Suc (2 * length bs)"
  by (induction bs) (simp_all add: mark_def)

lemma demo_sends:
  assumes self: "cl_key_pair self = demo_pair k" "cl_node_id self = nid"
    and ch: "map_of (cl_channels self) cid = Some ch" "replica (demo_deps 2000) demo_holds 7 cid ch rss"
    and own: "channel_keys (ch_state ch) (nid) = Some k"
    and m: "address (ch_state ch) (nid) data = Ok m" "length (enc_message m) \<le> 100"
    and taken: "\<And>eid. \<exists>ms ch1. take_message (demo_deps 2000) ch cid (nid) m eid = (Ok ms, ch1) \<and>
      Q (ch_state ch1) (ch_chat ch1)"
    and room: "length rss < max_index (storage_io (ch_storage ch))"
  obtains ch' r env where "from_bytes envelope_serde (rec_data r) = Ok env" "env_from env = nid"
    "\<forall>c. open_envelope (d_crypto (demo_deps 2000)) c k env = Ok m"
    "log_step (demo_deps 2000) cid (ch_state ch, ch_chat ch) r (ch_state ch', ch_chat ch')" "do_send (demo_deps 2000) self cid data = (Ok (), put_channel cid ch' self)"
    "replica (demo_deps 2000) demo_holds 7 cid ch' (rss @ [[r]])" "length (rec_data r) = 74 + 2 * length (enc_message m)"
    "Q (ch_state ch') (ch_chat ch')" "max_index (storage_io (ch_storage ch')) = max_index (storage_io (ch_storage ch))"
proof -
  let ?D = "demo_deps 2000" and ?me = nid
  let ?env = "\<lparr>env_from = ?me, env_to = Channel cid, env_serialized = enc_message m, env_signature = to_be_bytes (k :: u64)\<rparr>"
  let ?d = "enc_envelope ?env" and ?t = "overwrite (replicate 4096 0) 0 (enc_message m)"
  have held: "demo_holds (storage_io (ch_storage ch)) rss" and inv: "channel_inv (d_max_nodes ?D) (ch_state ch)"
    using ch(2) unfolding replica_def channel_ok_def by blast+
  have len: "length ?d = 74 + 2 * length (enc_message m)" by (simp add: enc_envelope_def mark_length SHA256_SIZE_def)
  obtain ms ch1 where ch1: "take_message ?D ch cid ?me m (envelope_id_of (d_crypto ?D) (cl_crypto self) ?env) = (Ok ms, ch1)"
      "Q (ch_state ch1) (ch_chat ch1)" using taken by blast
  note acc = address_acceptable(1) [OF inv m(1)]
  have chat: "chat_inv (compute_id (d_crypto ?D)) (d_max_nodes ?D) (ch_chat ch)"
    using ch(2) unfolding replica_def channel_ok_def by blast
  have st: "ch_storage ch1 = ch_storage ch" using take_message_cases [OF inv chat acc ch1(1)] by simp
  let ?r = "\<lparr>rec_max_sequence = ms, rec_message_count = message_count (ch_chat ch1), rec_sequence = msg_sequence m,
    rec_sender = ?me, rec_data = ?d\<rparr>"
  have "INITIAL_OFFSET + 4 + length (plain_enc ?r) \<le> 2000" using len m(2) by (simp add: length_plain_enc INITIAL_OFFSET_def)
  then obtain w storage where w: "get_writer (mem_io_trait 2000 plain_serde) (ch_storage ch) = Ok w"
      "write_and_commit (mem_io_trait 2000 plain_serde) w ms (message_count (ch_chat ch1)) (msg_sequence m) ?me ?d = (Ok (), storage)"
      "max_index (storage_io storage) = max_index (storage_io (ch_storage ch))"
    using mem_store_ok [OF held room, of ?r] by (metis stored.select_convs(1-5))
  let ?ch' = "ch1\<lparr>ch_storage := storage\<rparr>"
  have seal: "seal (d_crypto ?D) (cl_crypto self) (cl_node_id self) (Channel cid) (cl_key_pair self) m (replicate 4096 0) = (Ok ?env, ?t)"
    using demo_seal_any [of m 2000 "cl_crypto self" ?me "Channel cid" k] m(2) by (simp add: self MAX_ENVELOPE_def MAX_SIG_def)
  have ser: "to_slice (d_envelopes ?D) ?env ?t = (Ok ?d, overwrite ?t 0 ?d)"
    using serde_to_slice_fits [OF envelope_serde_ok, of ?env ?t] len m(2) by simp
  have sent: "do_send ?D self cid data = (Ok (), put_channel cid ?ch' self)"
    by (rule do_send_runs [OF channel_inv_sorted [OF inv] ch(1) _ seal _ _ _ ser, where ms = ms and w = w])
      (use m(1) acc ch1(1) w(1,2) st in \<open>simp_all add: self flip: receive_verdict_Ok\<close>)
  have opens: "open_envelope (d_crypto ?D) (cl_crypto self) k ?env = Ok m"
    using rust.open_sealed(2) [OF demo_matching [of k] seal [unfolded self app_deps_simps], of k] by (simp add: demo_pair_def)
  then have any: "\<forall>c. open_envelope (d_crypto ?D) c k ?env = Ok m" by (simp add: rust_crypto_trait_def)
  have reads: "from_bytes envelope_serde ?d = Ok ?env" by (rule serde_from_bytes [OF envelope_serde_ok])
  obtain r where r: "rec_data r = ?d" "replica ?D demo_holds 7 cid ?ch' (rss @ [[r]])"
      "log_step ?D cid (ch_state ch, ch_chat ch) r (ch_state ch1, ch_chat ch1)"
    by (rule replica_step [OF refl ch(2) _ reads own opens acc ch1(1), of w storage]) (use w(1,2) st in simp_all)
  have "ch_state ?ch' = ch_state ch1" "ch_chat ?ch' = ch_chat ch1" "ch_storage ?ch' = storage" by simp_all
  then show thesis using that [OF _ _ any _ sent r(2)] reads r(1,3) len ch1(2) w(3) by simp
qed

lemma current_of:
  assumes inv: "channel_inv M st" and top: "clock st k = Some n" "\<And>j s. clock st j = Some s \<Longrightarrow> s \<le> n"
  shows "current_sequence st = n"
proof -
  obtain c where "clock st (newest st) = Some c"
    using inv by (auto simp: channel_inv_def clock_Some [OF channel_inv_sorted [OF inv]])
  then have "current_sequence st \<le> n" using top(2) by (simp add: current_sequence_def known_sequence_def)
  with clock_le_current [OF inv top(1)] show ?thesis by simp
qed

subsection \<open>The history\<close>

definition demo_member :: "(nat rust_crypto, u64, u64, mem_io) client" where
  "demo_member = \<lparr>cl_crypto = \<lparr>rng = 0\<rparr>, cl_node_id = NodeId (Id 9), cl_key_pair = demo_pair 9, cl_channels = []\<rparr>"

abbreviation demo_room :: channel_id where
  "demo_room \<equiv> demo_cid ''room''"

lemma demo_store_of:
  obtains io where "demo_holds io []" "max_index io = 4"
proof -
  obtain io where "mem_io_new 2000 (replicate 8000 0) = Ok io" "demo_holds io []"
    using mem_io_new_holds [OF plain_serde_ok, of 2000 8000] by (auto simp: INITIAL_OFFSET_def usize_limit_def)
  then show thesis by (intro that [of io]) (auto simp: mem_io_new_def checked_div_def)
qed

lemma demo_ids:
  "compute_id (rust_crypto_trait demo_primitives message_serde) 7 = NodeId (Id 7)"
  "compute_id (rust_crypto_trait demo_primitives message_serde) 9 = NodeId (Id 9)"
  using demo_compute_id [of 2000 7] demo_compute_id [of 2000 9] by simp_all

lemma demo_owner_adds:
  obtains a ch r1 r2 where "owner_run (demo_deps 2000) demo_holds (demo_pair 7) demo_room a"
    "cl_key_pair a = demo_pair 7" "cl_node_id a = NodeId (Id 7)"
    "map_of (cl_channels a) demo_room = Some ch" "replica (demo_deps 2000) demo_holds 7 demo_room ch [[r1], [r2]]"
    "length (rec_data r1) = 228" "length (rec_data r2) = 196" "clock (ch_state ch) = [NodeId (Id 7) \<mapsto> 2, NodeId (Id 9) \<mapsto> 0]"
    "NodeId (Id 7) \<in> members (ch_chat ch)" "NodeId (Id 9) \<in> members (ch_chat ch)"
    "channel_keys (ch_state ch) (NodeId (Id 9)) = Some 9" "message_count (ch_chat ch) = 0" "max_index (storage_io (ch_storage ch)) = 4"
proof -
  let ?D = "demo_deps 2000" and ?me = "NodeId (Id 7)" and ?nine = "NodeId (Id 9)"
  obtain io where io: "demo_holds io []" "max_index io = 4" by (rule demo_store_of)
  obtain ch1 r1 where one: "init_chat ?D demo_owner ''room'' io
        = (Ok demo_room, demo_owner\<lparr>cl_crypto := \<lparr>rng = 1\<rparr>, cl_channels := [(demo_room, ch1)]\<rparr>)"
      "clock (ch_state ch1) = [?me \<mapsto> 1]"
      "ch_chat ch1 = (chat_new demo_room)\<lparr>users := [(?me, 7)], owner_id := Some ?me\<rparr>"
      "max_index (storage_io (ch_storage ch1)) = 4" "replica ?D demo_holds 7 demo_room ch1 [[r1]]" "length (rec_data r1) = 228"
    by (rule demo_init_runs [OF io(1), of "''room''" 4 2]) (use io(2) in \<open>simp_all add: NAME_MAX_def\<close>)
  let ?a1 = "demo_owner\<lparr>cl_crypto := \<lparr>rng = 1\<rparr>, cl_channels := [(demo_room, ch1)]\<rparr>"
  have me: "cl_node_id demo_owner = compute_id (d_crypto ?D) (kp_public (demo_pair 7))" by (simp add: demo_owner_id)
  have run1: "owner_run ?D demo_holds (demo_pair 7) demo_room ?a1"
    by (rule owner_init [where holds = demo_holds and io = io, OF demo_owner_simps(3) me io(1) one(1)])
  note inv1 = replica_inv [OF one(5)]
  have chat1: "chat_inv (compute_id (d_crypto ?D)) (d_max_nodes ?D) (ch_chat ch1)"
    using one(5) unfolding replica_def channel_ok_def by blast
  let ?add = "AddUser \<lparr>au_name = ''nine'', au_key = 9\<rparr>" and ?st1 = "ch_state ch1"
  define m2 where "m2 = \<lparr>cause = newest ?st1, sender_last = 1, msg_sequence = 2, msg_data = (?add :: u64 protocol)\<rparr>"
  have "current_sequence ?st1 = 1" by (rule current_of [OF inv1, of ?me]) (auto simp: one(2) split: if_splits)
  then have addr2: "address ?st1 ?me ?add = Ok m2"
    unfolding address_spec [OF inv1] by (simp add: one(2) checked_add_def m2_def)
  have room1: "length (nodes ?st1) = 1" using nodes_card [OF inv1] by (simp add: one(2))
  have take2: "\<exists>ms c. take_message ?D ch1 demo_room ?me m2 eid = (Ok ms, c) \<and>
      (clock (ch_state c) = [?me \<mapsto> 2, ?nine \<mapsto> 0] \<and> ?me \<in> members (ch_chat c) \<and> ?nine \<in> members (ch_chat c) \<and>
       channel_keys (ch_state c) ?nine = Some 9 \<and> message_count (ch_chat c) = 0)" for eid
  proof -
    obtain ms c where c: "take_message ?D ch1 demo_room ?me m2 eid = (Ok ms, c)"
        "ch_chat c = (ch_chat ch1)\<lparr>users := users (ch_chat ch1) @ [(?nine, 9)]\<rparr>"
        "clock (ch_state c) = (clock ?st1)(?me \<mapsto> 2, ?nine \<mapsto> 0)"
      by (rule take_add_user [OF inv1 address_acceptable(1) [OF inv1 addr2], of "\<lparr>au_name = ''nine'', au_key = 9\<rparr>" ?nine])
        (auto simp: m2_def demo_ids one(2,3) room1)
    have "channel_keys (ch_state c) ?nine = Some 9"
      using take_message_cases [OF inv1 chat1 address_acceptable(1) [OF inv1 addr2] c(1)]
      by (simp add: keys_move_def m2_def demo_ids)
    with c show ?thesis by (auto simp: one(2,3) members_def message_count_def chat_new_def)
  qed
  have len2: "length (enc_message m2) = 61" by (simp add: enc_message_def m2_def SHA256_SIZE_def enc_string_def)
  then have small2: "length (enc_message m2) \<le> 100" by simp
  have find1: "map_of (cl_channels ?a1) demo_room = Some ch1" by simp
  have keys1: "cl_key_pair ?a1 = demo_pair 7" "cl_node_id ?a1 = ?me" by simp_all
  have own1: "channel_keys ?st1 ?me = Some 7" using replica_owner_key [OF one(5)] demo_compute_id [of 2000 7] by simp
  have free1: "length [[r1]] < max_index (storage_io (ch_storage ch1))" by (simp add: one(4))
  obtain ch2 r2 where two: "do_send ?D ?a1 demo_room ?add = (Ok (), put_channel demo_room ch2 ?a1)"
      "replica ?D demo_holds 7 demo_room ch2 ([[r1]] @ [[r2]])" "length (rec_data r2) = 74 + 2 * length (enc_message m2)"
      "clock (ch_state ch2) = [?me \<mapsto> 2, ?nine \<mapsto> 0] \<and> ?me \<in> members (ch_chat ch2) \<and> ?nine \<in> members (ch_chat ch2) \<and>
       channel_keys (ch_state ch2) ?nine = Some 9 \<and> message_count (ch_chat ch2) = 0"
      "max_index (storage_io (ch_storage ch2)) = max_index (storage_io (ch_storage ch1))"
    by (rule demo_sends [OF keys1 find1 one(5) own1 addr2 small2 take2 free1]) (rule that)
  have "map_of (cl_channels (put_channel demo_room ch2 ?a1)) demo_room = Some ch2" by (simp add: map_of_put_channel)
  then show thesis
    using that [OF owner_send [OF run1 two(1) torn_Ok], of ch2 r1 r2] one(4,6) two(2-5) len2 by (simp add: put_channel_def)
qed

text \<open>Device 7 or 9 sends a short text at that point.\<close>

lemma demo_chats:
  assumes self: "cl_key_pair self = demo_pair k" "cl_node_id self = nid"
    and ch: "map_of (cl_channels self) cid = Some ch" "replica (demo_deps 2000) demo_holds 7 cid ch rss"
    and own: "channel_keys (ch_state ch) (nid) = Some k" "nid \<in> members (ch_chat ch)"
    and clk: "clock (ch_state ch) = [NodeId (Id 7) \<mapsto> 2, NodeId (Id 9) \<mapsto> 0]" "message_count (ch_chat ch) = 0"
    and room: "length rss < max_index (storage_io (ch_storage ch))" "length t = 2"
  obtains ch' r env m where "do_send (demo_deps 2000) self cid (ChatMessage \<lparr>chat_text = t\<rparr>) = (Ok (), put_channel cid ch' self)"
    "replica (demo_deps 2000) demo_holds 7 cid ch' (rss @ [[r]])" "length (rec_data r) = 176"
    "clock (ch_state ch') (nid) = Some 3"
    "max_index (storage_io (ch_storage ch')) = max_index (storage_io (ch_storage ch))"
    "from_bytes envelope_serde (rec_data r) = Ok env" "env_from env = nid"
    "\<forall>c. open_envelope (d_crypto (demo_deps 2000)) c k env = Ok m" "msg_data m = ChatMessage \<lparr>chat_text = t\<rparr>"
    "log_step (demo_deps 2000) cid (ch_state ch, ch_chat ch) r (ch_state ch', ch_chat ch')"
proof -
  let ?D = "demo_deps 2000" and ?me = nid and ?st = "ch_state ch"
  note inv = replica_inv [OF ch(2)]
  obtain l where l: "clock ?st ?me = Some l" using clock_of_key [OF own(1)] by auto
  define m where "m = \<lparr>cause = newest ?st, sender_last = l, msg_sequence = 3, msg_data = (ChatMessage \<lparr>chat_text = t\<rparr> :: u64 protocol)\<rparr>"
  have "current_sequence ?st = 2" by (rule current_of [OF inv, of "NodeId (Id 7)"]) (use clk in \<open>auto split: if_splits\<close>)
  then have addr: "address ?st ?me (ChatMessage \<lparr>chat_text = t\<rparr>) = Ok m"
    unfolding address_spec [OF inv] using l by (simp add: checked_add_def m_def)
  note acc = address_acceptable(1) [OF inv addr]
  have chat: "chat_inv (compute_id (d_crypto ?D)) (d_max_nodes ?D) (ch_chat ch)"
    using ch(2) unfolding replica_def channel_ok_def by blast
  have take: "\<exists>ms c. take_message ?D ch cid ?me m eid = (Ok ms, c) \<and> clock (ch_state c) ?me = Some 3" for eid
  proof -
    obtain ms c where c: "take_message ?D ch cid ?me m eid = (Ok ms, c)"
      by (rule take_chat_message [OF inv acc, of "\<lparr>chat_text = t\<rparr>"]) (use own(2) clk(2) in \<open>simp_all add: m_def\<close>)
    then show ?thesis using take_message_cases [OF inv chat acc c] by (simp add: clock_moves_def m_def)
  qed
  have len: "length (enc_message m) = 51" using room(2) by (simp add: enc_message_def m_def SHA256_SIZE_def enc_string_def)
  then have small: "length (enc_message m) \<le> 100" by simp
  have data: "msg_data m = ChatMessage \<lparr>chat_text = t\<rparr>" by (simp add: m_def)
  show thesis
    by (rule demo_sends [OF self ch own(1) addr small take room(1)], rule that) (use len data in simp_all)
qed

lemma demo_owner_history:
  obtains a ch r1 r2 r3 where "device_run (demo_deps 2000) demo_holds (demo_pair 7) 7 demo_room a"
    "map_of (cl_channels a) demo_room = Some ch" "replica (demo_deps 2000) demo_holds 7 demo_room ch [[r1], [r2], [r3]]"
    "map (\<lambda>r. length (rec_data r)) [r1, r2, r3] = [228, 196, 176]" "clock (ch_state ch) (NodeId (Id 7)) = Some 3"
    "\<forall>st chat. log_run (demo_deps 2000) demo_room (machine_start (demo_deps 2000) 7 demo_room) [r1, r2] (st, chat) \<longrightarrow>
      clock st = [NodeId (Id 7) \<mapsto> 2, NodeId (Id 9) \<mapsto> 0]"
proof -
  let ?D = "demo_deps 2000" and ?me = "NodeId (Id 7)"
  obtain a ch2 r1 r2 where two: "owner_run ?D demo_holds (demo_pair 7) demo_room a"
      "cl_key_pair a = demo_pair 7" "cl_node_id a = ?me" "map_of (cl_channels a) demo_room = Some ch2"
      "replica ?D demo_holds 7 demo_room ch2 [[r1], [r2]]"
      "length (rec_data r1) = 228" "length (rec_data r2) = 196" "clock (ch_state ch2) = [?me \<mapsto> 2, NodeId (Id 9) \<mapsto> 0]"
      "?me \<in> members (ch_chat ch2)" "message_count (ch_chat ch2) = 0" "max_index (storage_io (ch_storage ch2)) = 4"
    by (rule demo_owner_adds)
  have own: "channel_keys (ch_state ch2) ?me = Some 7" using replica_owner_key [OF two(5)] demo_compute_id [of 2000 7] by simp
  obtain ch3 r3 where three: "do_send ?D a demo_room (ChatMessage \<lparr>chat_text = ''hi''\<rparr>) = (Ok (), put_channel demo_room ch3 a)"
      "replica ?D demo_holds 7 demo_room ch3 ([[r1], [r2]] @ [[r3]])" "length (rec_data r3) = 176"
      "clock (ch_state ch3) ?me = Some 3"
    by (rule demo_chats [OF two(2-5) own two(9,8,10), of "''hi''"]) (simp_all add: two(11))
  have "device_run ?D demo_holds (demo_pair 7) 7 demo_room (put_channel demo_room ch3 a)"
    using owner_send [OF two(1) three(1) torn_Ok] by (simp add: device_run_def)
  moreover have "clock st = [?me \<mapsto> 2, NodeId (Id 9) \<mapsto> 0]"
    if "log_run ?D demo_room (machine_start ?D 7 demo_room) [r1, r2] (st, chat)" for st chat
    using log_run_determined [OF replica_run(3) [OF two(5)] that] two(8) by simp
  ultimately show thesis
    using that [of "put_channel demo_room ch3 a" ch3 r1 r2 r3] three(2-4) two(6,7)
    by (simp add: map_of_put_channel)
qed

text \<open>Device 9 follows the first records of that log, up to any number of them.\<close>

lemma demo_member_follows:
  assumes run: "log_run (demo_deps 2000) demo_room (machine_start (demo_deps 2000) 7 demo_room) rs t"
    and room: "length rs \<le> 4" "\<forall>r\<in>set rs. length (rec_data r) \<le> 300"
  obtains b peer where "device_run (demo_deps 2000) demo_holds (demo_pair 9) 7 demo_room b"
    "map_of (cl_channels b) demo_room = Some peer" "(ch_state peer, ch_chat peer) = t"
    "replica (demo_deps 2000) demo_holds 7 demo_room peer (map (\<lambda>r. [r]) rs)"
    "max_index (storage_io (ch_storage peer)) = 4"
    "member_run (demo_deps 2000) demo_holds (demo_pair 9) 7 demo_room b" "cl_key_pair b = demo_pair 9" "cl_node_id b = NodeId (Id 9)"
proof -
  let ?D = "demo_deps 2000"
  have "\<exists>b peer. member_run ?D demo_holds (demo_pair 9) 7 demo_room b \<and> map_of (cl_channels b) demo_room = Some peer \<and>
      (ch_state peer, ch_chat peer) = t \<and> replica ?D demo_holds 7 demo_room peer (map (\<lambda>r. [r]) rs) \<and>
      max_index (storage_io (ch_storage peer)) = 4 \<and> cl_key_pair b = demo_pair 9 \<and> cl_node_id b = NodeId (Id 9)"
    using assms
  proof (induction rs arbitrary: t rule: rev_induct)
    case Nil
    obtain io where io: "demo_holds io []" "max_index io = 4" by (rule demo_store_of)
    let ?ch = "start_channel (compute_id (d_crypto ?D) 7) (7 :: u64) io demo_room"
    let ?b = "demo_member\<lparr>cl_channels := [(demo_room, ?ch)]\<rparr>"
    have "channel_new 4 (compute_id (d_crypto ?D) 7) 7 = Ok (ch_state ?ch)" by (simp add: channel_new_Ok)
    then have "add_channel ?D demo_member 7 demo_room io = (Ok (), ?b)"
      by (simp add: add_channel_def insert_channel_def index_map_insert_def demo_member_def start_channel_def Let_def)
    then have "member_run ?D demo_holds (demo_pair 9) 7 demo_room ?b"
      by (intro member_join [where self = demo_member and holds = demo_holds and io = io, OF _ io(1)])
        (simp_all add: demo_member_def)
    moreover have "replica ?D demo_holds 7 demo_room ?ch []" by (rule replica_start [OF refl io(1)]) simp
    ultimately show ?case using Nil io(2)
      by (intro exI [of _ ?b] exI [of _ ?ch]) (simp add: start_state_def storage_new_def demo_member_def)
  next
    case (snoc r rs)
    from snoc.prems(1) obtain s where s: "log_run ?D demo_room (machine_start ?D 7 demo_room) rs s"
        "log_step ?D demo_room s r t" by (auto simp: log_run_append log_run_Cons)
    have "length rs \<le> 4" "\<forall>r\<in>set rs. length (rec_data r) \<le> 300" using snoc.prems(2,3) by simp_all
    from snoc.IH [OF s(1) this] obtain b peer where b: "member_run ?D demo_holds (demo_pair 9) 7 demo_room b"
        "map_of (cl_channels b) demo_room = Some peer" "(ch_state peer, ch_chat peer) = s"
        "replica ?D demo_holds 7 demo_room peer (map (\<lambda>r. [r]) rs)" "max_index (storage_io (ch_storage peer)) = 4"
        "cl_key_pair b = demo_pair 9" "cl_node_id b = NodeId (Id 9)"
      by blast
    have room: "length (map (\<lambda>r. [r]) rs) < max_index (storage_io (ch_storage peer))" "INITIAL_OFFSET + 4 + length (plain_enc r) \<le> 2000"
      using b(5) snoc.prems(2,3) by (simp_all add: length_plain_enc INITIAL_OFFSET_def)
    obtain peer' where p: "do_receive ?D b demo_room (rec_data r) = (Ok (), put_channel demo_room peer' b)"
        "replica ?D demo_holds 7 demo_room peer' (map (\<lambda>r. [r]) rs @ [[r]])" "(ch_state peer', ch_chat peer') = t"
        "max_index (storage_io (ch_storage peer')) = max_index (storage_io (ch_storage peer))"
      by (rule follow_step [OF refl b(2,4) s(2) [folded b(3)] room])
    have "member_run ?D demo_holds (demo_pair 9) 7 demo_room (put_channel demo_room peer' b)"
      by (rule member_receive [OF b(1) p(1) torn_Ok])
    then show ?case
      using p b(5-7) by (intro exI [of _ "put_channel demo_room peer' b"] exI [of _ peer'])
        (simp add: put_channel_def update_conv')
  qed
  then show thesis using that by (auto simp: device_run_def)
qed

end
