(* ===== verification/Catch_Up.thy ===== *)
theory Catch_Up
  imports Replica_Demo
begin

text \<open>
  Properties of the replication of a channel: the log of a device determines its channel, a
  synchronisation brings a device up to date, and how a buffer that is smaller than the log stops it.
\<close>

text \<open>
  C4. The log of a device determines its channel, as long as no call on it was torn. Take a device that has made or
  joined a channel, over a store that only the client writes, and has since called \<^verbatim>\<open>do_send\<close> and \<^verbatim>\<open>do_receive\<close> on it with
  any data and bytes, where calls may fail but none has panicked or failed after it had changed the client (adding a
  user that is known, or a store that refuses the record, does that, by \<open>torn_errors\<close>): its log is a run of one machine,
  the same for all such devices of the channel, which takes every envelope once and in an order that the clock allows,
  and the channel's state and chat are where the run ends. So when the log of one device holds the envelopes
  of another device's log and then some more, the one that is behind has exactly the state and the chat
  (clock, keys, members, message count) that the other one had at that point.
\<close>

theorem devices_replicate:
  assumes D: "D = app_deps SLAB P SR SM SE SN M MC" and envs: "serde_ok SE enc_env" and keys: "rust_matching P SM kp"
    and run: "device_run D (mem_holds SLAB SR enc) kp key cid a" "map_of (cl_channels a) cid = Some ch"
  shows "(\<exists>rss. replica D (mem_holds SLAB SR enc) key cid ch rss) \<and>
    (\<forall>rss peer rssb xs ys. replica D (mem_holds SLAB SR enc) key cid ch rss \<and>
       replica D (mem_holds SLAB SR enc) key cid peer rssb \<and>
       concat rss = xs @ ys \<and> map rec_data xs = map rec_data (concat rssb) \<longrightarrow>
       xs = concat rssb \<and> log_run D cid (machine_start D key cid) xs (ch_state peer, ch_chat peer) \<and>
       log_run D cid (ch_state peer, ch_chat peer) ys (ch_state ch, ch_chat ch))"
proof (intro conjI allI impI)
  show "\<exists>rss. replica D (mem_holds SLAB SR enc) key cid ch rss" by (rule device_run_replica [OF D keys envs run])
next
  fix rss peer rssb xs ys
  assume "replica D (mem_holds SLAB SR enc) key cid ch rss \<and> replica D (mem_holds SLAB SR enc) key cid peer rssb \<and>
    concat rss = xs @ ys \<and> map rec_data xs = map rec_data (concat rssb)"
  then have h: "replica D (mem_holds SLAB SR enc) key cid ch rss" "replica D (mem_holds SLAB SR enc) key cid peer rssb"
      "concat rss = xs @ ys" "map rec_data xs = map rec_data (concat rssb)" by blast+
  obtain t where t: "log_run D cid (machine_start D key cid) xs t" "log_run D cid t ys (ch_state ch, ch_chat ch)"
    using replica_run(3) [OF h(1)] unfolding h(3) by (auto simp: log_run_append)
  have "xs = concat rssb \<and> t = (ch_state peer, ch_chat peer)"
    using log_run_determined [OF replica_run(3) [OF h(2)] t(1) h(4)] by simp
  then show "xs = concat rssb" "log_run D cid (machine_start D key cid) xs (ch_state peer, ch_chat peer)"
    "log_run D cid (ch_state peer, ch_chat peer) ys (ch_state ch, ch_chat ch)" using t by simp_all
qed

theorem devices_replicate_witness:
  "\<exists>a b ch peer r. device_run (demo_deps 2000) demo_holds (demo_pair 7) 7 demo_room a \<and>
    device_run (demo_deps 2000) demo_holds (demo_pair 9) 7 demo_room b \<and>
    map_of (cl_channels a) demo_room = Some ch \<and> map_of (cl_channels b) demo_room = Some peer \<and>
    log_run (demo_deps 2000) demo_room (ch_state peer, ch_chat peer) [r] (ch_state ch, ch_chat ch)"
proof -
  let ?D = "demo_deps 2000"
  obtain a ch r1 r2 r3 where a: "device_run ?D demo_holds (demo_pair 7) 7 demo_room a" "map_of (cl_channels a) demo_room = Some ch"
      "replica ?D demo_holds 7 demo_room ch [[r1], [r2], [r3]]" "map (\<lambda>r. length (rec_data r)) [r1, r2, r3] = [228, 196, 176]"
    by (rule demo_owner_history)
  obtain t where "log_run ?D demo_room (machine_start ?D 7 demo_room) [r1, r2] t"
    using replica_run(3) [OF a(3)] log_run_append [of ?D demo_room _ "[r1, r2]" "[r3]"] by auto
  then obtain b peer where b: "device_run ?D demo_holds (demo_pair 9) 7 demo_room b"
      "map_of (cl_channels b) demo_room = Some peer" "replica ?D demo_holds 7 demo_room peer (map (\<lambda>r. [r]) [r1, r2])"
    by (rule demo_member_follows) (use a(4) in simp_all)
  have "concat [[r1], [r2], [r3]] = [r1, r2] @ [r3]" "map rec_data [r1, r2] = map rec_data (concat (map (\<lambda>r. [r]) [r1, r2]))"
    by simp_all
  then have "log_run ?D demo_room (ch_state peer, ch_chat peer) [r3] (ch_state ch, ch_chat ch)"
    using devices_replicate [OF refl envelope_serde_ok demo_matching a(1,2)] a(3) b(3) by blast
  then show ?thesis using a(1,2) b(1,2) by blast
qed

text \<open>
  C7. A synchronisation brings a device up to date. For a device whose log is what the other one's log
  holds up to some point, with free slabs for the rest, and for a buffer that takes the whole log: the
  request, the merge of the clocks, the buffer and its reading all succeed, and afterwards the device has
  the same state, the same chat and the same log as the other one, whatever was missing.
\<close>

theorem member_catches_up:
  assumes D: "D = app_deps SLAB P SR SM SE SN M MC"
    and a: "map_of (cl_channels a) cid = Some ch" "replica D (mem_holds SLAB SR enc) key cid ch rssa" "rssa \<noteq> []"
    and b: "map_of (cl_channels b) cid = Some peer" "replica D (mem_holds SLAB SR enc) key cid peer rssb"
    and behind: "concat rssa = concat rssb @ ys"
    and room: "length rssb + length ys \<le> max_index (storage_io (ch_storage peer))"
    and buffer: "length (packed (map rec_data (concat rssa))) \<le> length buffer" "length buffer < usize_limit"
  shows "\<exists>request state count n buffer' peer'.
    finish_sync_request D b cid request0 = (Ok (), request) \<and>
    start_sync_response D a cid (sync_responder_new request) request = (Ok (), state) \<and>
    fill_send_buffer D a cid state buffer = (Ok (count, n), buffer') \<and>
    receive_buffer D b cid (take n buffer') count = (Ok (), put_channel cid peer' b) \<and>
    replica D (mem_holds SLAB SR enc) key cid peer' (rssb @ map (\<lambda>r. [r]) ys) \<and>
    ch_state peer' = ch_state ch \<and> ch_chat peer' = ch_chat ch"
proof -
  have held: "mem_holds SLAB SR enc (storage_io (ch_storage ch)) rssa" using a(2) by (simp add: replica_def channel_ok_def)
  have small: "\<forall>r\<in>set (concat rssa). length (rec_data r) + LEN_SIZE < usize_limit"
    by (rule packed_short) (use buffer in simp)
  note run = replica_behind(1) [OF a(2) b(2) behind]
  obtain i q where reach: "clock (ch_state peer) i = Some q" "q \<le> current_sequence (ch_state ch)"
    using replica_behind(3) [OF a(2) b(2) behind] by blast
  obtain request state start ds n buffer' where round:
      "finish_sync_request D b cid request0 = (Ok (), request)"
      "start_sync_response D a cid (sync_responder_new request) request = (Ok (), state)"
      "\<forall>n s. clock (ch_state peer) n = Some s \<longrightarrow> start \<le> s"
      "ds = fitting (length buffer) (map rec_data (dropWhile (\<lambda>r. \<not> start \<le> rec_max_sequence r) (concat rssa)))"
      "fill_send_buffer D a cid state buffer = (Ok (of_nat (length ds), n), buffer')"
      "receive_buffer D b cid (take n buffer') (of_nat (length ds)) = receive_each D b cid ds"
    by (rule sync_round [OF D a b(1) replica_inv [OF b(2)] replica_behind(2) [OF a(2) b(2) behind] reach small buffer(2)])
  let ?ws = "dropWhile (\<lambda>r. \<not> start \<le> rec_max_sequence r) (concat rssb)"
  have ds: "ds = map rec_data ?ws @ map rec_data ys"
    using buffer(1) length_packed_drop [of "\<lambda>r. \<not> start \<le> rec_max_sequence r" "concat rssa"] unfolding round(4)
    by (subst fitting_all) (simp_all add: behind served_behind [OF b(2) run round(3)])
  have "\<forall>r\<in>set ?ws. received_in D (ch_state peer) r" using replica_run(4) [OF b(2)] by (blast dest: set_dropWhileD)
  from receive_each_received [OF b(1) replica_inv [OF b(2)] this, of "map rec_data ys"]
  have "receive_each D b cid ds = receive_each D b cid (map rec_data ys)" by (simp add: ds)
  moreover from follow_run [OF D run b(1) refl b(2) room] obtain peer' where
      "receive_each D b cid (map rec_data ys) = (Ok (), put_channel cid peer' b)"
      "(ch_state peer', ch_chat peer') = (ch_state ch, ch_chat ch)"
      "replica D (mem_holds SLAB SR enc) key cid peer' (rssb @ map (\<lambda>r. [r]) ys)"
    using mem_holds_fits [OF held] behind by auto
  ultimately show ?thesis using round(1,2,5,6) by (metis Pair_inject)
qed

theorem member_catches_up_witness:
  "\<exists>a b request state count n buffer' peer' ch. device_run (demo_deps 2000) demo_holds (demo_pair 7) 7 demo_room a \<and>
    device_run (demo_deps 2000) demo_holds (demo_pair 9) 7 demo_room b \<and> map_of (cl_channels a) demo_room = Some ch \<and>
    finish_sync_request (demo_deps 2000) b demo_room (demo_request (NodeId (Id 9))) = (Ok (), request) \<and>
    start_sync_response (demo_deps 2000) a demo_room (sync_responder_new request) request = (Ok (), state) \<and>
    fill_send_buffer (demo_deps 2000) a demo_room state (replicate 1000 0) = (Ok (count, n), buffer') \<and>
    receive_buffer (demo_deps 2000) b demo_room (take n buffer') count = (Ok (), put_channel demo_room peer' b) \<and>
    ch_state peer' = ch_state ch \<and> clock (ch_state peer') (NodeId (Id 7)) = Some 3"
proof -
  let ?D = "demo_deps 2000"
  obtain a ch r1 r2 r3 where a: "device_run ?D demo_holds (demo_pair 7) 7 demo_room a" "map_of (cl_channels a) demo_room = Some ch"
      "replica ?D demo_holds 7 demo_room ch [[r1], [r2], [r3]]" "map (\<lambda>r. length (rec_data r)) [r1, r2, r3] = [228, 196, 176]"
      "clock (ch_state ch) (NodeId (Id 7)) = Some 3"
    by (rule demo_owner_history)
  obtain t where "log_run ?D demo_room (machine_start ?D 7 demo_room) [r1] t"
    using replica_run(3) [OF a(3)] log_run_append [of ?D demo_room _ "[r1]" "[r2, r3]"] by auto
  then obtain b peer where b: "device_run ?D demo_holds (demo_pair 9) 7 demo_room b"
      "map_of (cl_channels b) demo_room = Some peer" "replica ?D demo_holds 7 demo_room peer (map (\<lambda>r. [r]) [r1])"
      "max_index (storage_io (ch_storage peer)) = 4"
    by (rule demo_member_follows) (use a(4) in simp_all)
  have behind: "concat [[r1], [r2], [r3]] = concat (map (\<lambda>r. [r]) [r1]) @ [r2, r3]"
    and room: "length (map (\<lambda>r. [r]) [r1]) + length [r2, r3] \<le> max_index (storage_io (ch_storage peer))"
    and buffer: "length (packed (map rec_data (concat [[r1], [r2], [r3]]))) \<le> length (replicate 1000 (0 :: u8))"
      "length (replicate 1000 (0 :: u8)) < usize_limit"
    using a(4) b(4) by (simp_all add: usize_limit_def)
  from member_catches_up [OF refl a(2,3) _ b(2,3) behind room buffer, of "demo_request (NodeId (Id 9))"] a(1,2,5) b(1)
  show ?thesis by (metis list.distinct(1))
qed

text \<open>
  C35. With a buffer that is smaller than the log, synchronisation can stop for good. As soon as the
  requester knows a node that has not sent anything, the merged clock's least sequence is 0 and every
  answer begins with the first record of the log, whatever the requester has; if what fits into the
  buffer is no more than that, the round succeeds without any effect on the requester, so that every
  later round does the same, however far it is behind.
\<close>

theorem sync_stalls:
  assumes D: "D = app_deps SLAB P SR SM SE SN M MC"
    and a: "map_of (cl_channels a) cid = Some ch" "replica D (mem_holds SLAB SR enc) key cid ch rssa" "rssa \<noteq> []"
    and b: "map_of (cl_channels b) cid = Some peer" "replica D (mem_holds SLAB SR enc) key cid peer rssb"
    and behind: "concat rssa = concat rssb @ ys"
    and silent: "clock (ch_state peer) quiet = Some 0"
    and buffer: "length (fitting (length buffer) (map rec_data (concat rssa))) \<le> length (concat rssb)"
      "length buffer < usize_limit" "\<forall>r\<in>set (concat rssa). length (rec_data r) + LEN_SIZE < usize_limit"
  shows "\<exists>request state count n buffer'.
    finish_sync_request D b cid request0 = (Ok (), request) \<and>
    start_sync_response D a cid (sync_responder_new request) request = (Ok (), state) \<and>
    fill_send_buffer D a cid state buffer = (Ok (count, n), buffer') \<and>
    receive_buffer D b cid (take n buffer') count = (Ok (), b)"
proof -
  note run = replica_behind(1) [OF a(2) b(2) behind]
  obtain i q where reach: "clock (ch_state peer) i = Some q" "q \<le> current_sequence (ch_state ch)"
    using replica_behind(3) [OF a(2) b(2) behind] by blast
  obtain request state start ds n buffer' where round:
      "finish_sync_request D b cid request0 = (Ok (), request)"
      "start_sync_response D a cid (sync_responder_new request) request = (Ok (), state)"
      "\<forall>n s. clock (ch_state peer) n = Some s \<longrightarrow> start \<le> s"
      "ds = fitting (length buffer) (map rec_data (dropWhile (\<lambda>r. \<not> start \<le> rec_max_sequence r) (concat rssa)))"
      "fill_send_buffer D a cid state buffer = (Ok (of_nat (length ds), n), buffer')"
      "receive_buffer D b cid (take n buffer') (of_nat (length ds)) = receive_each D b cid ds"
    by (rule sync_round [OF D a b(1) replica_inv [OF b(2)] replica_behind(2) [OF a(2) b(2) behind] reach buffer(3,2)])
  have "start = 0" using round(3) silent by (metis word_le_0_iff)
  then have "dropWhile (\<lambda>r. \<not> start \<le> rec_max_sequence r) (concat rssa) = concat rssa" by (cases "concat rssa") simp_all
  then have "ds = map rec_data (take (length ds) (concat rssb)) @ []"
    using fitting_prefix [of "length buffer" "map rec_data (concat rssa)"] buffer(1)
    by (simp add: round(4) behind take_map)
  moreover have "\<forall>r\<in>set (take (length ds) (concat rssb)). received_in D (ch_state peer) r"
    using replica_run(4) [OF b(2)] by (meson in_set_takeD)
  ultimately have "receive_each D b cid ds = (Ok (), b)"
    using receive_each_received [OF b(1) replica_inv [OF b(2)], of "take (length ds) (concat rssb)" "[]"]
    by (metis receive_each.simps(1))
  then show ?thesis using round(1,2,5,6) by metis
qed

theorem sync_stalls_witness:
  "\<exists>a b request state count n buffer' ch peer. device_run (demo_deps 2000) demo_holds (demo_pair 7) 7 demo_room a \<and>
    device_run (demo_deps 2000) demo_holds (demo_pair 9) 7 demo_room b \<and>
    map_of (cl_channels a) demo_room = Some ch \<and> map_of (cl_channels b) demo_room = Some peer \<and>
    finish_sync_request (demo_deps 2000) b demo_room (demo_request (NodeId (Id 9))) = (Ok (), request) \<and>
    start_sync_response (demo_deps 2000) a demo_room (sync_responder_new request) request = (Ok (), state) \<and>
    fill_send_buffer (demo_deps 2000) a demo_room state (replicate 500 0) = (Ok (count, n), buffer') \<and>
    receive_buffer (demo_deps 2000) b demo_room (take n buffer') count = (Ok (), b) \<and>
    clock (ch_state ch) (NodeId (Id 7)) = Some 3 \<and> clock (ch_state peer) (NodeId (Id 7)) = Some 2"
proof -
  let ?D = "demo_deps 2000"
  obtain a ch r1 r2 r3 where a: "device_run ?D demo_holds (demo_pair 7) 7 demo_room a" "map_of (cl_channels a) demo_room = Some ch"
      "replica ?D demo_holds 7 demo_room ch [[r1], [r2], [r3]]" "map (\<lambda>r. length (rec_data r)) [r1, r2, r3] = [228, 196, 176]"
      "clock (ch_state ch) (NodeId (Id 7)) = Some 3"
      "\<forall>st chat. log_run ?D demo_room (machine_start ?D 7 demo_room) [r1, r2] (st, chat) \<longrightarrow>
        clock st = [NodeId (Id 7) \<mapsto> 2, NodeId (Id 9) \<mapsto> 0]"
    by (rule demo_owner_history)
  obtain t where t: "log_run ?D demo_room (machine_start ?D 7 demo_room) [r1, r2] t"
    using replica_run(3) [OF a(3)] log_run_append [of ?D demo_room _ "[r1, r2]" "[r3]"] by auto
  then obtain b peer where b: "device_run ?D demo_holds (demo_pair 9) 7 demo_room b"
      "map_of (cl_channels b) demo_room = Some peer" "(ch_state peer, ch_chat peer) = t"
      "replica ?D demo_holds 7 demo_room peer (map (\<lambda>r. [r]) [r1, r2])"
    by (rule demo_member_follows) (use a(4) in simp_all)
  have clk: "clock (ch_state peer) = [NodeId (Id 7) \<mapsto> 2, NodeId (Id 9) \<mapsto> 0]" using a(6) t b(3) by metis
  have behind: "concat [[r1], [r2], [r3]] = concat (map (\<lambda>r. [r]) [r1, r2]) @ [r3]"
    and silent: "clock (ch_state peer) (NodeId (Id 9)) = Some 0"
    and buffer: "length (fitting (length (replicate 500 (0 :: u8))) (map rec_data (concat [[r1], [r2], [r3]])))
        \<le> length (concat (map (\<lambda>r. [r]) [r1, r2]))" "length (replicate 500 (0 :: u8)) < usize_limit"
      "\<forall>r\<in>set (concat [[r1], [r2], [r3]]). length (rec_data r) + LEN_SIZE < usize_limit"
    using a(4) clk by (simp_all add: usize_limit_def LEN_SIZE_def)
  from sync_stalls [OF refl a(2,3) _ b(2,4) behind silent buffer, of "demo_request (NodeId (Id 9))"]
  obtain request state count n buffer' where
      "finish_sync_request ?D b demo_room (demo_request (NodeId (Id 9))) = (Ok (), request)"
      "start_sync_response ?D a demo_room (sync_responder_new request) request = (Ok (), state)"
      "fill_send_buffer ?D a demo_room state (replicate 500 0) = (Ok (count, n), buffer')"
      "receive_buffer ?D b demo_room (take n buffer') count = (Ok (), b)" by blast
  moreover have "clock (ch_state peer) (NodeId (Id 7)) = Some 2" by (simp add: clk)
  ultimately show ?thesis using a(1,2,5) b(1,2) by blast
qed

end
