(* ===== verification/Merging.thy ===== *)
theory Merging
  imports Catch_Up
begin

text \<open>
  Devices that have gone on independently: two logs with a common part, after which both devices have sent
  and received chat messages of their own. Offered the log of the other, a device takes exactly the
  messages it lacks, and its clock becomes the maximum of both.
\<close>

subsection \<open>Chat messages\<close>

text \<open>\<open>chat_record D st r\<close>: the record holds a chat message of a node whose key the state knows.\<close>

definition chat_record :: "('c, 's, 'p, 'i) deps \<Rightarrow> 'p channel_state \<Rightarrow> stored \<Rightarrow> bool" where
  "chat_record D st r \<longleftrightarrow>
     (\<exists>env key m t. from_bytes (d_envelopes D) (rec_data r) = Ok env \<and> channel_keys st (env_from env) = Some key \<and>
        (\<forall>c. open_envelope (d_crypto D) c key env = Ok m) \<and> msg_data m = ChatMessage t)"

lemma clock_None_keys: "clock st n = None \<longleftrightarrow> channel_keys st n = None"
  by (simp add: clock_def channel_keys_def)

lemma clock_moves_same_keys:
  assumes "clock_moves (clock st) i q (clock st')" "channel_keys st' = channel_keys st"
  shows "clock st' = (clock st)(i \<mapsto> q)"
proof
  fix n
  have "clock st' n = None \<longleftrightarrow> clock st n = None" using assms(2) by (simp add: clock_None_keys)
  then show "clock st' n = ((clock st)(i \<mapsto> q)) n" using assms(1) by (auto simp: clock_moves_def)
qed

text \<open>What a step with a chat message needs and does, for the machine of any device.\<close>

lemma chat_step_effect:
  assumes inv: "machine_inv D s" and step: "log_step D cid s r t" and chat: "chat_record D (fst s) r"
  obtains env key m body where "from_bytes (d_envelopes D) (rec_data r) = Ok env" "env_from env = rec_sender r"
    "channel_keys (fst s) (rec_sender r) = Some key" "\<forall>c. open_envelope (d_crypto D) c key env = Ok m"
    "msg_data m = ChatMessage body" "acceptable (clock (fst s)) (rec_sender r) m" "msg_sequence m = rec_sequence r"
    "rec_sender r \<in> members (snd s)" "members (snd t) = members (snd s)"
    "unat (message_count (snd t)) = Suc (unat (message_count (snd s)))" "\<exists>n. snd t = (snd s)\<lparr>chat_message_count := n\<rparr>"
    "channel_keys (fst t) = channel_keys (fst s)" "clock (fst t) = (clock (fst s))(rec_sender r \<mapsto> rec_sequence r)"
proof -
  obtain env key m where env: "from_bytes (d_envelopes D) (rec_data r) = Ok env"
      "channel_keys (fst s) (env_from env) = Some key" "\<forall>c. open_envelope (d_crypto D) c key env = Ok m"
      "acceptable (clock (fst s)) (env_from env) m" "rec_sequence r = msg_sequence m" "rec_sender r = env_from env"
    and taken: "\<forall>c st. take_message D \<lparr>ch_state = fst s, ch_storage = st, ch_chat = snd s\<rparr> cid (env_from env) m
        (envelope_id_of (d_crypto D) c env)
      = (Ok (rec_max_sequence r), \<lparr>ch_state = fst t, ch_storage = st, ch_chat = snd t\<rparr>)"
    using step unfolding log_step_def by blast
  obtain body where m: "msg_data m = ChatMessage body" using chat env(1-3) by (auto simp: chat_record_def)
  let ?ch = "\<lambda>x. \<lparr>ch_state = fst x, ch_storage = undefined, ch_chat = snd x\<rparr>"
  have inv': "channel_inv (d_max_nodes D) (ch_state (?ch s))"
      "chat_inv (compute_id (d_crypto D)) (d_max_nodes D) (ch_chat (?ch s))"
    and acc: "acceptable (clock (ch_state (?ch s))) (env_from env) m"
    using inv env(4) by (simp_all add: machine_inv_def)
  from taken have take: "take_message D (?ch s) cid (env_from env) m (envelope_id_of (d_crypto D) undefined env)
      = (Ok (rec_max_sequence r), ?ch t)" by blast
  note moves = take_message_cases [OF inv' acc this, simplified]
  have keys: "channel_keys (fst t) = channel_keys (fst s)" using moves by (simp add: keys_move_def m)
  have clk: "clock (fst t) = (clock (fst s))(rec_sender r \<mapsto> rec_sequence r)"
    using clock_moves_same_keys [of "fst s" "env_from env" "msg_sequence m" "fst t"] moves keys by (simp add: env(5,6))
  obtain accepted chat' where accepted: "accept_message (compute_id (d_crypto D)) (d_max_nodes D) (snd s) cid (env_from env)
      (ChatMessage body) = (accepted, chat')" by fastforce
  obtain received st' where received: "receive (fst s) (env_from env) m (envelope_id_of (d_crypto D) undefined env) = (received, st')"
    by fastforce
  obtain a where a: "accepted = Ok a" using take by (cases accepted) (simp_all add: take_message_def m accepted)
  note acc_msg = accepted [unfolded a]
  show thesis
  proof (rule accept_ChatMessage_Ok [OF acc_msg])
    fix n assume n: "env_from env \<in> members (snd s)" "a = Accept_NewMessage n"
      "unat n = Suc (unat (chat_message_count (snd s)))" "chat' = (snd s)\<lparr>chat_message_count := n\<rparr>"
    have "snd t = chat'"
      using take n(2) by (cases received) (simp_all add: take_message_def m remember_key_def acc_msg received)
    moreover from this n(4) have "\<exists>n. snd t = (snd s)\<lparr>chat_message_count := n\<rparr>" by blast
    ultimately show thesis
      using n env m keys clk by (intro that [of env key m body]) (simp_all add: message_count_def members_def)
  qed
qed

lemma chat_step_runs:
  assumes D: "D = app_deps SLAB P SR SM SE SN M MC" and inv: "machine_inv D s"
    and env: "from_bytes (d_envelopes D) d = Ok env" "channel_keys (fst s) (env_from env) = Some key"
      "\<forall>c. open_envelope (d_crypto D) c key env = Ok m" "msg_data m = ChatMessage body"
    and acc: "acceptable (clock (fst s)) (env_from env) m" and member: "env_from env \<in> members (snd s)"
    and count: "Suc (unat (message_count (snd s))) < 2 ^ 64"
  obtains z t where "log_step D cid s z t" "rec_data z = d" "rec_sender z = env_from env" "rec_sequence z = msg_sequence m"
proof -
  let ?ch = "\<lparr>ch_state = fst s, ch_storage = (undefined :: mem_io storage), ch_chat = snd s\<rparr>"
  have inv': "channel_inv (d_max_nodes D) (ch_state ?ch)" and acc': "acceptable (clock (ch_state ?ch)) (env_from env) m"
    and member': "env_from env \<in> members (ch_chat ?ch)" and count': "Suc (unat (message_count (ch_chat ?ch))) < 2 ^ 64"
    using inv acc member count by (simp_all add: machine_inv_def)
  obtain ms ch1 where taken: "take_message D ?ch cid (env_from env) m (envelope_id_of (d_crypto D) undefined env) = (Ok ms, ch1)"
    by (rule take_chat_message [OF inv' acc' env(4) member' count'])
  let ?z = "\<lparr>rec_max_sequence = ms, rec_message_count = message_count (ch_chat ch1), rec_sequence = msg_sequence m,
    rec_sender = env_from env, rec_data = d\<rparr>"
  have "log_step D cid (ch_state ?ch, ch_chat ?ch) ?z (ch_state ch1, ch_chat ch1)"
    by (rule log_stepI [OF D, where env = env and key = key and c = undefined and m = m]) (use env acc taken in simp_all)
  then show thesis by (intro that [of ?z "(ch_state ch1, ch_chat ch1)"]) simp_all
qed

subsection \<open>Merging two runs\<close>

text \<open>The sequences of a node's messages in a log, and the place of another device's clock among them.\<close>

definition sent :: "node_id \<Rightarrow> stored list \<Rightarrow> u64 list" where
  "sent n rs = map rec_sequence (filter (\<lambda>r. rec_sender r = n) rs)"

definition gapless :: "u64 \<Rightarrow> u64 \<Rightarrow> u64 list \<Rightarrow> bool" where
  "gapless base have qs \<longleftrightarrow> base \<le> have \<or> base \<in> set qs \<or> (\<forall>q\<in>set qs. q \<le> base)"

lemma sent_simps [simp]:
  "sent n [] = []" "sent n (r # rs) = (if rec_sender r = n then rec_sequence r # sent n rs else sent n rs)"
  "sent n (rs @ qs) = sent n rs @ sent n qs"
  by (simp_all add: sent_def)

lemma known_sequence_mono:
  "\<forall>n s. clk n = Some s \<longrightarrow> (\<exists>s'. clk' n = Some s' \<and> s \<le> s') \<Longrightarrow> known_sequence clk n \<le> known_sequence clk' n"
  by (fastforce simp: known_sequence_def split: option.split)

lemma run_increases:
  "log_run D cid s rs t \<Longrightarrow> machine_inv D s \<Longrightarrow> \<forall>r\<in>set rs. known_sequence (clock (fst s)) (rec_sender r) < rec_sequence r"
proof (induction rule: log_run.induct)
  case (run_cons s r t rs u)
  note e = log_step_effect [OF run_cons.prems run_cons.hyps(1)]
  have "known_sequence (clock (fst s)) n \<le> known_sequence (clock (fst t)) n" for n
    using e(2) by (intro known_sequence_mono) (simp add: state_le_def)
  moreover have "known_sequence (clock (fst s)) (rec_sender r) < rec_sequence r"
    using e(6) by (auto simp: known_sequence_def)
  ultimately show ?case using run_cons.IH [OF e(1)] by (auto intro: le_less_trans)
qed simp

abbreviation lacking :: "(node_id \<Rightarrow> u64) \<Rightarrow> stored \<Rightarrow> bool" where
  "lacking base r \<equiv> base (rec_sender r) < rec_sequence r"

abbreviation what :: "stored \<Rightarrow> node_id \<times> u64 \<times> u8 list" where
  "what r \<equiv> (rec_sender r, rec_sequence r, rec_data r)"

lemma gapless_next: "gapless b c (q # qs) \<Longrightarrow> c < q \<Longrightarrow> gapless b q qs"
  by (auto simp: gapless_def)

lemma gapless_take: "gapless b c (q # qs) \<Longrightarrow> b < q \<Longrightarrow> \<forall>p\<in>set qs. q < p \<Longrightarrow> b \<le> c"
  by (auto simp: gapless_def)

lemma sent_increases:
  assumes "log_run D cid s rs t" "machine_inv D s" "known_sequence (clock (fst s)) n = q"
  shows "\<forall>p\<in>set (sent n rs). q < p"
  using run_increases [OF assms(1,2)] assms(3) by (auto simp: sent_def)

lemma acceptable_mono:
  assumes acc: "acceptable clk i m" and same: "clk' i = clk i" and le: "\<And>n. known_sequence clk n \<le> known_sequence clk' n"
  shows "acceptable clk' i m"
proof -
  have "unat (known_sequence clk (cause m)) \<le> unat (known_sequence clk' (cause m))"
    using le [of "cause m"] by (simp add: word_le_nat_alt)
  then show ?thesis using acc same by (simp add: acceptable_def)
qed

lemma chat_record_keys: "channel_keys st' = channel_keys st \<Longrightarrow> chat_record D st' r = chat_record D st r"
  by (simp add: chat_record_def)

text \<open>
  The next message of the other device's log: a device whose clock is the maximum of the other's and of \<open>base\<close>
  has it or takes it, and then its clock is the maximum again.
\<close>

lemma merge_next:
  assumes D: "D = app_deps SLAB P SR SM SE SN M MC"
    and s: "log_step D cid s r s'" "machine_inv D s" "chat_record D (fst s) r"
    and t: "machine_inv D t" "channel_keys (fst t) = channel_keys (fst s)" "members (snd t) = members (snd s)"
      "\<forall>n. clock (fst t) n = map_option (max (base n)) (clock (fst s) n)"
    and gap: "gapless (base (rec_sender r)) (known_sequence (clock (fst s)) (rec_sender r)) (rec_sequence r # qs)"
      "\<forall>p\<in>set qs. rec_sequence r < p"
    and count: "Suc (unat (message_count (snd t))) < 2 ^ 64"
  shows "\<not> lacking base r \<Longrightarrow> received_in D (fst t) r"
    and "lacking base r \<Longrightarrow> \<exists>z t'. log_step D cid t z t' \<and> what z = what r \<and> machine_inv D t' \<and>
      channel_keys (fst t') = channel_keys (fst t) \<and> members (snd t') = members (snd t) \<and>
      unat (message_count (snd t')) = Suc (unat (message_count (snd t))) \<and>
      clock (fst t') = (clock (fst t))(rec_sender r \<mapsto> rec_sequence r)"
proof -
  obtain env key m body where r: "from_bytes (d_envelopes D) (rec_data r) = Ok env" "env_from env = rec_sender r"
      "channel_keys (fst s) (rec_sender r) = Some key" "\<forall>c. open_envelope (d_crypto D) c key env = Ok m"
      "msg_data m = ChatMessage body" "acceptable (clock (fst s)) (rec_sender r) m" "msg_sequence m = rec_sequence r"
      "rec_sender r \<in> members (snd s)"
    by (rule chat_step_effect [OF s(2,1,3)]) (rule that)
  have last: "clock (fst s) (rec_sender r) = Some (sender_last m)" "sender_last m < rec_sequence r"
    using r(6,7) by (simp_all add: acceptable_def)
  have now: "clock (fst t) (rec_sender r) = Some (max (base (rec_sender r)) (sender_last m))" using t(4) last(1) by simp
  show "\<not> lacking base r \<Longrightarrow> received_in D (fst t) r"
    unfolding received_in_def using r(1-4,7) t(2) now by (intro exI [of _ env] exI [of _ key] exI [of _ m]) (simp add: le_max_iff_disj not_less)
  assume "lacking base r"
  then have "base (rec_sender r) \<le> sender_last m"
    using gapless_take [OF gap(1) _ gap(2)] last(1) by (simp add: known_sequence_def)
  then have same_last: "clock (fst t) (rec_sender r) = Some (sender_last m)" using now by simp
  have "known_sequence (clock (fst s)) n \<le> known_sequence (clock (fst t)) n" for n
    using t(4) by (intro known_sequence_mono) simp
  then have acc: "acceptable (clock (fst t)) (env_from env) m"
    unfolding r(2) by (intro acceptable_mono [OF r(6)]) (simp_all add: last(1) same_last)
  obtain z t' where z: "log_step D cid t z t'" "rec_data z = rec_data r" "rec_sender z = env_from env" "rec_sequence z = msg_sequence m"
    by (rule chat_step_runs [OF D t(1) r(1) _ r(4,5) acc _ count]) (use r(2,3,8) t(2,3) in simp_all)
  have same: "what z = what r" using z(2-4) r(2,7) by simp
  have chat: "chat_record D (fst t) z" using s(3) by (simp add: chat_record_def z(2) t(2))
  have after: "channel_keys (fst t') = channel_keys (fst t)" "members (snd t') = members (snd t)"
      "unat (message_count (snd t')) = Suc (unat (message_count (snd t)))"
      "clock (fst t') = (clock (fst t))(rec_sender z \<mapsto> rec_sequence z)"
    by (rule chat_step_effect [OF t(1) z(1) chat], simp)+
  show "\<exists>z t'. log_step D cid t z t' \<and> what z = what r \<and> machine_inv D t' \<and>
      channel_keys (fst t') = channel_keys (fst t) \<and> members (snd t') = members (snd t) \<and>
      unat (message_count (snd t')) = Suc (unat (message_count (snd t))) \<and>
      clock (fst t') = (clock (fst t))(rec_sender r \<mapsto> rec_sequence r)"
    using z(1) same log_step_effect(1) [OF t(1) z(1)] after by (intro exI [of _ z] exI [of _ t']) simp
qed

lemma run_merges:
  assumes D: "D = app_deps SLAB P SR SM SE SN M MC"
  shows "log_run D cid s xs u \<Longrightarrow> machine_inv D s \<Longrightarrow> \<forall>r\<in>set xs. chat_record D (fst s) r \<Longrightarrow> machine_inv D t \<Longrightarrow>
    channel_keys (fst t) = channel_keys (fst s) \<Longrightarrow> members (snd t) = members (snd s) \<Longrightarrow>
    \<forall>n. clock (fst t) n = map_option (max (base n)) (clock (fst s) n) \<Longrightarrow>
    \<forall>n. gapless (base n) (known_sequence (clock (fst s)) n) (sent n xs) \<Longrightarrow>
    unat (message_count (snd t)) + length xs < 2 ^ 64 \<Longrightarrow>
    \<exists>zs v. log_merge D cid t xs zs v \<and> map what zs = map what (filter (lacking base) xs) \<and>
      channel_keys (fst v) = channel_keys (fst u) \<and> members (snd v) = members (snd u) \<and>
      (\<forall>n. clock (fst v) n = map_option (max (base n)) (clock (fst u) n))"
proof (induction arbitrary: t rule: log_run.induct)
  case (run_nil s)
  then show ?case by (intro exI [of _ "[]"] exI [of _ t]) (simp add: merge_nil)
next
  case (run_cons s r s' rs u)
  let ?i = "rec_sender r" and ?q = "rec_sequence r"
  have chat: "chat_record D (fst s) r" "\<forall>r\<in>set rs. chat_record D (fst s) r" using run_cons.prems(2) by simp_all
  have s': "members (snd s') = members (snd s)" "channel_keys (fst s') = channel_keys (fst s)"
      "clock (fst s') = (clock (fst s))(?i \<mapsto> ?q)"
    by (rule chat_step_effect [OF run_cons.prems(1) run_cons.hyps(1) chat(1)], simp)+
  note inv' = log_step_effect(1) [OF run_cons.prems(1) run_cons.hyps(1)]
  obtain l where l: "clock (fst s) ?i = Some l" "l < ?q"
    using log_step_effect(6) [OF run_cons.prems(1) run_cons.hyps(1)] by blast
  have later: "\<forall>p\<in>set (sent ?i rs). ?q < p"
    by (rule sent_increases [OF run_cons.hyps(2) inv']) (simp add: known_sequence_def s'(3))
  have gap: "gapless (base ?i) (known_sequence (clock (fst s)) ?i) (?q # sent ?i rs)"
    using run_cons.prems(7) by (metis sent_simps(2))
  have known: "known_sequence (clock (fst s')) n = (if n = ?i then ?q else known_sequence (clock (fst s)) n)" for n
    by (simp add: known_sequence_def s'(3))
  have count: "Suc (unat (message_count (snd t))) < 2 ^ 64" using run_cons.prems(8) by simp
  note steps = merge_next [OF D run_cons.hyps(1) run_cons.prems(1) chat(1) run_cons.prems(3-6) gap later count]
  have gaps: "\<forall>n. gapless (base n) (known_sequence (clock (fst s')) n) (sent n rs)"
  proof
    fix n
    have "gapless (base n) (known_sequence (clock (fst s)) n) (sent n (r # rs))" using run_cons.prems(7) by blast
    then show "gapless (base n) (known_sequence (clock (fst s')) n) (sent n rs)"
      using gapless_next [OF gap] l known [of n] by (cases "n = ?i") (simp_all add: known_sequence_def)
  qed
  have chat': "\<forall>r\<in>set rs. chat_record D (fst s') r" using chat(2) by (simp add: chat_record_keys [OF s'(2)])
  show ?case
  proof (cases "lacking base r")
    case False
    have "max (base ?i) ?q = base ?i" "max (base ?i) l = base ?i" using False l(2) by (auto simp: max_def)
    then have "\<forall>n. clock (fst t) n = map_option (max (base n)) (clock (fst s') n)"
      using run_cons.prems(6) l(1) by (simp add: s'(3))
    with run_cons.IH [OF inv' chat' run_cons.prems(3)] obtain zs v where
      "log_merge D cid t rs zs v" "map what zs = map what (filter (lacking base) rs)"
      "channel_keys (fst v) = channel_keys (fst u)" "members (snd v) = members (snd u)"
      "\<forall>n. clock (fst v) n = map_option (max (base n)) (clock (fst u) n)"
      using gaps run_cons.prems(4,5,8) s'(1,2) by auto
    then show ?thesis using merge_received [OF steps(1) [OF False]] False by (intro exI [of _ zs] exI [of _ v]) simp
  next
    case True
    from steps(2) [OF True] obtain z t' where z: "log_step D cid t z t'" "what z = what r" "machine_inv D t'"
      "channel_keys (fst t') = channel_keys (fst t)" "members (snd t') = members (snd t)"
      "unat (message_count (snd t')) = Suc (unat (message_count (snd t)))"
      "clock (fst t') = (clock (fst t))(?i \<mapsto> ?q)" by blast
    have "\<forall>n. clock (fst t') n = map_option (max (base n)) (clock (fst s') n)"
      using run_cons.prems(6) True by (simp add: s'(3) z(7) max_absorb2)
    with run_cons.IH [OF inv' chat' z(3)] obtain zs v where
      "log_merge D cid t' rs zs v" "map what zs = map what (filter (lacking base) rs)"
      "channel_keys (fst v) = channel_keys (fst u)" "members (snd v) = members (snd u)"
      "\<forall>n. clock (fst v) n = map_option (max (base n)) (clock (fst u) n)"
      using gaps run_cons.prems(4,5,8) s'(1,2) z(4-6) by auto
    then show ?thesis using merge_taken [OF z(1), of r] z(2) True by (intro exI [of _ "z # zs"] exI [of _ v]) simp
  qed
qed

end
