(* ===== verification/Converging.thy ===== *)
theory Converging
  imports Merging "HOL-Library.Sublist" "HOL-Library.Multiset"
begin

text \<open>
  Convergence: two devices whose logs have a common part, after which each of them has stored chat messages
  that the other lacks. One round of synchronisation brings a device everything that it lacks; a round in
  the other direction makes the two devices agree.
\<close>

subsection \<open>Runs of chat messages\<close>

lemma chat_record_back:
  "log_run D cid s rs t \<Longrightarrow> machine_inv D s \<Longrightarrow> \<forall>r\<in>set rs. chat_record D (fst t) r \<Longrightarrow>
    \<forall>r\<in>set rs. chat_record D (fst s) r"
proof (induction rule: log_run.induct)
  case (run_cons s r s' rs u)
  note e = log_step_effect [OF run_cons.prems(1) run_cons.hyps(1)]
  have "state_le (fst s) (fst u)" using log_run_effect [OF run_cons.hyps(2) e(1)] e(2) state_le_trans by blast
  then have le: "channel_keys (fst s) \<subseteq>\<^sub>m channel_keys (fst u)" by (simp add: state_le_def)
  obtain env key where env: "from_bytes (d_envelopes D) (rec_data r) = Ok env" "channel_keys (fst s) (env_from env) = Some key"
    using run_cons.hyps(1) unfolding log_step_def by blast
  have "channel_keys (fst u) (env_from env) = Some key" using le env(2) by (auto simp: map_le_def dom_def)
  moreover have "chat_record D (fst u) r" using run_cons.prems(2) by simp
  ultimately obtain m body where "\<forall>c. open_envelope (d_crypto D) c key env = Ok m" "msg_data m = ChatMessage body"
    unfolding chat_record_def env(1) by fastforce
  then have chat: "chat_record D (fst s) r" unfolding chat_record_def using env by blast
  have keys: "channel_keys (fst s') = channel_keys (fst s)"
    by (rule chat_step_effect [OF run_cons.prems(1) run_cons.hyps(1) chat], simp)
  show ?case using run_cons.IH [OF e(1)] run_cons.prems(2) chat by (simp add: chat_record_keys [OF keys])
qed simp

lemma chat_run_effect:
  "log_run D cid s rs t \<Longrightarrow> machine_inv D s \<Longrightarrow> \<forall>r\<in>set rs. chat_record D (fst s) r \<Longrightarrow>
    channel_keys (fst t) = channel_keys (fst s) \<and> members (snd t) = members (snd s) \<and>
    (\<forall>n. known_sequence (clock (fst t)) n = last (known_sequence (clock (fst s)) n # sent n rs)) \<and>
    (\<forall>n. \<forall>q\<in>set (sent n rs). q \<le> known_sequence (clock (fst t)) n) \<and>
    (\<forall>n. sorted_wrt (<) (known_sequence (clock (fst s)) n # sent n rs))"
proof (induction rule: log_run.induct)
  case (run_cons s r s' rs u)
  have chat: "chat_record D (fst s) r" "\<forall>r\<in>set rs. chat_record D (fst s) r" using run_cons.prems(2) by simp_all
  have s': "members (snd s') = members (snd s)" "channel_keys (fst s') = channel_keys (fst s)"
      "clock (fst s') = (clock (fst s))(rec_sender r \<mapsto> rec_sequence r)"
    by (rule chat_step_effect [OF run_cons.prems(1) run_cons.hyps(1) chat(1)], simp)+
  note inv' = log_step_effect(1) [OF run_cons.prems(1) run_cons.hyps(1)]
  obtain l where l: "clock (fst s) (rec_sender r) = Some l" "l < rec_sequence r"
    using log_step_effect(6) [OF run_cons.prems(1) run_cons.hyps(1)] by blast
  have "\<forall>r\<in>set rs. chat_record D (fst s') r" using chat(2) by (simp add: chat_record_keys [OF s'(2)])
  from run_cons.IH [OF inv' this] have ih: "channel_keys (fst u) = channel_keys (fst s)" "members (snd u) = members (snd s)"
      "\<And>n. known_sequence (clock (fst u)) n = last (known_sequence (clock (fst s')) n # sent n rs)"
      "\<And>n. \<forall>q\<in>set (sent n rs). q \<le> known_sequence (clock (fst u)) n"
      "\<And>n. sorted_wrt (<) (known_sequence (clock (fst s')) n # sent n rs)"
    unfolding s'(1,2) by blast+
  have "state_le (fst s') (fst u)" using log_run_effect [OF run_cons.hyps(2) inv'] by simp
  then have "known_sequence (clock (fst s')) n \<le> known_sequence (clock (fst u)) n" for n
    by (intro known_sequence_mono) (simp add: state_le_def)
  from this [of "rec_sender r"] have "rec_sequence r \<le> known_sequence (clock (fst u)) (rec_sender r)"
    by (simp add: known_sequence_def s'(3))
  then have "\<forall>q\<in>set (sent n (r # rs)). q \<le> known_sequence (clock (fst u)) n" for n using ih(4) [of n] by auto
  moreover have "known_sequence (clock (fst u)) n = last (known_sequence (clock (fst s)) n # sent n (r # rs))" for n
    unfolding ih(3) by (simp add: known_sequence_def s'(3))
  moreover have "sorted_wrt (<) (known_sequence (clock (fst s)) n # sent n (r # rs))" for n
    using ih(5) [of n] l by (auto simp: known_sequence_def s'(3))
  ultimately show ?case using ih(1,2) by blast
qed simp

lemma chat_run_known:
  assumes "log_run D cid s rs t" "machine_inv D s" "\<forall>r\<in>set rs. chat_record D (fst s) r"
  shows "q \<in> set (sent n rs) \<Longrightarrow> q \<le> known_sequence (clock (fst t)) n"
  using chat_run_effect [OF assms] by blast

lemma chat_run_chat:
  "log_run D cid s rs t \<Longrightarrow> machine_inv D s \<Longrightarrow> \<forall>r\<in>set rs. chat_record D (fst s) r \<Longrightarrow>
    (\<exists>n. snd t = (snd s)\<lparr>chat_message_count := n\<rparr>) \<and>
    unat (message_count (snd t)) = unat (message_count (snd s)) + length rs"
proof (induction rule: log_run.induct)
  case (run_nil s)
  have "snd s = (snd s)\<lparr>chat_message_count := chat_message_count (snd s)\<rparr>" by simp
  then show ?case by (intro conjI exI [of _ "chat_message_count (snd s)"]) simp_all
next
  case (run_cons s r s' rs u)
  have chat: "chat_record D (fst s) r" "\<forall>r\<in>set rs. chat_record D (fst s) r" using run_cons.prems(2) by simp_all
  obtain n where s': "channel_keys (fst s') = channel_keys (fst s)" "snd s' = (snd s)\<lparr>chat_message_count := n\<rparr>"
      "unat (message_count (snd s')) = Suc (unat (message_count (snd s)))"
    by (rule chat_step_effect [OF run_cons.prems(1) run_cons.hyps(1) chat(1)]) blast
  have "\<forall>r\<in>set rs. chat_record D (fst s') r" using chat(2) by (simp add: chat_record_keys [OF s'(1)])
  note ih = run_cons.IH [OF log_step_effect(1) [OF run_cons.prems(1) run_cons.hyps(1)] this]
  obtain k where "snd u = (snd s')\<lparr>chat_message_count := k\<rparr>" using ih by blast
  then have "snd u = (snd s)\<lparr>chat_message_count := k\<rparr>" by (simp add: s'(2))
  moreover have "unat (message_count (snd u)) = unat (message_count (snd s)) + length (r # rs)" using ih s'(3) by simp
  ultimately show ?case by blast
qed

text \<open>What the records of a run say of themselves.\<close>

lemma run_records:
  "log_run D cid s rs t \<Longrightarrow> machine_inv D s \<Longrightarrow> r \<in> set rs \<Longrightarrow>
    rec_sequence r \<le> rec_max_sequence r \<and>
    (\<exists>env key m. from_bytes (d_envelopes D) (rec_data r) = Ok env \<and> channel_keys (fst t) (env_from env) = Some key \<and>
       (\<forall>c. open_envelope (d_crypto D) c key env = Ok m) \<and> msg_sequence m = rec_sequence r)"
proof (induction rule: log_run.induct)
  case (run_cons s q s' rs u)
  note e = log_step_effect [OF run_cons.prems(1) run_cons.hyps(1)]
  show ?case
  proof (cases "r = q")
    case True
    have "state_le (fst s) (fst u)" using log_run_effect [OF run_cons.hyps(2) e(1)] e(2) state_le_trans by blast
    then have le: "channel_keys (fst s) \<subseteq>\<^sub>m channel_keys (fst u)" by (simp add: state_le_def)
    obtain env key m where env: "from_bytes (d_envelopes D) (rec_data q) = Ok env" "channel_keys (fst s) (env_from env) = Some key"
        "\<forall>c. open_envelope (d_crypto D) c key env = Ok m" "msg_sequence m = rec_sequence q"
      using run_cons.hyps(1) unfolding log_step_def by metis
    moreover have "channel_keys (fst u) (env_from env) = Some key" using le env(2) by (auto simp: map_le_def dom_def)
    ultimately show ?thesis using e(5) True by blast
  qed (use run_cons.IH [OF e(1)] run_cons.prems(2) in simp)
qed simp

subsection \<open>What is served\<close>

inductive_cases log_merge_ConsE: "log_merge D cid s (r # rs) zs t"

lemma received_no_step:
  assumes inv: "machine_inv D s" and known: "received_in D (fst s) r" and data: "rec_data z = rec_data r"
  shows "\<not> log_step D cid s z t"
proof
  assume step: "log_step D cid s z t"
  obtain env key m l where r: "from_bytes (d_envelopes D) (rec_data r) = Ok env" "channel_keys (fst s) (env_from env) = Some key"
      "\<forall>c. open_envelope (d_crypto D) c key env = Ok m" "clock (fst s) (env_from env) = Some l" "msg_sequence m \<le> l"
    using known unfolding received_in_def by blast
  obtain env' key' m' where z: "from_bytes (d_envelopes D) (rec_data z) = Ok env'" "channel_keys (fst s) (env_from env') = Some key'"
      "\<forall>c. open_envelope (d_crypto D) c key' env' = Ok m'" "acceptable (clock (fst s)) (env_from env') m'"
    using step unfolding log_step_def by blast
  have env: "env' = env" using z(1) r(1) data by simp
  then have "m' = m" using z(2,3) r(2,3) by simp
  then show False using z(4) r(4,5) env by (auto simp: acceptable_def)
qed

lemma log_merge_skip:
  "log_merge D cid s (ps @ rs) zs t \<Longrightarrow> machine_inv D s \<Longrightarrow> \<forall>r\<in>set ps. received_in D (fst s) r \<Longrightarrow> log_merge D cid s rs zs t"
proof (induction ps)
  case (Cons p ps)
  have "received_in D (fst s) p" using Cons.prems(3) by simp
  from received_no_step [OF Cons.prems(2) this] have "\<not> log_step D cid s z u" if "rec_data z = rec_data p" for z u
    using that by blast
  with Cons.prems(1) have "log_merge D cid s (ps @ rs) zs t" unfolding append_Cons by (elim log_merge_ConsE) blast+
  then show ?case using Cons.IH Cons.prems(2,3) by simp
qed simp

lemma log_merge_received:
  "\<forall>r\<in>set ps. received_in D (fst s) r \<Longrightarrow> log_merge D cid s rs zs t \<Longrightarrow> log_merge D cid s (ps @ rs) zs t"
  by (induction ps) (simp_all add: merge_received)

subsection \<open>The messages of a node\<close>

text \<open>\<open>messages_of n rs\<close>: what node \<open>n\<close> sent, in the order of the log.\<close>

definition messages_of :: "node_id \<Rightarrow> stored list \<Rightarrow> (node_id \<times> u64 \<times> u8 list) list" where
  "messages_of n rs = filter (\<lambda>w. fst w = n) (map what rs)"

lemma messages_of_append [simp]: "messages_of n (rs @ qs) = messages_of n rs @ messages_of n qs"
  by (simp add: messages_of_def)

lemma messages_of_same: "map what rs = map what qs \<Longrightarrow> messages_of n rs = messages_of n qs"
  by (simp add: messages_of_def)

lemma sent_messages: "sent n rs = map (\<lambda>w. fst (snd w)) (messages_of n rs)"
  by (induction rs) (simp_all add: messages_of_def)

lemma messages_of_lacking:
  "messages_of n (filter (lacking base) rs) = filter (\<lambda>w. base n < fst (snd w)) (messages_of n rs)"
  by (induction rs) (auto simp: messages_of_def)

text \<open>Of two devices that have heard of a node, one has heard the other's messages and then some more.\<close>

abbreviation agree :: "stored list \<Rightarrow> stored list \<Rightarrow> bool" where
  "agree xs ys \<equiv> (\<forall>n. prefix (messages_of n xs) (messages_of n ys) \<or> prefix (messages_of n ys) (messages_of n xs))"

lemma agree_gapless:
  assumes agree: "agree xs ys" and base: "base = last (k # sent n ys)" "\<forall>q\<in>set (sent n ys). q \<le> base"
  shows "gapless base k (sent n xs)"
proof (cases "sent n ys = []")
  case False
  then have top: "base \<in> set (sent n ys)" using base(1) by simp
  have "prefix (sent n xs) (sent n ys) \<or> prefix (sent n ys) (sent n xs)"
    using agree unfolding sent_messages by (meson map_mono_prefix)
  then show ?thesis using top base(2) set_mono_prefix by (fastforce simp: gapless_def)
qed (use base(1) in \<open>simp add: gapless_def\<close>)

lemma filter_beyond:
  fixes f :: "'a \<Rightarrow> u64"
  assumes "sorted_wrt (<) (k # map f (us @ ws))"
  shows "filter (\<lambda>w. last (k # map f us) < f w) us = []" "filter (\<lambda>w. last (k # map f us) < f w) ws = ws"
proof -
  have "f u \<le> last (k # map f us)" if "u \<in> set us" for u
  proof -
    have "sorted_wrt (<) (map f us)" using assms by (simp add: sorted_wrt_append)
    then show ?thesis using that by (cases us rule: rev_cases) (auto simp: sorted_wrt_append)
  qed
  then show "filter (\<lambda>w. last (k # map f us) < f w) us = []" by (auto simp: filter_empty_conv not_less)
  have "last (k # map f us) < f w" if "w \<in> set ws" for w
    using assms that by (cases us rule: rev_cases) (auto simp: sorted_wrt_append)
  then show "filter (\<lambda>w. last (k # map f us) < f w) ws = ws" by simp
qed

text \<open>With what it lacked, a device has every node's messages as far as either of the two had them.\<close>

lemma agree_merged:
  assumes agree: "agree xs ys" and zs: "map what zs = map what (filter (lacking base) xs)"
    and base: "base n = last (k # sent n ys)"
    and sorted: "sorted_wrt (<) (k # sent n xs)" "sorted_wrt (<) (k # sent n ys)"
  shows "messages_of n (ys @ zs)
    = (if prefix (messages_of n ys) (messages_of n xs) then messages_of n xs else messages_of n ys)"
proof -
  let ?f = "\<lambda>w :: node_id \<times> u64 \<times> u8 list. fst (snd w)"
  have zs': "messages_of n zs = filter (\<lambda>w. last (k # map ?f (messages_of n ys)) < ?f w) (messages_of n xs)"
    unfolding messages_of_same [OF zs] messages_of_lacking base sent_messages ..
  show ?thesis
  proof (cases "prefix (messages_of n ys) (messages_of n xs)")
    case True
    then obtain ws where ws: "messages_of n xs = messages_of n ys @ ws" by (rule prefixE)
    have "sorted_wrt (<) (k # map ?f (messages_of n ys @ ws))" using sorted(1) unfolding sent_messages ws .
    from filter_beyond [OF this] show ?thesis using True zs' by (simp add: ws)
  next
    case False
    then obtain ws where ws: "messages_of n ys = messages_of n xs @ ws" using agree by (metis prefixE)
    have "sorted_wrt (<) (k # map ?f (messages_of n ys @ []))" using sorted(2) unfolding sent_messages by simp
    from filter_beyond(1) [OF this] have "messages_of n zs = []" unfolding zs' ws by (simp add: filter_empty_conv)
    then show ?thesis using False by simp
  qed
qed

text \<open>The same messages of every node are the same messages.\<close>

lemma messages_same:
  assumes "\<And>n. messages_of n xs = messages_of n ys"
  shows "mset (map what xs) = mset (map what ys)" "length xs = length ys"
proof -
  have "count (mset (map what rs)) w = count (mset (messages_of (fst w) rs)) w" for rs w
    by (simp add: messages_of_def flip: mset_map)
  then show same: "mset (map what xs) = mset (map what ys)" by (intro multiset_eqI) (simp only: assms)
  show "length xs = length ys" using mset_eq_length [OF same] by simp
qed

subsection \<open>Diverged devices\<close>

text \<open>
  \<open>diverged D ch rssa peer rssb cs xs ys\<close>: after the common part \<open>cs\<close>, the logs of the two devices go on with
  \<open>xs\<close> and \<open>ys\<close>, chat messages of nodes that each device knows, and of every node one device has heard the
  other's messages and then some more.
\<close>

definition diverged ::
  "('c, 's, 'p, 'i) deps \<Rightarrow> ('p, 'i) channel \<Rightarrow> stored list list \<Rightarrow> ('p, 'i) channel \<Rightarrow> stored list list \<Rightarrow>
     stored list \<Rightarrow> stored list \<Rightarrow> stored list \<Rightarrow> bool" where
  "diverged D ch rssa peer rssb cs xs ys \<longleftrightarrow>
     concat rssa = cs @ xs \<and> concat rssb = cs @ ys \<and> agree xs ys \<and>
     (\<forall>r\<in>set xs. chat_record D (ch_state ch) r) \<and> (\<forall>r\<in>set ys. chat_record D (ch_state peer) r)"

lemma diverged_sym: "diverged D ch rssa peer rssb cs xs ys \<Longrightarrow> diverged D peer rssb ch rssa cs ys xs"
  unfolding diverged_def by blast

lemma diverged_runs:
  assumes a: "replica D holds key cid ch rssa" and b: "replica D holds key cid peer rssb"
    and div: "diverged D ch rssa peer rssb cs xs ys"
  obtains s where "machine_inv D s" "log_run D cid s xs (ch_state ch, ch_chat ch)" "log_run D cid s ys (ch_state peer, ch_chat peer)"
    "\<forall>r\<in>set xs. chat_record D (fst s) r" "\<forall>r\<in>set ys. chat_record D (fst s) r"
proof -
  obtain s where s: "log_run D cid (machine_start D key cid) cs s" "log_run D cid s xs (ch_state ch, ch_chat ch)"
    using replica_run(3) [OF a] div by (auto simp: diverged_def log_run_append)
  obtain s' where s': "log_run D cid (machine_start D key cid) cs s'" "log_run D cid s' ys (ch_state peer, ch_chat peer)"
    using replica_run(3) [OF b] div by (auto simp: diverged_def log_run_append)
  have same: "s' = s" using log_run_determined [OF s(1) s'(1)] by simp
  have inv: "machine_inv D s" using log_run_effect [OF s(1) replica_run(1) [OF a]] by simp
  have "\<forall>r\<in>set xs. chat_record D (fst s) r" "\<forall>r\<in>set ys. chat_record D (fst s) r"
    using chat_record_back [OF s(2) inv] chat_record_back [OF s'(2) [unfolded same] inv] div by (simp_all add: diverged_def)
  then show thesis using that [OF inv s(2) s'(2) [unfolded same]] by blast
qed

lemma diverged_keys:
  assumes "replica D holds key cid ch rssa" "replica D holds key cid peer rssb" "diverged D ch rssa peer rssb cs xs ys"
  shows "channel_keys (ch_state peer) = channel_keys (ch_state ch)" "members (ch_chat peer) = members (ch_chat ch)"
proof -
  obtain s where s: "machine_inv D s" "log_run D cid s xs (ch_state ch, ch_chat ch)" "log_run D cid s ys (ch_state peer, ch_chat peer)"
    "\<forall>r\<in>set xs. chat_record D (fst s) r" "\<forall>r\<in>set ys. chat_record D (fst s) r"
    by (rule diverged_runs [OF assms])
  show "channel_keys (ch_state peer) = channel_keys (ch_state ch)" "members (ch_chat peer) = members (ch_chat ch)"
    using chat_run_effect [OF s(2,1,4)] chat_run_effect [OF s(3,1,5)] by simp_all
qed

lemma diverged_knows:
  assumes "replica D holds key cid ch rssa" "replica D holds key cid peer rssb" "diverged D ch rssa peer rssb cs xs ys"
  shows "\<forall>r\<in>set xs. \<not> lacking (known_sequence (clock (ch_state ch))) r"
proof -
  obtain s where s: "machine_inv D s" "log_run D cid s xs (ch_state ch, ch_chat ch)" "\<forall>r\<in>set xs. chat_record D (fst s) r"
    by (rule diverged_runs [OF assms])
  show ?thesis using chat_run_known [OF s(2,1,3)] by (auto simp: sent_def not_less)
qed

text \<open>Devices with the same messages of every node agree in all that the log determines but its order.\<close>

lemma diverged_agree:
  assumes ok: "replica D holds key cid ch rssa" "replica D holds key cid peer rssb" "diverged D ch rssa peer rssb cs xs ys"
    and same: "\<And>n. messages_of n xs = messages_of n ys"
  shows "clock (ch_state peer) = clock (ch_state ch)" "channel_keys (ch_state peer) = channel_keys (ch_state ch)"
    "ch_chat peer = ch_chat ch"
proof -
  obtain s where s: "machine_inv D s" "log_run D cid s xs (ch_state ch, ch_chat ch)" "log_run D cid s ys (ch_state peer, ch_chat peer)"
    "\<forall>r\<in>set xs. chat_record D (fst s) r" "\<forall>r\<in>set ys. chat_record D (fst s) r"
    by (rule diverged_runs [OF ok])
  have sent: "sent n xs = sent n ys" for n by (simp add: sent_messages same)
  show keys: "channel_keys (ch_state peer) = channel_keys (ch_state ch)" by (rule diverged_keys(1) [OF ok])
  have known: "known_sequence (clock (ch_state peer)) n = known_sequence (clock (ch_state ch)) n" for n
    using chat_run_effect [OF s(2,1,4)] chat_run_effect [OF s(3,1,5)] unfolding fst_conv sent by simp
  show "clock (ch_state peer) = clock (ch_state ch)"
  proof
    fix n
    have "clock (ch_state peer) n = None \<longleftrightarrow> clock (ch_state ch) n = None" by (simp add: clock_None_keys keys)
    then show "clock (ch_state peer) n = clock (ch_state ch) n"
      using known [of n] by (cases "clock (ch_state peer) n"; cases "clock (ch_state ch) n") (simp_all add: known_sequence_def)
  qed
  obtain i j where ij: "ch_chat ch = (snd s)\<lparr>chat_message_count := i\<rparr>" "ch_chat peer = (snd s)\<lparr>chat_message_count := j\<rparr>"
      "unat i = unat (message_count (snd s)) + length xs" "unat j = unat (message_count (snd s)) + length ys"
    using chat_run_chat [OF s(2,1,4)] chat_run_chat [OF s(3,1,5)] by (auto simp: message_count_def)
  have "unat i = unat j" using ij(3,4) messages_same(2) [OF same] by simp
  then have "i = j" by (rule word_unat_eq_iff [THEN iffD2])
  then show "ch_chat peer = ch_chat ch" by (simp add: ij(1,2))
qed

text \<open>What a device takes from the other one's log, as a merge of the machine.\<close>

lemma diverged_merge:
  assumes D: "D = app_deps SLAB P SR SM SE SN M MC"
    and a: "replica D holds key cid ch rssa" and b: "replica D holds key cid peer rssb"
    and div: "diverged D ch rssa peer rssb cs xs ys"
    and base: "base = known_sequence (clock (ch_state peer))"
    and count: "unat (message_count (ch_chat peer)) + length xs < 2 ^ 64"
  obtains zs v where "log_merge D cid (ch_state peer, ch_chat peer) xs zs v"
    "map what zs = map what (filter (lacking base) xs)" "channel_keys (fst v) = channel_keys (ch_state ch)"
    "\<forall>n. clock (fst v) n = map_option (max (base n)) (clock (ch_state ch) n)"
    "\<forall>n. messages_of n (ys @ zs)
      = (if prefix (messages_of n ys) (messages_of n xs) then messages_of n xs else messages_of n ys)"
proof -
  obtain s where s: "machine_inv D s" "log_run D cid s xs (ch_state ch, ch_chat ch)" "log_run D cid s ys (ch_state peer, ch_chat peer)"
    "\<forall>r\<in>set xs. chat_record D (fst s) r" "\<forall>r\<in>set ys. chat_record D (fst s) r"
    by (rule diverged_runs [OF a b div])
  let ?k = "known_sequence (clock (fst s))"
  note ex = chat_run_effect [OF s(2,1,4)] and ey = chat_run_effect [OF s(3,1,5)]
  have agree: "agree xs ys" using div by (simp add: diverged_def)
  have last: "base n = last (?k n # sent n ys)" "\<forall>q\<in>set (sent n ys). q \<le> base n" for n
    unfolding base using ey chat_run_known [OF s(3,1,5)] by (simp_all only: fst_conv) blast
  have clk: "clock (ch_state peer) n = map_option (max (base n)) (clock (fst s) n)" for n
  proof (cases "clock (fst s) n")
    case None
    then have "clock (ch_state peer) n = None" unfolding clock_None_keys using ey by (simp only: fst_conv)
    then show ?thesis by (simp add: None)
  next
    case (Some c)
    have "state_le (fst s) (ch_state peer)" using log_run_effect [OF s(3,1)] by simp
    then obtain q where "clock (ch_state peer) n = Some q" "c \<le> q" using Some by (auto simp: state_le_def)
    then show ?thesis by (simp add: Some base known_sequence_def)
  qed
  let ?t = "(ch_state peer, ch_chat peer)"
  have gaps: "\<forall>n. gapless (base n) (?k n) (sent n xs)" using agree_gapless [OF agree last] by blast
  have t: "channel_keys (fst ?t) = channel_keys (fst s)" "members (snd ?t) = members (snd s)"
      "\<forall>n. clock (fst ?t) n = map_option (max (base n)) (clock (fst s) n)"
      "unat (message_count (snd ?t)) + length xs < 2 ^ 64"
    using ey clk count by simp_all
  obtain zs v where zs: "log_merge D cid ?t xs zs v" "map what zs = map what (filter (lacking base) xs)"
      "channel_keys (fst v) = channel_keys (ch_state ch)"
      "\<forall>n. clock (fst v) n = map_option (max (base n)) (clock (ch_state ch) n)"
    using run_merges [OF D s(2,1,4) replica_run(2) [OF b] t(1-3) gaps t(4)] unfolding fst_conv by blast
  have "messages_of n (ys @ zs)
      = (if prefix (messages_of n ys) (messages_of n xs) then messages_of n xs else messages_of n ys)" for n
    by (rule agree_merged [where k = "?k n", OF agree zs(2) last(1)]) (use ex ey in blast)+
  then show thesis using that zs by blast
qed

text \<open>
  \<open>synced D cid a b request0 buffer b'\<close>: device \<open>b\<close> asks, device \<open>a\<close> answers with what fits into its buffer, \<open>b\<close>
  reads the buffer without an error and is \<open>b'\<close> afterwards.
\<close>

definition synced ::
  "('c, 's, 'p, 'i) deps \<Rightarrow> channel_id \<Rightarrow> ('c, 's, 'p, 'i) client \<Rightarrow> ('c, 's, 'p, 'i) client \<Rightarrow> sync_request \<Rightarrow> u8 list \<Rightarrow>
     ('c, 's, 'p, 'i) client \<Rightarrow> bool" where
  "synced D cid a b request0 buffer b' \<longleftrightarrow>
     (\<exists>request state count n buffer'.
        finish_sync_request D b cid request0 = (Ok (), request) \<and>
        start_sync_response D a cid (sync_responder_new request) request = (Ok (), state) \<and>
        fill_send_buffer D a cid state buffer = (Ok (count, n), buffer') \<and>
        receive_buffer D b cid (take n buffer') count = (Ok (), b'))"

text \<open>The records that it takes are records of the log that it is served, but for their place in its own log.\<close>

lemma merged_records:
  assumes "map what zs = map what (filter Q xs)"
  shows "map rec_data zs = map rec_data (filter Q xs)" "z \<in> set zs \<Longrightarrow> rec_data z \<in> rec_data ` set xs"
    "length zs = length (filter Q xs)" "length zs \<le> length xs" "z \<in> set zs \<Longrightarrow> what z \<in> what ` set xs"
proof -
  show data: "map rec_data zs = map rec_data (filter Q xs)"
    using arg_cong [OF assms, of "map (\<lambda>w. snd (snd w))"] by (simp add: comp_def)
  show "z \<in> set zs \<Longrightarrow> rec_data z \<in> rec_data ` set xs" using arg_cong [OF data, of set] by auto
  show len: "length zs = length (filter Q xs)" using arg_cong [OF assms, of length] by simp
  then show "length zs \<le> length xs" by simp
  show "z \<in> set zs \<Longrightarrow> what z \<in> what ` set xs" using arg_cong [OF assms, of set] by auto
qed

lemma length_packed_filter: "length (packed (map rec_data (filter Q rs))) \<le> length (packed (map rec_data rs))"
  by (induction rs) auto

text \<open>What is served is as good as the messages behind the common part: all that is left out is received.\<close>

lemma served_merge:
  assumes a: "replica D holds key cid ch rssa" and b: "replica D holds key cid peer rssb"
    and div: "diverged D ch rssa peer rssb cs xs ys"
    and merge: "log_merge D cid (ch_state peer, ch_chat peer) xs zs v"
    and start: "\<forall>n s. clock (ch_state peer) n = Some s \<longrightarrow> start \<le> s" and Q: "Q = (\<lambda>r. \<not> start \<le> rec_max_sequence r)"
  shows "log_merge D cid (ch_state peer, ch_chat peer) (dropWhile Q (concat rssa)) zs v"
proof -
  have logs: "concat rssa = cs @ xs" "concat rssb = cs @ ys" using div by (simp_all add: diverged_def)
  have dropped: "received_in D (ch_state peer) r" if r: "r \<in> set (takeWhile Q (concat rssa))" for r
  proof -
    have r': "r \<in> set (concat rssa)" "rec_max_sequence r < start" using set_takeWhileD [OF r] by (simp_all add: Q not_le)
    obtain env k m where m: "rec_sequence r \<le> rec_max_sequence r" "from_bytes (d_envelopes D) (rec_data r) = Ok env"
        "channel_keys (ch_state ch) (env_from env) = Some k" "\<forall>c. open_envelope (d_crypto D) c k env = Ok m"
        "msg_sequence m = rec_sequence r"
      using run_records [OF replica_run(3) [OF a] replica_run(1) [OF a] r'(1)] by auto
    then have known: "channel_keys (ch_state peer) (env_from env) = Some k" by (simp add: diverged_keys(1) [OF a b div])
    then obtain l where l: "clock (ch_state peer) (env_from env) = Some l" using clock_of_key by fastforce
    then have "start \<le> l" using start by blast
    then have "msg_sequence m \<le> l" using m(1,5) r'(2) by simp
    then show ?thesis unfolding received_in_def using m(2,4) known l by blast
  qed
  have "log_merge D cid (ch_state peer, ch_chat peer) (concat rssa) zs v"
    unfolding logs(1) by (rule log_merge_received [OF _ merge]) (use replica_run(4) [OF b] logs(2) in simp)
  then have "log_merge D cid (ch_state peer, ch_chat peer) (takeWhile Q (concat rssa) @ dropWhile Q (concat rssa)) zs v"
    by (simp only: takeWhile_dropWhile_id)
  then show ?thesis by (rule log_merge_skip [OF _ replica_run(2) [OF b]]) (use dropped in simp)
qed

text \<open>Two devices that have diverged are so still when one of them has taken messages of the other.\<close>

lemma diverged_extend:
  assumes div: "diverged D ch rssa peer rssb cs xs ys"
    and keys: "channel_keys (ch_state peer) = channel_keys (ch_state ch)" "channel_keys (ch_state peer') = channel_keys (ch_state ch)"
    and taken: "map what zs = map what (filter Q xs)" and agree: "agree xs (ys @ zs)"
  shows "diverged D ch rssa peer' (rssb @ map (\<lambda>r. [r]) zs) cs xs (ys @ zs)"
proof -
  have known: "chat_record D (ch_state peer') r = chat_record D (ch_state ch) r"
      "chat_record D (ch_state peer) r = chat_record D (ch_state ch) r" for r by (rule chat_record_keys [OF keys(2)], rule chat_record_keys [OF keys(1)])
  have "chat_record D (ch_state ch) z" if z: "z \<in> set zs" for z
  proof -
    obtain x where "x \<in> set xs" "rec_data z = rec_data x" using merged_records(2) [OF taken z] by auto
    moreover from this div have "chat_record D (ch_state ch) x" by (simp add: diverged_def)
    ultimately show ?thesis by (simp add: chat_record_def)
  qed
  then show ?thesis using div agree by (auto simp: diverged_def known)
qed

text \<open>One round of synchronisation with a device that has diverged.\<close>

lemma merge_round:
  assumes D: "D = app_deps SLAB P SR SM SE SN M MC"
    and a: "map_of (cl_channels a) cid = Some ch" "replica D (mem_holds SLAB SR enc) key cid ch rssa"
    and b: "map_of (cl_channels b) cid = Some peer" "replica D (mem_holds SLAB SR enc) key cid peer rssb"
    and div: "diverged D ch rssa peer rssb cs xs ys" "cs \<noteq> []"
    and base: "base = known_sequence (clock (ch_state peer))"
    and reach: "clock (ch_state peer) i = Some q" "clock (ch_state ch) i = Some p" "q \<le> p"
    and count: "unat (message_count (ch_chat peer)) + length xs < 2 ^ 64"
    and room: "length rssb + length (filter (lacking base) xs) \<le> max_index (storage_io (ch_storage peer))"
      "\<forall>z. rec_data z \<in> rec_data ` set xs \<longrightarrow> INITIAL_OFFSET + 4 + length (enc z) \<le> SLAB"
    and buffer: "length (packed (map rec_data (concat rssa))) \<le> length buffer" "length buffer < usize_limit"
  obtains peer' zs where "synced D cid a b request0 buffer (put_channel cid peer' b)"
    "replica D (mem_holds SLAB SR enc) key cid peer' (rssb @ map (\<lambda>r. [r]) zs)"
    "map what zs = map what (filter (lacking base) xs)"
    "\<forall>n. clock (ch_state peer') n = map_option (max (base n)) (clock (ch_state ch) n)"
    "max_index (storage_io (ch_storage peer')) = max_index (storage_io (ch_storage peer))"
    "diverged D ch rssa peer' (rssb @ map (\<lambda>r. [r]) zs) cs xs (ys @ zs)"
    "\<forall>n. messages_of n (ys @ zs)
      = (if prefix (messages_of n ys) (messages_of n xs) then messages_of n xs else messages_of n ys)"
proof -
  have agree: "agree xs ys" and ne: "rssa \<noteq> []" using div by (auto simp: diverged_def)
  note keys = diverged_keys(1) [OF a(2) b(2) div(1)]
  have same: "clock (ch_state peer) m = None \<longleftrightarrow> clock (ch_state ch) m = None" for m by (simp add: clock_None_keys keys)
  obtain zs v where zs: "log_merge D cid (ch_state peer, ch_chat peer) xs zs v" "map what zs = map what (filter (lacking base) xs)"
      "channel_keys (fst v) = channel_keys (ch_state ch)"
      "\<forall>n. clock (fst v) n = map_option (max (base n)) (clock (ch_state ch) n)"
      "\<forall>n. messages_of n (ys @ zs)
        = (if prefix (messages_of n ys) (messages_of n xs) then messages_of n xs else messages_of n ys)"
    by (rule diverged_merge [OF D a(2) b(2) div(1) base count])
  have small: "\<forall>r\<in>set (concat rssa). length (rec_data r) + LEN_SIZE < usize_limit"
    by (rule packed_short) (use buffer in simp)
  have dom: "dom (clock (ch_state peer)) \<subseteq> dom (clock (ch_state ch))"
    using same by (simp add: dom_def del: not_None_eq)
  have current: "q \<le> current_sequence (ch_state ch)"
    using clock_le_current [OF replica_inv [OF a(2)] reach(2)] reach(3) by simp
  obtain request state start ds n buffer' where round:
      "finish_sync_request D b cid request0 = (Ok (), request)"
      "start_sync_response D a cid (sync_responder_new request) request = (Ok (), state)"
      "\<forall>n s. clock (ch_state peer) n = Some s \<longrightarrow> start \<le> s"
      "ds = fitting (length buffer) (map rec_data (dropWhile (\<lambda>r. \<not> start \<le> rec_max_sequence r) (concat rssa)))"
      "fill_send_buffer D a cid state buffer = (Ok (of_nat (length ds), n), buffer')"
      "receive_buffer D b cid (take n buffer') (of_nat (length ds)) = receive_each D b cid ds"
    by (rule sync_round [OF D a ne b(1) replica_inv [OF b(2)] dom reach(1) current small buffer(2)])
  let ?Q = "\<lambda>r. \<not> start \<le> rec_max_sequence r"
  have ds: "ds = map rec_data (dropWhile ?Q (concat rssa))"
    using buffer(1) length_packed_drop [of ?Q "concat rssa"] unfolding round(4) by (subst fitting_all) simp_all
  note taken = served_merge [OF a(2) b(2) div(1) zs(1) round(3) refl]
  note within = merged_records(2) [OF zs(2)] and len = merged_records(3) [OF zs(2)]
  have room': "length rssb + length zs \<le> max_index (storage_io (ch_storage peer))"
    and fits: "\<forall>r\<in>set zs. INITIAL_OFFSET + 4 + length (enc r) \<le> SLAB" using room within len by auto
  from follow_merge [OF D taken b(1) refl b(2) room' fits] obtain peer' where peer':
      "receive_each D b cid ds = (Ok (), put_channel cid peer' b)" "(ch_state peer', ch_chat peer') = v"
      "max_index (storage_io (ch_storage peer')) = max_index (storage_io (ch_storage peer))"
      "replica D (mem_holds SLAB SR enc) key cid peer' (rssb @ map (\<lambda>r. [r]) zs)" by (auto simp: ds)
  have keys': "channel_keys (ch_state peer') = channel_keys (ch_state ch)" using zs(3) peer'(2) by auto
  have "agree xs (ys @ zs)" using zs(5) agree by auto
  note diverged_extend [OF div(1) keys keys' zs(2) this]
  moreover have "\<forall>n. clock (ch_state peer') n = map_option (max (base n)) (clock (ch_state ch) n)" using zs(4) peer'(2) by auto
  moreover have "synced D cid a b request0 buffer (put_channel cid peer' b)"
    unfolding synced_def using round(1,2,5,6) peer'(1) by metis
  ultimately show thesis using that [OF _ peer'(4) zs(2) _ peer'(3) _ zs(5)] by blast
qed

end
