(* ===== verification/Senders.thy ===== *)
theory Senders
  imports Converging Channel_Log
begin

text \<open>
  The messages of one node in the logs of several devices. A log has them as a chain, each message naming
  the one before it, so that of two logs whose messages of a node are the node's own, one has the other's
  and then some more, whatever else happened on the devices.
\<close>

subsection \<open>The chain of a node\<close>

definition opened :: "sealed_envelope serde \<Rightarrow> 'p protocol message serde \<Rightarrow> u8 list \<Rightarrow> 'p protocol message option" where
  "opened SE SM d =
     (case from_bytes SE d of
        Ok env \<Rightarrow> (case from_bytes SM (env_serialized env) of Ok m \<Rightarrow> Some m | _ \<Rightarrow> None)
      | _ \<Rightarrow> None)"

definition chain :: "sealed_envelope serde \<Rightarrow> 'p protocol message serde \<Rightarrow> node_id \<Rightarrow> stored list \<Rightarrow> 'p protocol message list" where
  "chain SE SM n rs = map (\<lambda>w. the (opened SE SM (snd (snd w)))) (messages_of n rs)"

lemma chain_simps [simp]:
  "chain SE SM n [] = []"
  "chain SE SM n (r # rs) = (if rec_sender r = n then the (opened SE SM (rec_data r)) # chain SE SM n rs else chain SE SM n rs)"
  by (simp_all add: chain_def messages_of_def)

lemma rust_open_serialized: "rust_open P SM key env = Ok m \<Longrightarrow> from_bytes SM (env_serialized env) = Ok m"
  by (auto simp: rust_open_def Let_def result_simps split: if_splits)

text \<open>A message is the next one of its sender, whatever key it was opened with.\<close>

lemma step_opened:
  assumes D: "D = app_deps SLAB P SR SM SE SN M MC" and inv: "machine_inv D s" and step: "log_step D cid s r t"
  obtains env m where "from_bytes SE (rec_data r) = Ok env" "rec_sender r = env_from env"
    "opened SE SM (rec_data r) = Some m" "rec_sequence r = msg_sequence m" "sender_last m = known_sequence (clock (fst s)) (rec_sender r)"
    "sender_last m < msg_sequence m" "msg_sequence m = known_sequence (clock (fst t)) (rec_sender r)"
    "\<forall>n. n \<noteq> rec_sender r \<longrightarrow> known_sequence (clock (fst t)) n = known_sequence (clock (fst s)) n"
proof -
  obtain env key m where env: "from_bytes (d_envelopes D) (rec_data r) = Ok env"
      "channel_keys (fst s) (env_from env) = Some key" "\<forall>c. open_envelope (d_crypto D) c key env = Ok m"
      "acceptable (clock (fst s)) (env_from env) m" "rec_sequence r = msg_sequence m" "rec_sender r = env_from env"
    and taken: "\<forall>c st. take_message D \<lparr>ch_state = fst s, ch_storage = st, ch_chat = snd s\<rparr> cid (env_from env) m
        (envelope_id_of (d_crypto D) c env)
      = (Ok (rec_max_sequence r), \<lparr>ch_state = fst t, ch_storage = st, ch_chat = snd t\<rparr>)"
    using step unfolding log_step_def by blast
  have "rust_open P SM key env = Ok m" using env(3) by (simp add: D rust_crypto_trait_def)
  then have opened: "opened SE SM (rec_data r) = Some m"
    using env(1) rust_open_serialized by (fastforce simp: opened_def D)
  let ?ch = "\<lambda>x. \<lparr>ch_state = fst x, ch_storage = undefined, ch_chat = snd x\<rparr>"
  have inv': "channel_inv (d_max_nodes D) (ch_state (?ch s))"
      "chat_inv (compute_id (d_crypto D)) (d_max_nodes D) (ch_chat (?ch s))"
    and acc: "acceptable (clock (ch_state (?ch s))) (env_from env) m"
    using inv env(4) by (simp_all add: machine_inv_def)
  from taken have "take_message D (?ch s) cid (env_from env) m (envelope_id_of (d_crypto D) undefined env)
      = (Ok (rec_max_sequence r), ?ch t)" by blast
  from take_message_cases [OF inv' acc this, simplified]
  have moves: "clock_moves (clock (fst s)) (env_from env) (msg_sequence m) (clock (fst t))" by simp
  show thesis
  proof (rule that [OF _ env(6) opened env(5)])
    show "from_bytes SE (rec_data r) = Ok env" using env(1) by (simp add: D)
    show "sender_last m = known_sequence (clock (fst s)) (rec_sender r)" "sender_last m < msg_sequence m"
      using env(4,6) by (simp_all add: acceptable_def known_sequence_def)
    show "msg_sequence m = known_sequence (clock (fst t)) (rec_sender r)"
      using moves env(6) by (simp add: clock_moves_def known_sequence_def)
    show "\<forall>n. n \<noteq> rec_sender r \<longrightarrow> known_sequence (clock (fst t)) n = known_sequence (clock (fst s)) n"
      using moves unfolding env(6) by (auto simp: clock_moves_def known_sequence_def)
  qed
qed

lemma run_chained:
  assumes D: "D = app_deps SLAB P SR SM SE SN M MC"
  shows "log_run D cid s rs t \<Longrightarrow> machine_inv D s \<Longrightarrow> chained (known_sequence (clock (fst s)) n) (chain SE SM n rs)"
proof (induction rule: log_run.induct)
  case (run_cons s r s' rs u)
  obtain env m where m: "opened SE SM (rec_data r) = Some m" "sender_last m = known_sequence (clock (fst s)) (rec_sender r)"
    "sender_last m < msg_sequence m" "msg_sequence m = known_sequence (clock (fst s')) (rec_sender r)"
    "\<forall>n. n \<noteq> rec_sender r \<longrightarrow> known_sequence (clock (fst s')) n = known_sequence (clock (fst s)) n"
    by (rule step_opened [OF D run_cons.prems run_cons.hyps(1)])
  have "chained (known_sequence (clock (fst s')) n) (chain SE SM n rs)"
    by (rule run_cons.IH [OF log_step_effect(1) [OF run_cons.prems run_cons.hyps(1)]])
  then show ?case using m by (cases "rec_sender r = n") auto
qed simp

lemma chained_distinct: "chained s ms \<Longrightarrow> distinct ms"
proof (induction ms arbitrary: s)
  case (Cons m ms)
  have "m \<notin> set ms" using chained_member(1,2) [of "msg_sequence m" ms m] Cons.prems by auto
  then show ?case using Cons by auto
qed simp

text \<open>A log whose messages of a node all occur in another log has a prefix of them.\<close>

lemma sender_prefix:
  assumes D: "D = app_deps SLAB P SR SM SE SN M MC" and inv: "machine_inv D s"
    and runs: "log_run D cid s rs t" "log_run D cid s rs' t'"
    and subset: "set (messages_of n rs') \<subseteq> set (messages_of n rs)"
  shows "prefix (messages_of n rs') (messages_of n rs)"
proof -
  let ?f = "\<lambda>w :: node_id \<times> u64 \<times> u8 list. the (opened SE SM (snd (snd w)))"
  note chains = run_chained [OF D runs(1) inv, of n] run_chained [OF D runs(2) inv, of n]
  have "set (chain SE SM n rs') \<subseteq> set (chain SE SM n rs)" using subset by (auto simp: chain_def)
  with chains have "prefix (chain SE SM n rs') (chain SE SM n rs)" by (rule chained_subset_prefix)
  then obtain ws where "chain SE SM n rs = chain SE SM n rs' @ ws" by (rule prefixE)
  then have same: "map ?f (messages_of n rs') = map ?f (take (length (messages_of n rs')) (messages_of n rs))"
    by (simp add: chain_def flip: take_map)
  have "inj_on ?f (set (messages_of n rs))"
    using chained_distinct [OF chains(1)] by (simp add: chain_def distinct_map)
  then have "inj_on ?f (set (messages_of n rs') \<union> set (take (length (messages_of n rs')) (messages_of n rs)))"
    by (rule inj_on_subset) (use subset set_take_subset in fastforce)
  with same have "messages_of n rs' = take (length (messages_of n rs')) (messages_of n rs)" by (rule map_inj_on)
  then show ?thesis by (metis take_is_prefix)
qed

subsection \<open>Genuine logs\<close>

text \<open>
  \<open>genuine D key cid logs\<close>: what the logs have from a node is what one run of the channel has from it, the log of the
  node's own device. Only that device can sign for the node.
\<close>

definition genuine :: "('c, 's, 'p, 'i) deps \<Rightarrow> 'p \<Rightarrow> channel_id \<Rightarrow> stored list set \<Rightarrow> bool" where
  "genuine D key cid logs \<longleftrightarrow>
     (\<forall>n. \<exists>own t. log_run D cid (machine_start D key cid) own t \<and>
        (\<forall>rs\<in>logs. set (messages_of n rs) \<subseteq> set (messages_of n own)))"

lemma genuine_agree:
  assumes D: "D = app_deps SLAB P SR SM SE SN M MC"
    and a: "replica D holds key cid ch rssa" and b: "replica D holds key cid peer rssb"
    and logs: "concat rssa = cs @ xs" "concat rssb = cs @ ys" "genuine D key cid {concat rssa, concat rssb}"
  shows "agree xs ys"
proof
  fix n
  obtain own t where own: "log_run D cid (machine_start D key cid) own t"
      "set (messages_of n (concat rssa)) \<subseteq> set (messages_of n own)" "set (messages_of n (concat rssb)) \<subseteq> set (messages_of n own)"
    using logs(3) unfolding genuine_def by blast
  have "prefix (messages_of n (concat rssa)) (messages_of n own)"
    by (rule sender_prefix [OF D replica_run(1) [OF a] own(1) replica_run(3) [OF a] own(2)])
  moreover have "prefix (messages_of n (concat rssb)) (messages_of n own)"
    by (rule sender_prefix [OF D replica_run(1) [OF a] own(1) replica_run(3) [OF b] own(3)])
  ultimately show "prefix (messages_of n xs) (messages_of n ys) \<or> prefix (messages_of n ys) (messages_of n xs)"
    using prefix_same_cases by (fastforce simp: logs(1,2))
qed

end
