(* ===== verification/Convergence.thy ===== *)
theory Convergence
  imports Senders
begin

text \<open>
  Two devices that have written to a channel independently agree after one round of synchronisation in each
  direction; and two such devices for the witness, which have both sent a text to the same channel.
\<close>

subsection \<open>Two devices\<close>

lemma demo_chat_record:
  assumes r: "from_bytes envelope_serde (rec_data r) = Ok env" "\<forall>c. open_envelope (d_crypto (demo_deps 2000)) c k env = Ok m"
      "msg_data m = ChatMessage t" "channel_keys (fst s) (env_from env) = Some k"
    and step: "machine_inv (demo_deps 2000) s" "log_step (demo_deps 2000) cid s r u"
  shows "rec_sender r = env_from env" "chat_record (demo_deps 2000) (fst u) r"
    "clock (fst u) = (clock (fst s))(env_from env \<mapsto> rec_sequence r)"
    "unat (message_count (snd u)) = Suc (unat (message_count (snd s)))"
proof -
  let ?D = "demo_deps 2000"
  have chat: "chat_record ?D (fst s) r" unfolding chat_record_def using r by (intro exI [of _ env] exI [of _ k] exI [of _ m] exI [of _ t]) simp
  have keys: "channel_keys (fst u) = channel_keys (fst s)" by (rule chat_step_effect [OF step chat], simp)
  show sender: "rec_sender r = env_from env" by (rule chat_step_effect [OF step chat]) (use r(1) in simp)
  show "chat_record ?D (fst u) r" using chat by (simp add: chat_record_keys [OF keys])
  show "clock (fst u) = (clock (fst s))(env_from env \<mapsto> rec_sequence r)"
    by (rule chat_step_effect [OF step chat]) (simp add: sender)
  show "unat (message_count (snd u)) = Suc (unat (message_count (snd s)))" by (rule chat_step_effect [OF step chat])
qed

lemma demo_diverged:
  obtains a ch r1 r2 r3 b peer q3 where
    "device_run (demo_deps 2000) demo_holds (demo_pair 7) 7 demo_room a" "map_of (cl_channels a) demo_room = Some ch"
    "replica (demo_deps 2000) demo_holds 7 demo_room ch [[r1], [r2], [r3]]"
    "device_run (demo_deps 2000) demo_holds (demo_pair 9) 7 demo_room b" "map_of (cl_channels b) demo_room = Some peer"
    "replica (demo_deps 2000) demo_holds 7 demo_room peer [[r1], [r2], [q3]]"
    "genuine (demo_deps 2000) 7 demo_room {[r1, r2, r3], [r1, r2, q3]}"
    "chat_record (demo_deps 2000) (ch_state ch) r3" "chat_record (demo_deps 2000) (ch_state peer) q3"
    "clock (ch_state ch) = [NodeId (Id 7) \<mapsto> 3, NodeId (Id 9) \<mapsto> 0]"
    "clock (ch_state peer) = [NodeId (Id 7) \<mapsto> 2, NodeId (Id 9) \<mapsto> 3]"
    "map (\<lambda>r. length (rec_data r)) [r1, r2, r3, q3] = [228, 196, 176, 176]"
    "message_count (ch_chat ch) = 1" "message_count (ch_chat peer) = 1"
    "max_index (storage_io (ch_storage ch)) = 4" "max_index (storage_io (ch_storage peer)) = 4"
proof -
  let ?D = "demo_deps 2000" and ?me = "NodeId (Id 7)" and ?nine = "NodeId (Id 9)"
  obtain a ch2 r1 r2 where a: "owner_run ?D demo_holds (demo_pair 7) demo_room a"
      "cl_key_pair a = demo_pair 7" "cl_node_id a = ?me" "map_of (cl_channels a) demo_room = Some ch2"
      "replica ?D demo_holds 7 demo_room ch2 [[r1], [r2]]"
      "length (rec_data r1) = 228" "length (rec_data r2) = 196" "clock (ch_state ch2) = [?me \<mapsto> 2, ?nine \<mapsto> 0]"
      "?me \<in> members (ch_chat ch2)" "?nine \<in> members (ch_chat ch2)" "channel_keys (ch_state ch2) ?nine = Some 9"
      "message_count (ch_chat ch2) = 0" "max_index (storage_io (ch_storage ch2)) = 4"
    by (rule demo_owner_adds)
  have run2: "log_run ?D demo_room (machine_start ?D 7 demo_room) [r1, r2] (ch_state ch2, ch_chat ch2)"
    using replica_run(3) [OF a(5)] by simp
  obtain b peer2 where b: "map_of (cl_channels b) demo_room = Some peer2" "(ch_state peer2, ch_chat peer2) = (ch_state ch2, ch_chat ch2)"
      "replica ?D demo_holds 7 demo_room peer2 (map (\<lambda>r. [r]) [r1, r2])" "max_index (storage_io (ch_storage peer2)) = 4"
      "member_run ?D demo_holds (demo_pair 9) 7 demo_room b" "cl_key_pair b = demo_pair 9" "cl_node_id b = ?nine"
    by (rule demo_member_follows [OF run2]) (use a(6,7) in simp_all)
  have peer2: "ch_state peer2 = ch_state ch2" "ch_chat peer2 = ch_chat ch2" using b(2) by simp_all
  have own: "channel_keys (ch_state ch2) ?me = Some 7" using replica_owner_key [OF a(5)] demo_compute_id [of 2000 7] by simp
  obtain ch3 r3 e3 m3 where r3: "do_send ?D a demo_room (ChatMessage \<lparr>chat_text = ''hi''\<rparr>) = (Ok (), put_channel demo_room ch3 a)"
      "replica ?D demo_holds 7 demo_room ch3 ([[r1], [r2]] @ [[r3]])" "length (rec_data r3) = 176"
      "clock (ch_state ch3) ?me = Some 3" "max_index (storage_io (ch_storage ch3)) = max_index (storage_io (ch_storage ch2))"
      "from_bytes envelope_serde (rec_data r3) = Ok e3" "env_from e3 = ?me"
      "\<forall>c. open_envelope (d_crypto ?D) c 7 e3 = Ok m3" "msg_data m3 = ChatMessage \<lparr>chat_text = ''hi''\<rparr>"
      "log_step ?D demo_room (ch_state ch2, ch_chat ch2) r3 (ch_state ch3, ch_chat ch3)"
    by (rule demo_chats [OF a(2-5) own a(9,8,12), of "''hi''"]) (simp_all add: a(13))
  obtain peer3 q3 f3 n3 where q3: "do_send ?D b demo_room (ChatMessage \<lparr>chat_text = ''yo''\<rparr>) = (Ok (), put_channel demo_room peer3 b)"
      "replica ?D demo_holds 7 demo_room peer3 (map (\<lambda>r. [r]) [r1, r2] @ [[q3]])" "length (rec_data q3) = 176"
      "clock (ch_state peer3) ?nine = Some 3" "max_index (storage_io (ch_storage peer3)) = max_index (storage_io (ch_storage peer2))"
      "from_bytes envelope_serde (rec_data q3) = Ok f3" "env_from f3 = ?nine"
      "\<forall>c. open_envelope (d_crypto ?D) c 9 f3 = Ok n3" "msg_data n3 = ChatMessage \<lparr>chat_text = ''yo''\<rparr>"
      "log_step ?D demo_room (ch_state peer2, ch_chat peer2) q3 (ch_state peer3, ch_chat peer3)"
    by (rule demo_chats [OF b(6,7,1,3), of "''yo''"]) (simp_all add: b(4) peer2 a(8,10-12))
  have inv: "machine_inv ?D (ch_state ch2, ch_chat ch2)" by (rule replica_run(2) [OF a(5)])
  have r3': "rec_sender r3 = ?me" "chat_record ?D (ch_state ch3) r3" "clock (ch_state ch3) = (clock (ch_state ch2))(?me \<mapsto> rec_sequence r3)"
      "unat (message_count (ch_chat ch3)) = 1"
    using demo_chat_record [OF r3(6,8,9) _ inv r3(10)] own a(12) r3(7) by simp_all
  have q3': "rec_sender q3 = ?nine" "chat_record ?D (ch_state peer3) q3" "clock (ch_state peer3) = (clock (ch_state ch2))(?nine \<mapsto> rec_sequence q3)"
      "unat (message_count (ch_chat peer3)) = 1"
    using demo_chat_record [OF q3(6,8,9) _ inv q3(10) [unfolded b(2)]] a(11,12) q3(7) by simp_all
  have "rec_sequence r3 = 3" "rec_sequence q3 = 3" using r3(4) r3'(3) q3(4) q3'(3) by simp_all
  then have clk: "clock (ch_state ch3) = [?me \<mapsto> 3, ?nine \<mapsto> 0]" "clock (ch_state peer3) = [?me \<mapsto> 2, ?nine \<mapsto> 3]"
    using r3'(3) q3'(3) a(8) by (auto simp: fun_eq_iff)
  have counts: "message_count (ch_chat ch3) = 1" "message_count (ch_chat peer3) = 1"
    using r3'(4) q3'(4) by (metis unsigned_1 word_unat_eq_iff)+
  have genuine: "genuine ?D 7 demo_room {[r1, r2, r3], [r1, r2, q3]}"
    unfolding genuine_def
  proof
    fix n
    show "\<exists>own t. log_run ?D demo_room (machine_start ?D 7 demo_room) own t \<and>
        (\<forall>rs\<in>{[r1, r2, r3], [r1, r2, q3]}. set (messages_of n rs) \<subseteq> set (messages_of n own))"
      using replica_run(3) [OF r3(2)] replica_run(3) [OF q3(2)] r3'(1) q3'(1)
      by (cases "n = ?nine") (fastforce simp: messages_of_def)+
  qed
  have known: "channel_keys (ch_state peer2) (cl_node_id b) = Some (kp_public (demo_pair 9))"
    by (simp add: b(7) peer2 a(11) demo_pair_def)
  have runs: "device_run ?D demo_holds (demo_pair 7) 7 demo_room (put_channel demo_room ch3 a)"
      "device_run ?D demo_holds (demo_pair 9) 7 demo_room (put_channel demo_room peer3 b)"
    using owner_send [OF a(1) r3(1) torn_Ok] member_send [OF b(5) q3(1) torn_Ok] known b(1)
    by (simp_all add: device_run_def knows_own_key_def)
  show thesis
    by (rule that [OF runs(1) _ _ runs(2) _ _ genuine r3'(2) q3'(2) clk _ counts])
      (use r3(2,3,5) q3(2,3,5) a(6,7,13) b(4) in \<open>simp_all add: map_of_put_channel\<close>)
qed

subsection \<open>The property\<close>

text \<open>
  C6. Two devices that have written to a channel independently converge. Their logs have a common part,
  after which each holds chat messages that the other may lack, in whatever order they arrived; every node's
  messages in them are those that its own device sent. One round of synchronisation in
  each direction, with buffers that take the logs and slabs that are free, succeeds and appends to each log
  what it lacked, and then the devices agree: on the clock, which is the maximum of both, the keys and the chat, and on every
  node's messages, in the same order and with the same envelopes.
\<close>

theorem devices_converge:
  assumes D: "D = app_deps SLAB P SR SM SE SN M MC"
    and a: "map_of (cl_channels a) cid = Some ch" "replica D (mem_holds SLAB SR enc) key cid ch rssa"
    and b: "map_of (cl_channels b) cid = Some peer" "replica D (mem_holds SLAB SR enc) key cid peer rssb"
    and logs: "concat rssa = cs @ xs" "concat rssb = cs @ ys" "cs \<noteq> []" "genuine D key cid {concat rssa, concat rssb}"
    and chat: "\<forall>r\<in>set xs. chat_record D (ch_state ch) r" "\<forall>r\<in>set ys. chat_record D (ch_state peer) r"
    and reach: "clock (ch_state peer) i = Some q" "clock (ch_state ch) i = Some p" "q \<le> p"
    and count: "unat (message_count (ch_chat ch)) + length xs + length ys < 2 ^ 64"
      "unat (message_count (ch_chat peer)) + length xs + length ys < 2 ^ 64"
    and room: "length rssa + length ys \<le> max_index (storage_io (ch_storage ch))"
      "length rssb + length xs \<le> max_index (storage_io (ch_storage peer))"
      "\<forall>z. rec_data z \<in> rec_data ` set (xs @ ys) \<longrightarrow> INITIAL_OFFSET + 4 + length (enc z) \<le> SLAB"
    and buffer: "length (packed (map rec_data (concat rssa @ concat rssb))) \<le> length buffer" "length buffer < usize_limit"
  shows "\<exists>ch' peer' us zs. synced D cid a b request0 buffer (put_channel cid peer' b) \<and>
    synced D cid (put_channel cid peer' b) a request1 buffer (put_channel cid ch' a) \<and>
    replica D (mem_holds SLAB SR enc) key cid ch' (rssa @ map (\<lambda>r. [r]) us) \<and>
    replica D (mem_holds SLAB SR enc) key cid peer' (rssb @ map (\<lambda>r. [r]) zs) \<and>
    (\<forall>n. clock (ch_state ch') n = map_option (max (known_sequence (clock (ch_state peer)) n)) (clock (ch_state ch) n)) \<and>
    clock (ch_state ch') = clock (ch_state peer') \<and> channel_keys (ch_state ch') = channel_keys (ch_state peer') \<and>
    ch_chat ch' = ch_chat peer' \<and> (\<forall>n. messages_of n (concat rssa @ us) = messages_of n (concat rssb @ zs))"
proof -
  let ?kb = "known_sequence (clock (ch_state peer))" and ?ka = "known_sequence (clock (ch_state ch))"
  have div: "diverged D ch rssa peer rssb cs xs ys" "cs \<noteq> []"
    using logs chat genuine_agree [OF D a(2) b(2) logs(1,2,4)] by (simp_all add: diverged_def)
  have first: "unat (message_count (ch_chat peer)) + length xs < 2 ^ 64"
      "length rssb + length (filter (lacking ?kb) xs) \<le> max_index (storage_io (ch_storage peer))"
      "\<forall>z. rec_data z \<in> rec_data ` set xs \<longrightarrow> INITIAL_OFFSET + 4 + length (enc z) \<le> SLAB"
      "length (packed (map rec_data (concat rssa))) \<le> length buffer"
    using count(2) order_trans [OF add_left_mono [OF length_filter_le] room(2)] room(3) buffer(1) by auto
  obtain peer' zs where one: "synced D cid a b request0 buffer (put_channel cid peer' b)"
    "replica D (mem_holds SLAB SR enc) key cid peer' (rssb @ map (\<lambda>r. [r]) zs)"
    "map what zs = map what (filter (lacking ?kb) xs)"
    "\<forall>n. clock (ch_state peer') n = map_option (max (?kb n)) (clock (ch_state ch) n)"
    "diverged D ch rssa peer' (rssb @ map (\<lambda>r. [r]) zs) cs xs (ys @ zs)"
    "\<forall>n. messages_of n (ys @ zs)
      = (if prefix (messages_of n ys) (messages_of n xs) then messages_of n xs else messages_of n ys)"
    by (rule merge_round [OF D a b div refl reach first buffer(2)])
  note zs = merged_records [OF one(3)]
  have "\<not> lacking ?ka z" if "z \<in> set zs" for z using zs(5) [OF that] diverged_knows [OF a(2) b(2) div(1)] by auto
  then have lacked: "length (filter (lacking ?ka) (ys @ zs)) \<le> length ys" by (simp add: filter_empty_conv)
  have data: "rec_data ` set (ys @ zs) \<subseteq> rec_data ` set (xs @ ys)" using zs(2) by auto
  have served: "length (packed (map rec_data (concat (rssb @ map (\<lambda>r. [r]) zs)))) \<le> length buffer"
    using buffer(1) length_packed_filter [of "lacking ?kb" xs] by (simp add: logs zs(1))
  have find: "map_of (cl_channels (put_channel cid peer' b)) cid = Some peer'" by (simp add: map_of_put_channel)
  have reach': "clock (ch_state peer') i = Some (max (?kb i) p)" using one(4) reach(2) by simp
  have second: "unat (message_count (ch_chat ch)) + length (ys @ zs) < 2 ^ 64"
      "length rssa + length (filter (lacking ?ka) (ys @ zs)) \<le> max_index (storage_io (ch_storage ch))"
      "\<forall>z. rec_data z \<in> rec_data ` set (ys @ zs) \<longrightarrow> INITIAL_OFFSET + 4 + length (enc z) \<le> SLAB"
    using count(1) zs(4) order_trans [OF add_left_mono [OF lacked] room(1)] room(3) data by auto
  obtain ch' us where two: "synced D cid (put_channel cid peer' b) a request1 buffer (put_channel cid ch' a)"
    "replica D (mem_holds SLAB SR enc) key cid ch' (rssa @ map (\<lambda>r. [r]) us)"
    "diverged D peer' (rssb @ map (\<lambda>r. [r]) zs) ch' (rssa @ map (\<lambda>r. [r]) us) cs (ys @ zs) (xs @ us)"
    "\<forall>n. messages_of n (xs @ us)
      = (if prefix (messages_of n xs) (messages_of n (ys @ zs)) then messages_of n (ys @ zs) else messages_of n xs)"
    by (rule merge_round [OF D find one(2) a diverged_sym [OF one(5)] div(2) refl reach(2) reach' _ second served buffer(2)])
      simp
  have same: "messages_of n (ys @ zs) = messages_of n (xs @ us)" for n
    using one(6) two(4) div(1) unfolding diverged_def by (metis prefix_order.refl)
  note agree = diverged_agree [OF one(2) two(2,3) same]
  have "messages_of n (concat rssa @ us) = messages_of n (concat rssb @ zs)" for n using same [of n] by (simp add: logs)
  then show ?thesis using one(1,2,4) two(1,2) agree by metis
qed

theorem devices_converge_witness:
  "\<exists>a b ch peer ch' peer'. device_run (demo_deps 2000) demo_holds (demo_pair 7) 7 demo_room a \<and>
    device_run (demo_deps 2000) demo_holds (demo_pair 9) 7 demo_room b \<and>
    map_of (cl_channels a) demo_room = Some ch \<and> map_of (cl_channels b) demo_room = Some peer \<and>
    clock (ch_state ch) = [NodeId (Id 7) \<mapsto> 3, NodeId (Id 9) \<mapsto> 0] \<and>
    clock (ch_state peer) = [NodeId (Id 7) \<mapsto> 2, NodeId (Id 9) \<mapsto> 3] \<and>
    synced (demo_deps 2000) demo_room a b (demo_request (NodeId (Id 9))) (replicate 2000 0) (put_channel demo_room peer' b) \<and>
    synced (demo_deps 2000) demo_room (put_channel demo_room peer' b) a (demo_request (NodeId (Id 7))) (replicate 2000 0)
      (put_channel demo_room ch' a) \<and>
    clock (ch_state ch') = [NodeId (Id 7) \<mapsto> 3, NodeId (Id 9) \<mapsto> 3] \<and> clock (ch_state peer') = clock (ch_state ch') \<and>
    ch_chat ch' = ch_chat peer'"
proof -
  let ?D = "demo_deps 2000" and ?seven = "NodeId (Id 7)" and ?nine = "NodeId (Id 9)" and ?buffer = "replicate 2000 (0 :: u8)"
  obtain a ch r1 r2 r3 b peer q3 where demo:
    "device_run ?D demo_holds (demo_pair 7) 7 demo_room a" "map_of (cl_channels a) demo_room = Some ch"
    "replica ?D demo_holds 7 demo_room ch [[r1], [r2], [r3]]"
    "device_run ?D demo_holds (demo_pair 9) 7 demo_room b" "map_of (cl_channels b) demo_room = Some peer"
    "replica ?D demo_holds 7 demo_room peer [[r1], [r2], [q3]]"
    "genuine ?D 7 demo_room {[r1, r2, r3], [r1, r2, q3]}"
    "chat_record ?D (ch_state ch) r3" "chat_record ?D (ch_state peer) q3"
    "clock (ch_state ch) = [?seven \<mapsto> 3, ?nine \<mapsto> 0]" "clock (ch_state peer) = [?seven \<mapsto> 2, ?nine \<mapsto> 3]"
    "map (\<lambda>r. length (rec_data r)) [r1, r2, r3, q3] = [228, 196, 176, 176]"
    "message_count (ch_chat ch) = 1" "message_count (ch_chat peer) = 1"
    "max_index (storage_io (ch_storage ch)) = 4" "max_index (storage_io (ch_storage peer)) = 4"
    by (rule demo_diverged)
  have reach: "clock (ch_state peer) ?seven = Some 2" "clock (ch_state ch) ?seven = Some 3" "(2 :: u64) \<le> 3"
    using demo(10,11) by simp_all
  have counts: "unat (message_count (ch_chat ch)) + length [r3] + length [q3] < 2 ^ 64"
      "unat (message_count (ch_chat peer)) + length [r3] + length [q3] < 2 ^ 64"
    by (simp_all add: demo(13,14))
  have room: "length [[r1], [r2], [r3]] + length [q3] \<le> max_index (storage_io (ch_storage ch))"
      "length [[r1], [r2], [q3]] + length [r3] \<le> max_index (storage_io (ch_storage peer))"
      "\<forall>z. rec_data z \<in> rec_data ` set ([r3] @ [q3]) \<longrightarrow> INITIAL_OFFSET + 4 + length (plain_enc z) \<le> 2000"
    using demo(12) by (auto simp: demo(15,16) length_plain_enc INITIAL_OFFSET_def)
  have buffer: "length (packed (map rec_data (concat [[r1], [r2], [r3]] @ concat [[r1], [r2], [q3]]))) \<le> length ?buffer"
      "length ?buffer < usize_limit"
    using demo(12) by (simp_all add: usize_limit_def)
  have logs: "concat [[r1], [r2], [r3]] = [r1, r2] @ [r3]" "concat [[r1], [r2], [q3]] = [r1, r2] @ [q3]" "[r1, r2] \<noteq> []"
      "genuine ?D 7 demo_room {concat [[r1], [r2], [r3]], concat [[r1], [r2], [q3]]}"
      "\<forall>r\<in>set [r3]. chat_record ?D (ch_state ch) r" "\<forall>r\<in>set [q3]. chat_record ?D (ch_state peer) r"
    using demo(7-9) by simp_all
  from devices_converge [OF refl demo(2,3,5,6) logs reach counts room buffer, of "demo_request ?nine" "demo_request ?seven"]
  obtain ch' peer' where done': "synced ?D demo_room a b (demo_request ?nine) ?buffer (put_channel demo_room peer' b)"
      "synced ?D demo_room (put_channel demo_room peer' b) a (demo_request ?seven) ?buffer (put_channel demo_room ch' a)"
      "\<forall>n. clock (ch_state ch') n = map_option (max (known_sequence (clock (ch_state peer)) n)) (clock (ch_state ch) n)"
      "clock (ch_state ch') = clock (ch_state peer')" "ch_chat ch' = ch_chat peer'"
    by auto
  have "clock (ch_state ch') = [?seven \<mapsto> 3, ?nine \<mapsto> 3]"
    unfolding fun_eq_iff done'(3) [rule_format] by (simp add: demo(10,11) known_sequence_def)
  then show ?thesis using demo(1,2,4,5,10,11) done'(1,2,4,5) by metis
qed

end
