(* ===== verification/Devices.thy ===== *)
theory Devices
  imports Senders
begin

text \<open>
  A channel on several devices at once. \<open>network\<close> is the system: each device has made or joined the channel, the
  devices send, and they receive whatever arrives. Calls may end in any way; a device on which a call was torn is
  \<open>broken\<close> from then on, and may do anything. What is accepted in the name of a device that is not broken
  is what this device has logged, since nobody else can sign for it. Everything else, messages of other nodes and
  of broken devices included, may come from anywhere and in any order.
\<close>

subsection \<open>What a store holds\<close>

lemma length_bytes_injective:
  assumes "to_be_bytes (of_nat a :: u32) = to_be_bytes (of_nat b :: u32)" "a < 2 ^ 32" "b < 2 ^ 32"
  shows "a = b"
proof -
  have "(of_nat a :: u32) = of_nat b"
    using arg_cong [OF assms(1), of "from_be_bytes :: u8 list \<Rightarrow> u32"] by (simp only: from_to_be_bytes_widths)
  then have "unat (of_nat a :: u32) = unat (of_nat b :: u32)" by (rule arg_cong)
  then show ?thesis using assms(2,3) by (simp add: unat_of_nat take_bit_nat_eq_self)
qed

lemma frames_injective:
  assumes enc: "serde_ok S enc"
  shows "frames enc rs @ xs = frames enc qs @ ys \<Longrightarrow> length rs = length qs \<Longrightarrow>
    length (frames enc rs) < 2 ^ 32 \<Longrightarrow> length (frames enc qs) < 2 ^ 32 \<Longrightarrow> rs = qs"
proof (induction rs arbitrary: qs)
  case (Cons r rs)
  obtain q qs' where qs: "qs = q # qs'" using Cons.prems(2) by (cases qs) auto
  let ?n = "\<lambda>x. of_nat (length (enc x)) :: u32"
  have all: "to_be_bytes (?n r) @ enc r @ frames enc rs @ xs = to_be_bytes (?n q) @ enc q @ frames enc qs' @ ys"
    using Cons.prems(1) by (simp add: qs frame_def)
  then have heads: "to_be_bytes (?n r) = to_be_bytes (?n q)" and rest: "enc r @ frames enc rs @ xs = enc q @ frames enc qs' @ ys"
    by (auto simp: append_eq_append_conv)
  have len: "length (enc r) = length (enc q)"
    by (rule length_bytes_injective [OF heads]) (use Cons.prems(3,4) in \<open>simp_all add: qs\<close>)
  with rest have "enc r = enc q" and tail: "frames enc rs @ xs = frames enc qs' @ ys" by simp_all
  then have "r = q" using enc unfolding serde_ok_def by (metis result.inject(1))
  moreover have "rs = qs'" using Cons.IH [OF tail] Cons.prems(2-4) by (simp add: qs)
  ultimately show ?case by (simp add: qs)
qed simp

lemma slab_at_injective:
  assumes enc: "serde_ok S enc" and small: "length data < usize_limit"
    and slabs: "slab_at SLAB enc data i rs" "slab_at SLAB enc data i qs"
  shows "rs = qs"
proof -
  have lens: "length rs < 2 ^ 32" "length qs < 2 ^ 32"
      "to_be_bytes (of_nat (length rs) :: u32) = to_be_bytes (of_nat (length qs) :: u32)"
    and room: "length (frames enc rs) \<le> SLAB" "length (frames enc qs) \<le> SLAB" "SLAB \<le> length data"
    and bytes: "range_get data (i * SLAB + INITIAL_OFFSET) (i * SLAB + INITIAL_OFFSET + length (frames enc rs)) = Some (frames enc rs)"
      "range_get data (i * SLAB + INITIAL_OFFSET) (i * SLAB + INITIAL_OFFSET + length (frames enc qs)) = Some (frames enc qs)"
    using slabs by (simp_all add: slab_at_def)
  have len: "length rs = length qs" by (rule length_bytes_injective [OF lens(3,1,2)])
  let ?d = "drop (i * SLAB + INITIAL_OFFSET) data"
  have "take (length (frames enc rs)) ?d = frames enc rs" "take (length (frames enc qs)) ?d = frames enc qs"
    using bytes by (auto simp: range_get_def split: if_splits)
  then have "frames enc rs @ drop (length (frames enc rs)) ?d = frames enc qs @ drop (length (frames enc qs)) ?d"
    by (metis append_take_drop_id)
  then show ?thesis
    by (rule frames_injective [OF enc _ len]) (use room small in \<open>simp_all add: usize_limit_def\<close>)
qed

text \<open>The bytes of a store determine what it holds.\<close>

lemma mem_holds_injective:
  assumes "mem_holds SLAB S enc io rss" "mem_holds SLAB S enc io qss"
  shows "rss = qss"
proof (rule nth_equalityI)
  show len: "length rss = length qss" using assms by (simp add: mem_holds_def)
  fix i assume i: "i < length rss"
  then have max: "i < max_index io" using assms(1) by (simp add: mem_holds_def)
  have enc: "serde_ok S enc" "length (mem_data io) < usize_limit" using assms(1) by (simp_all add: mem_holds_def)
  have "slab_at SLAB enc (mem_data io) i (if i < length rss then rss ! i else [])"
      "slab_at SLAB enc (mem_data io) i (if i < length qss then qss ! i else [])"
    using assms max unfolding mem_holds_def by blast+
  then show "rss ! i = qss ! i" using i len slab_at_injective [OF enc] by simp
qed

subsection \<open>The system\<close>

definition device_starts ::
  "('c, 's, 'p, 'i) deps \<Rightarrow> ('i \<Rightarrow> stored list list \<Rightarrow> bool) \<Rightarrow> ('s, 'p) key_pair \<Rightarrow> 'p \<Rightarrow> channel_id \<Rightarrow>
     ('c, 's, 'p, 'i) client \<Rightarrow> bool" where
  "device_starts D holds kp key cid self \<longleftrightarrow>
     (\<exists>before io name. cl_key_pair before = kp \<and> cl_node_id before = compute_id (d_crypto D) (kp_public kp) \<and> holds io [] \<and>
        (key = kp_public kp \<and> init_chat D before name io = (Ok cid, self) \<or> add_channel D before key cid io = (Ok (), self)))"

abbreviation device_id :: "('c, 's, 'p, 'i) deps \<Rightarrow> (nat \<Rightarrow> ('s, 'p) key_pair) \<Rightarrow> nat \<Rightarrow> node_id" where
  "device_id D kps i \<equiv> compute_id (d_crypto D) (kp_public (kps i))"

text \<open>Bytes in the name of a device that is not broken are bytes that this device has logged.\<close>

definition signed ::
  "('c, 's, 'p, 'i) deps \<Rightarrow> ('i \<Rightarrow> stored list list \<Rightarrow> bool) \<Rightarrow> (nat \<Rightarrow> ('s, 'p) key_pair) \<Rightarrow> nat set \<Rightarrow> channel_id \<Rightarrow>
     (nat \<Rightarrow> ('c, 's, 'p, 'i) client) \<Rightarrow> u8 list \<Rightarrow> bool" where
  "signed D holds kps I cid w d \<longleftrightarrow>
     (\<forall>env. \<forall>i\<in>I. from_bytes (d_envelopes D) d = Ok env \<and> env_from env = device_id D kps i \<longrightarrow>
        (\<exists>ch rss. map_of (cl_channels (w i)) cid = Some ch \<and> holds (storage_io (ch_storage ch)) rss \<and>
           d \<in> rec_data ` set (concat rss)))"

definition tear :: "(unit, client_error) result \<Rightarrow> ('c, 's, 'p, 'i) client \<Rightarrow> ('c, 's, 'p, 'i) client \<Rightarrow> nat \<Rightarrow> nat set \<Rightarrow> nat set" where
  "tear r self self' i broken = (if torn r self self' then insert i broken else broken)"

inductive network ::
  "('c, 's, 'p, 'i) deps \<Rightarrow> ('i \<Rightarrow> stored list list \<Rightarrow> bool) \<Rightarrow> (nat \<Rightarrow> ('s, 'p) key_pair) \<Rightarrow> nat \<Rightarrow> 'p \<Rightarrow> channel_id \<Rightarrow>
     (nat \<Rightarrow> ('c, 's, 'p, 'i) client) \<Rightarrow> nat set \<Rightarrow> bool"
  for D :: "('c, 's, 'p, 'i) deps" and holds :: "'i \<Rightarrow> stored list list \<Rightarrow> bool" and kps :: "nat \<Rightarrow> ('s, 'p) key_pair"
    and N :: nat and key :: 'p and cid :: channel_id where
  net_start: "\<forall>i<N. device_starts D holds (kps i) key cid (w i) \<Longrightarrow> network D holds kps N key cid w {}"
| net_send: "network D holds kps N key cid w broken \<Longrightarrow> i < N \<Longrightarrow> do_send D (w i) cid data = (r, self') \<Longrightarrow>
    r = Ok () \<longrightarrow> knows_own_key (w i) cid (kp_public (kps i)) \<Longrightarrow>
    network D holds kps N key cid (w(i := self')) (tear r (w i) self' i broken)"
| net_receive: "network D holds kps N key cid w broken \<Longrightarrow> i < N \<Longrightarrow> do_receive D (w i) cid bytes = (r, self') \<Longrightarrow>
    r = Ok () \<longrightarrow> signed D holds kps ({..<N} - broken) cid w bytes \<Longrightarrow>
    network D holds kps N key cid (w(i := self')) (tear r (w i) self' i broken)"
| net_other: "network D holds kps N key cid w broken \<Longrightarrow> i < N \<Longrightarrow> cl_key_pair self' = cl_key_pair (w i) \<Longrightarrow>
    cl_node_id self' = cl_node_id (w i) \<Longrightarrow> map_of (cl_channels self') cid = map_of (cl_channels (w i)) cid \<Longrightarrow>
    network D holds kps N key cid (w(i := self')) broken"
| net_broken: "network D holds kps N key cid w broken \<Longrightarrow> i \<in> broken \<Longrightarrow>
    network D holds kps N key cid (w(i := self')) broken"

subsection \<open>The invariant of the system\<close>

definition device_log ::
  "('c, 's, 'p, 'i) deps \<Rightarrow> ('i \<Rightarrow> stored list list \<Rightarrow> bool) \<Rightarrow> ('s, 'p) key_pair \<Rightarrow> 'p \<Rightarrow> channel_id \<Rightarrow>
     ('c, 's, 'p, 'i) client \<Rightarrow> stored list list \<Rightarrow> bool" where
  "device_log D holds kp key cid self rss \<longleftrightarrow>
     cl_key_pair self = kp \<and> cl_node_id self = compute_id (d_crypto D) (kp_public kp) \<and>
     (\<exists>ch. map_of (cl_channels self) cid = Some ch \<and> replica D holds key cid ch rss)"

definition own_messages :: "(nat \<Rightarrow> node_id) \<Rightarrow> nat set \<Rightarrow> (nat \<Rightarrow> stored list list) \<Rightarrow> bool" where
  "own_messages ids I logs \<longleftrightarrow>
     (\<forall>i\<in>I. \<forall>j\<in>I. set (messages_of (ids i) (concat (logs j))) \<subseteq> set (messages_of (ids i) (concat (logs i))))"

lemma own_messages_mono: "own_messages ids I logs \<Longrightarrow> J \<subseteq> I \<Longrightarrow> own_messages ids J logs"
  by (auto simp: own_messages_def)

lemma device_starts_log:
  assumes D: "D = app_deps SLAB P SR SM SE SN M MC" and keys: "rust_matching P SM kp" and envs: "serde_ok SE enc_env"
    and start: "device_starts D (mem_holds SLAB SR enc) kp key cid self"
  shows "\<exists>rss. device_log D (mem_holds SLAB SR enc) kp key cid self rss \<and>
    (\<forall>r\<in>set (concat rss). rec_sender r = compute_id (d_crypto D) (kp_public kp))"
proof -
  obtain before io name where b: "cl_key_pair before = kp" "cl_node_id before = compute_id (d_crypto D) (kp_public kp)"
      "mem_holds SLAB SR enc io []"
    and how: "key = kp_public kp \<and> init_chat D before name io = (Ok cid, self) \<or> add_channel D before key cid io = (Ok (), self)"
    using start unfolding device_starts_def by blast
  from how show ?thesis
  proof
    assume made: "key = kp_public kp \<and> init_chat D before name io = (Ok cid, self)"
    have "rust_matching P SM (cl_key_pair before)" "key = kp_public (cl_key_pair before)" using keys b(1) made by simp_all
    from init_extends [OF D this(1) envs this(2) refl b(3) conjunct2 [OF made]] obtain ch r where
        "replica D (mem_holds SLAB SR enc) key cid ch [[r]]" "rec_sender r = compute_id (d_crypto D) key"
        "map_of (cl_channels self) cid = Some ch" "cl_key_pair self = cl_key_pair before" "cl_node_id self = cl_node_id before" .
    then show ?thesis using b(1,2) made by (intro exI [of _ "[[r]]"]) (simp add: device_log_def)
  next
    assume joined: "add_channel D before key cid io = (Ok (), self)"
    obtain chs where chs: "0 < d_max_nodes D"
        "index_map_insert (d_max_channels D) cid (start_channel (compute_id (d_crypto D) key) key io cid) (cl_channels before)
          = Some chs" "self = before\<lparr>cl_channels := chs\<rparr>"
      by (rule add_channel_OkE [OF joined])
    have "replica D (mem_holds SLAB SR enc) key cid (start_channel (compute_id (d_crypto D) key) key io cid) []"
      using replica_start [OF D b(3)] chs(1) by (simp add: D)
    then show ?thesis
      using b(1,2) chs(3) index_map_insert_Some [OF chs(2)] by (intro exI [of _ "[]"]) (simp add: device_log_def)
  qed
qed

text \<open>A record says no more than its bytes.\<close>

lemma run_opened:
  assumes D: "D = app_deps SLAB P SR SM SE SN M MC"
  shows "log_run D cid s rs t \<Longrightarrow> machine_inv D s \<Longrightarrow> r \<in> set rs \<Longrightarrow>
    \<exists>env m. from_bytes SE (rec_data r) = Ok env \<and> rec_sender r = env_from env \<and>
      opened SE SM (rec_data r) = Some m \<and> rec_sequence r = msg_sequence m"
proof (induction rule: log_run.induct)
  case (run_cons s q s' rs u)
  show ?case
  proof (cases "r = q")
    case True
    show ?thesis by (rule step_opened [OF D run_cons.prems(1) run_cons.hyps(1)]) (auto simp: True)
  qed (use run_cons log_step_effect(1) in fastforce)
qed simp

lemma replica_what:
  assumes D: "D = app_deps SLAB P SR SM SE SN M MC"
    and r: "replica D holds key cid ch rss" "r \<in> set (concat rss)"
    and q: "replica D holds key cid peer qss" "q \<in> set (concat qss)" and same: "rec_data r = rec_data q"
  shows "what r = what q"
  using run_opened [OF D replica_run(3) [OF r(1)] replica_run(1) [OF r(1)] r(2)]
    run_opened [OF D replica_run(3) [OF q(1)] replica_run(1) [OF q(1)] q(2)] same by auto

lemma own_messages_start:
  assumes "\<forall>i\<in>I. \<forall>r\<in>set (concat (logs i)). rec_sender r = ids i" "inj_on ids I"
  shows "own_messages ids I logs"
  unfolding own_messages_def
proof (intro ballI)
  fix i j assume ij: "i \<in> I" "j \<in> I"
  show "set (messages_of (ids i) (concat (logs j))) \<subseteq> set (messages_of (ids i) (concat (logs i)))"
  proof (cases "i = j")
    case False
    then have "ids j \<noteq> ids i" using assms(2) ij by (auto dest: inj_onD)
    then have "messages_of (ids i) (concat (logs j)) = []" using assms(1) ij(2) by (auto simp: messages_of_def filter_empty_conv)
    then show ?thesis by simp
  qed simp
qed

text \<open>A new record keeps it when it is of the device itself, or of a device that has it.\<close>

lemma own_messages_step:
  assumes own: "own_messages ids I logs" and i: "i \<in> I"
    and r: "\<And>k. k \<in> I \<Longrightarrow> rec_sender r = ids k \<Longrightarrow> k = i \<or> what r \<in> set (messages_of (ids k) (concat (logs k)))"
  shows "own_messages ids I (logs(i := logs i @ [[r]]))"
  unfolding own_messages_def
proof (intro ballI)
  fix k j assume kj: "k \<in> I" "j \<in> I"
  let ?logs = "logs(i := logs i @ [[r]])"
  have grows: "set (messages_of (ids k) (concat (logs k))) \<subseteq> set (messages_of (ids k) (concat (?logs k)))" by auto
  have old: "set (messages_of (ids k) (concat (logs j))) \<subseteq> set (messages_of (ids k) (concat (logs k)))"
    using own kj by (simp add: own_messages_def)
  have new: "set (messages_of (ids k) [r]) \<subseteq> set (messages_of (ids k) (concat (?logs k)))"
    using r [OF kj(1)] by (cases "rec_sender r = ids k") (auto simp: messages_of_def)
  show "set (messages_of (ids k) (concat (?logs j))) \<subseteq> set (messages_of (ids k) (concat (?logs k)))"
    using old new grows by (cases "j = i") auto
qed

text \<open>What a device receives in the name of another device is in the log of that one.\<close>

lemma signed_record:
  assumes D: "D = app_deps SLAB P SR SM SE SN M MC"
    and logs: "\<forall>i\<in>I. device_log D (mem_holds SLAB SR enc) (kps i) key cid (w i) (logs i)"
    and signed: "signed D (mem_holds SLAB SR enc) kps I cid w (rec_data r)"
    and ch: "replica D (mem_holds SLAB SR enc) key cid ch rss" "r \<in> set (concat rss)"
    and k: "k \<in> I" "rec_sender r = device_id D kps k"
  shows "what r \<in> set (messages_of (device_id D kps k) (concat (logs k)))"
proof -
  obtain env where env: "from_bytes (d_envelopes D) (rec_data r) = Ok env" "rec_sender r = env_from env"
    using run_opened [OF D replica_run(3) [OF ch(1)] replica_run(1) [OF ch(1)] ch(2)] by (auto simp: D)
  obtain peer qss where peer: "map_of (cl_channels (w k)) cid = Some peer" "mem_holds SLAB SR enc (storage_io (ch_storage peer)) qss"
      "rec_data r \<in> rec_data ` set (concat qss)"
    using signed env k unfolding signed_def by metis
  have rep: "replica D (mem_holds SLAB SR enc) key cid peer (logs k)" using logs k(1) peer(1) by (auto simp: device_log_def)
  have "qss = logs k"
    using mem_holds_injective [OF peer(2), of "logs k"] rep by (simp add: replica_def channel_ok_def)
  then obtain q where q: "q \<in> set (concat (logs k))" "rec_data r = rec_data q" using peer(3) by auto
  have same: "what r = what q" by (rule replica_what [OF D ch rep q])
  then have "what q \<in> set (messages_of (device_id D kps k) (concat (logs k)))"
    unfolding messages_of_def using q(1) k(2) by (auto simp del: set_concat)
  then show ?thesis by (simp add: same)
qed

text \<open>What holds of the devices in \<open>I\<close>, and that a step of one of them keeps it.\<close>

definition consistent ::
  "('c, 's, 'p, 'i) deps \<Rightarrow> ('i \<Rightarrow> stored list list \<Rightarrow> bool) \<Rightarrow> (nat \<Rightarrow> ('s, 'p) key_pair) \<Rightarrow> 'p \<Rightarrow> channel_id \<Rightarrow>
     (nat \<Rightarrow> ('c, 's, 'p, 'i) client) \<Rightarrow> nat set \<Rightarrow> bool" where
  "consistent D holds kps key cid w I \<longleftrightarrow>
     (\<exists>logs. (\<forall>i\<in>I. device_log D holds (kps i) key cid (w i) (logs i)) \<and> own_messages (device_id D kps) I logs)"

lemma consistent_elsewhere: "consistent D holds kps key cid w I \<Longrightarrow> J \<subseteq> I - {i} \<Longrightarrow> consistent D holds kps key cid (w(i := self')) J"
  unfolding consistent_def by (elim exE conjE, rule exI, rule conjI) (auto intro: own_messages_mono)

lemma consistent_same:
  assumes "consistent D holds kps key cid w I" "cl_key_pair self' = cl_key_pair (w i)" "cl_node_id self' = cl_node_id (w i)"
    "map_of (cl_channels self') cid = map_of (cl_channels (w i)) cid"
  shows "consistent D holds kps key cid (w(i := self')) I"
proof -
  obtain logs where "\<forall>i\<in>I. device_log D holds (kps i) key cid (w i) (logs i)" "own_messages (device_id D kps) I logs"
    using assms(1) unfolding consistent_def by blast
  then show ?thesis
    unfolding consistent_def using assms(2-4) by (intro exI [of _ logs]) (simp add: device_log_def)
qed

lemma consistent_extend:
  assumes logs: "\<forall>i\<in>I. device_log D holds (kps i) key cid (w i) (logs i)" and own: "own_messages (device_id D kps) I logs"
    and i: "i \<in> I" and next_log: "replica D holds key cid ch' (logs i @ [[r]])"
    and r: "\<And>k. k \<in> I \<Longrightarrow> rec_sender r = device_id D kps k \<Longrightarrow>
      k = i \<or> what r \<in> set (messages_of (device_id D kps k) (concat (logs k)))"
  shows "consistent D holds kps key cid (w(i := put_channel cid ch' (w i))) I"
proof -
  have "device_log D holds (kps i) key cid (put_channel cid ch' (w i)) (logs i @ [[r]])"
    using logs i next_log by (auto simp: device_log_def put_channel_def update_conv')
  then have "\<forall>k\<in>I. device_log D holds (kps k) key cid ((w(i := put_channel cid ch' (w i))) k) ((logs(i := logs i @ [[r]])) k)"
    using logs by simp
  moreover have "own_messages (device_id D kps) I (logs(i := logs i @ [[r]]))" by (rule own_messages_step [OF own i r])
  ultimately show ?thesis unfolding consistent_def by blast
qed

text \<open>One call on a device: only a success of a device that is not broken needs an argument.\<close>

lemma consistent_step:
  assumes "consistent D holds kps key cid w ({..<N} - broken)"
    and "r = Ok () \<Longrightarrow> i \<in> {..<N} - broken \<Longrightarrow> consistent D holds kps key cid (w(i := self')) ({..<N} - broken)"
  shows "consistent D holds kps key cid (w(i := self')) ({..<N} - tear r (w i) self' i broken)"
proof (cases "torn r (w i) self' \<or> i \<notin> {..<N} - broken")
  case True
  then have "{..<N} - tear r (w i) self' i broken \<subseteq> {..<N} - broken - {i}" by (auto simp: tear_def)
  then show ?thesis by (rule consistent_elsewhere [OF assms(1)])
next
  case False
  then have "\<not> torn r (w i) self'" by simp
  then show ?thesis
  proof (cases rule: whole_cases)
    case 1
    then show ?thesis using assms(2) False by (simp add: tear_def)
  next
    case 2
    then show ?thesis using assms(1) False by (simp add: tear_def)
  qed
qed

lemma network_inv:
  assumes D: "D = app_deps SLAB P SR SM SE SN M MC" and envs: "serde_ok SE enc_env"
    and keys: "\<forall>i<N. rust_matching P SM (kps i)" and ids: "inj_on (device_id D kps) {..<N}"
  shows "network D (mem_holds SLAB SR enc) kps N key cid w broken \<Longrightarrow>
    consistent D (mem_holds SLAB SR enc) kps key cid w ({..<N} - broken)"
proof (induction rule: network.induct)
  case (net_start w)
  have "\<forall>i. \<exists>rss. i < N \<longrightarrow> device_log D (mem_holds SLAB SR enc) (kps i) key cid (w i) rss \<and>
      (\<forall>r\<in>set (concat rss). rec_sender r = device_id D kps i)"
    using device_starts_log [OF D _ envs] keys net_start by blast
  then obtain logs where logs: "\<forall>i. i < N \<longrightarrow> device_log D (mem_holds SLAB SR enc) (kps i) key cid (w i) (logs i) \<and>
      (\<forall>r\<in>set (concat (logs i)). rec_sender r = device_id D kps i)" by (rule choice [THEN exE])
  then have "own_messages (device_id D kps) {..<N} logs" by (intro own_messages_start [OF _ ids]) blast
  with logs show ?case unfolding consistent_def by auto
next
  case (net_send w broken i data r self')
  show ?case
  proof (rule consistent_step [OF net_send.IH])
    assume ok: "r = Ok ()" and i: "i \<in> {..<N} - broken"
    obtain logs where logs: "\<forall>i\<in>{..<N} - broken. device_log D (mem_holds SLAB SR enc) (kps i) key cid (w i) (logs i)"
      and own: "own_messages (device_id D kps) ({..<N} - broken) logs" using net_send.IH unfolding consistent_def by blast
    obtain ch where self: "cl_key_pair (w i) = kps i" "cl_node_id (w i) = device_id D kps i"
      and ch: "map_of (cl_channels (w i)) cid = Some ch" "replica D (mem_holds SLAB SR enc) key cid ch (logs i)"
      using logs i by (auto simp: device_log_def)
    have match: "rust_matching P SM (cl_key_pair (w i))" using keys i self(1) by simp
    have known: "channel_keys (ch_state ch) (cl_node_id (w i)) = Some (kp_public (cl_key_pair (w i)))"
      using net_send.hyps(4) ok ch(1) self(1) by (simp add: knows_own_key_def)
    obtain ch' z where z: "self' = put_channel cid ch' (w i)" "replica D (mem_holds SLAB SR enc) key cid ch' (logs i @ [[z]])"
        "rec_sender z = cl_node_id (w i)"
      by (rule send_extends [OF D match envs ch known net_send.hyps(3) [unfolded ok]])
    show "consistent D (mem_holds SLAB SR enc) kps key cid (w(i := self')) ({..<N} - broken)"
      unfolding z(1)
      by (rule consistent_extend [OF logs own i z(2)]) (use z(3) self(2) ids i in \<open>auto dest: inj_onD\<close>)
  qed
next
  case (net_receive w broken i bytes r self')
  show ?case
  proof (rule consistent_step [OF net_receive.IH])
    assume ok: "r = Ok ()" and i: "i \<in> {..<N} - broken"
    obtain logs where logs: "\<forall>i\<in>{..<N} - broken. device_log D (mem_holds SLAB SR enc) (kps i) key cid (w i) (logs i)"
      and own: "own_messages (device_id D kps) ({..<N} - broken) logs" using net_receive.IH unfolding consistent_def by blast
    obtain ch where ch: "map_of (cl_channels (w i)) cid = Some ch" "replica D (mem_holds SLAB SR enc) key cid ch (logs i)"
      using logs i by (auto simp: device_log_def)
    obtain ch' z where z: "self' = put_channel cid ch' (w i)" "rec_data z = bytes"
        "replica D (mem_holds SLAB SR enc) key cid ch' (logs i @ [[z]])"
      by (rule receive_extends [OF D ch net_receive.hyps(3) [unfolded ok]])
    have "what z \<in> set (messages_of (device_id D kps k) (concat (logs k)))"
      if "k \<in> {..<N} - broken" "rec_sender z = device_id D kps k" for k
      by (rule signed_record [OF D logs _ z(3) _ that]) (use net_receive.hyps(4) ok z(2) in simp_all)
    then show "consistent D (mem_holds SLAB SR enc) kps key cid (w(i := self')) ({..<N} - broken)"
      unfolding z(1) by (intro consistent_extend [OF logs own i z(3)]) blast
  qed
next
  case (net_other w broken i self')
  then show ?case by (intro consistent_same) simp_all
next
  case (net_broken w broken i self')
  then show ?case by (intro consistent_elsewhere) auto
qed

end
