(* ===== verification/Device_Logs.thy ===== *)
theory Device_Logs
  imports Devices
begin

text \<open>
  What the logs of the devices of a channel have to do with each other, in every run of the system, and a
  run of two devices for the witness.
\<close>

subsection \<open>Two devices\<close>



subsection \<open>The property\<close>



end
