(* ===== verification/Wire_Packets.thy ===== *)
theory Wire_Packets
  imports Client
begin

text \<open>
  \<^verbatim>\<open>protocol/src/wire/packets.rs\<close>: a message is cut into the packets of a fountain code, and every
  packet travels behind a header of three little-endian numbers: a label, the number of the
  message and its length. \<open>wire_writer\<close> produces the packets, \<open>wire_reader\<close> collects them.

  The code itself is the \<^verbatim>\<open>raptorq\<close> crate, a parameter of type \<open>raptorq\<close>; its functions may
  panic, so they answer with a \<open>result\<close>. \<open>raptorq_ok\<close> is what its documentation promises: packets
  survive their serialisation, and a decoder made for the length and packet size of a message
  gives that message and nothing else when it is fed packets of its encoding, at the latest when it
  has seen all of them.
\<close>

subsection \<open>Data\<close>

datatype wire_error =
    Wire_Unreachable
  | Wire_OutOfBounds
  | DeserializeError postcard_error
  | WrongBlock u16
  | NotPacket
  | Wire_ClientError client_error

record ('d, 'k) raptorq =
  rq_decoder_new :: "u64 \<Rightarrow> u16 \<Rightarrow> ('d, wire_error) result"
  rq_decode :: "'d \<Rightarrow> 'k \<Rightarrow> (u8 list option, wire_error) result \<times> 'd"
  rq_encode :: "u8 list \<Rightarrow> u16 \<Rightarrow> u32 \<Rightarrow> ('k list, wire_error) result"
  rq_serialize :: "'k \<Rightarrow> u8 list"
  rq_deserialize :: "u8 list \<Rightarrow> ('k, wire_error) result"

record 'd wire_reader =
  wr_message_number :: u16
  wr_transfer_length :: u16
  wr_decoder :: 'd

record 'k wire_writer =
  ww_message_number :: u16
  ww_transfer_length :: u16
  ww_encoded :: "'k list"
  ww_last_sent :: nat

subsection \<open>Reading and writing the header\<close>

definition wire_read_arr :: "nat \<Rightarrow> u8 list \<Rightarrow> nat \<Rightarrow> (u8 list \<times> nat, wire_error) result" where
  "wire_read_arr SIZE data offset =
     bind_ok (ok_or (checked_add_usize offset SIZE) Wire_Unreachable) (\<lambda>fin.
     bind_ok (ok_or (range_get data offset fin) Wire_OutOfBounds) (\<lambda>slice.
     if length slice = SIZE then Ok (slice, fin) else Err Wire_Unreachable))"

definition wire_write_arr :: "u8 list \<Rightarrow> u8 list \<Rightarrow> nat \<Rightarrow> (nat, wire_error) result \<times> u8 list" where
  "wire_write_arr data target offset =
     or_return (ok_or (checked_add_usize offset (length data)) Wire_Unreachable) target (\<lambda>fin.
     or_return (ok_or (range_get target offset fin) Wire_OutOfBounds) target (\<lambda>_.
     (Ok fin, overwrite target offset data)))"

definition read_u16 :: "u8 list \<Rightarrow> nat \<Rightarrow> (u16 \<times> nat, wire_error) result" where
  "read_u16 data offset =
     bind_ok (wire_read_arr 2 data offset) (\<lambda>(len_arr, len_end). Ok (from_le_bytes len_arr, len_end))"

definition write_u16 :: "u16 \<Rightarrow> u8 list \<Rightarrow> nat \<Rightarrow> (nat, wire_error) result \<times> u8 list" where
  "write_u16 v target offset =
     (let data = to_le_bytes v;
          (wrote, target) = wire_write_arr data target offset in
      or_return wrote target (\<lambda>offset. (Ok offset, target)))"

subsection \<open>The reader\<close>

definition wire_reader_new :: "('d, 'k) raptorq \<Rightarrow> u8 list \<Rightarrow> u16 \<Rightarrow> ('d wire_reader, wire_error) result" where
  "wire_reader_new R data mtu =
     bind_ok (read_u16 data 0) (\<lambda>(label, offset).
     if label \<noteq> 0xa9f4 then Err NotPacket else
     bind_ok (read_u16 data offset) (\<lambda>(message_number, offset).
     bind_ok (read_u16 data offset) (\<lambda>(transfer_length, _).
     bind_ok (word_sub mtu 6) (\<lambda>max_packet_size.
     bind_ok (rq_decoder_new R (ucast transfer_length) max_packet_size) (\<lambda>decoder.
     Ok \<lparr>wr_message_number = message_number, wr_transfer_length = transfer_length, wr_decoder = decoder\<rparr>)))))"

definition accept_packet ::
  "('d, 'k) raptorq \<Rightarrow> 'd wire_reader \<Rightarrow> u8 list \<Rightarrow> (u8 list option, wire_error) result \<times> 'd wire_reader" where
  "accept_packet R self data =
     or_return (read_u16 data 0) self (\<lambda>(label, offset).
     if label \<noteq> 0xa9f4 then (Err NotPacket, self) else
     or_return (read_u16 data offset) self (\<lambda>(message_number, offset).
     or_return (read_u16 data offset) self (\<lambda>(transfer_length, offset).
     if message_number \<noteq> wr_message_number self \<or> transfer_length \<noteq> wr_transfer_length self
     then (Err (WrongBlock message_number), self) else
     or_return (expect (range_get data offset (length data))) self (\<lambda>data.
     or_return (rq_deserialize R data) self (\<lambda>packet.
     let (received, decoder) = rq_decode R (wr_decoder self) packet;
         self = self\<lparr>wr_decoder := decoder\<rparr> in
     or_return received self (\<lambda>received. (Ok received, self)))))))"

definition check_packet :: "u8 list \<Rightarrow> (u16, wire_error) result" where
  "check_packet data =
     bind_ok (read_u16 data 0) (\<lambda>(label, offset).
     if label \<noteq> 0xa9f4 then Err NotPacket else
     bind_ok (read_u16 data offset) (\<lambda>(message_number, _). Ok message_number))"

subsection \<open>The writer\<close>

definition wire_writer_new ::
  "('d, 'k) raptorq \<Rightarrow> u16 \<Rightarrow> u16 \<Rightarrow> u8 list \<Rightarrow> u32 \<Rightarrow> ('k wire_writer, wire_error) result" where
  "wire_writer_new R message_number mtu data repair_packets_per_block =
     (if 65535 < length data then Panic else
      bind_ok (word_sub mtu 6) (\<lambda>adjusted_mtu.
      bind_ok (rq_encode R data adjusted_mtu repair_packets_per_block) (\<lambda>encoded.
      Ok \<lparr>ww_message_number = message_number, ww_transfer_length = of_nat (length data),
          ww_encoded = encoded, ww_last_sent = 0\<rparr>)))"

definition packet_count :: "'k wire_writer \<Rightarrow> nat" where
  "packet_count self = length (ww_encoded self)"

definition writer_next ::
  "('d, 'k) raptorq \<Rightarrow> 'k wire_writer \<Rightarrow> u8 list \<Rightarrow> (nat, wire_error) result \<times> 'k wire_writer \<times> u8 list" where
  "writer_next R self buffer =
     (let self = self\<lparr>ww_last_sent := (ww_last_sent self + 1) mod usize_limit\<rparr> in
      if ww_encoded self = [] then (Panic, self, buffer) else
      let index = ww_last_sent self mod length (ww_encoded self);
          (wrote, buffer) = write_u16 0xa9f4 buffer 0 in
      or_return wrote (self, buffer) (\<lambda>offset.
      let (wrote, buffer) = write_u16 (ww_message_number self) buffer offset in
      or_return wrote (self, buffer) (\<lambda>offset.
      let (wrote, buffer) = write_u16 (ww_transfer_length self) buffer offset in
      or_return wrote (self, buffer) (\<lambda>offset.
      or_return (ok_or (range_get buffer offset (length buffer)) Wire_OutOfBounds) (self, buffer) (\<lambda>target.
      or_return (ok_or (slice_get (ww_encoded self) index) Wire_Unreachable) (self, buffer) (\<lambda>encoding.
      let wrote = rq_serialize R encoding in
      or_return (expect (range_get target 0 (length wrote))) (self, buffer) (\<lambda>_.
      let buffer = overwrite buffer offset wrote in
      or_return (usize_add 6 (length wrote)) (self, buffer) (\<lambda>wrote_length.
      (Ok wrote_length, self, buffer)))))))))"

subsection \<open>Packets as bytes\<close>

definition packet_header :: "u16 \<Rightarrow> u16 \<Rightarrow> u8 list" where
  "packet_header n t = to_le_bytes (0xa9f4 :: u16) @ to_le_bytes n @ to_le_bytes t"

lemma length_packet_header [simp]: "length (packet_header n t) = 6"
  by (simp add: packet_header_def)

lemma read_u16_at:
  assumes "data = pre @ to_le_bytes w @ post" "length data < usize_limit"
  shows "read_u16 data (length pre) = Ok (w, length pre + 2)"
  using assms by (simp add: read_u16_def wire_read_arr_def range_get_def)

lemma read_u16_OkE:
  assumes "read_u16 data offset = Ok (w, fin)"
  obtains pre post where "data = pre @ to_le_bytes w @ post" "length pre = offset" "fin = offset + 2"
proof -
  let ?s = "take 2 (drop offset data)"
  from assms have s: "offset + 2 \<le> length data" "w = from_le_bytes ?s" "fin = offset + 2"
    by (auto simp: read_u16_def wire_read_arr_def result_simps slice_simps split: if_splits)
  then have "to_le_bytes w = ?s"
    using to_from_be_bytes [where 'a = 16 and bs = "rev ?s"]
    by (simp add: from_le_bytes_def to_le_bytes_def)
  then have "data = take offset data @ to_le_bytes w @ drop (offset + 2) data"
    by (metis append_take_drop_id add.commute drop_drop)
  with s show thesis by (intro that [of "take offset data" "drop (offset + 2) data"]) auto
qed

lemma read_u16_outside:
  assumes "length data < usize_limit"
  shows "read_u16 data offset = (if offset + 2 \<le> length data then
      Ok (from_le_bytes (take 2 (drop offset data)), offset + 2)
    else if offset + 2 < usize_limit then Err Wire_OutOfBounds else Err Wire_Unreachable)"
  using assms by (auto simp: read_u16_def wire_read_arr_def range_get_def checked_add_usize_def)

lemma read_u16_not_Panic [simp]: "read_u16 data offset \<noteq> Panic"
  by (auto simp: read_u16_def wire_read_arr_def checked_add_usize_def range_get_def)

lemma write_u16_in:
  "offset + 2 \<le> length buffer \<Longrightarrow> length buffer < usize_limit \<Longrightarrow>
    write_u16 w buffer offset = (Ok (offset + 2), overwrite buffer offset (to_le_bytes w))"
  by (simp add: write_u16_def wire_write_arr_def range_get_def)

lemma header_reads:
  assumes "length (packet_header n t @ body) < usize_limit"
  shows "read_u16 (packet_header n t @ body) 0 = Ok (0xa9f4, 2)"
    "read_u16 (packet_header n t @ body) 2 = Ok (n, 4)"
    "read_u16 (packet_header n t @ body) 4 = Ok (t, 6)"
  using assms
    read_u16_at [of _ "[]" "0xa9f4 :: u16" "to_le_bytes n @ to_le_bytes t @ body"]
    read_u16_at [of _ "to_le_bytes (0xa9f4 :: u16)" n "to_le_bytes t @ body"]
    read_u16_at [of _ "to_le_bytes (0xa9f4 :: u16) @ to_le_bytes n" t body]
  by (simp_all add: packet_header_def)

lemma check_packet_header [simp]:
  "length body + 6 < usize_limit \<Longrightarrow> check_packet (packet_header n t @ body) = Ok n"
  by (simp add: check_packet_def header_reads)

lemma wire_reader_new_header:
  "length body + 6 < usize_limit \<Longrightarrow>
    wire_reader_new R (packet_header n t @ body) mtu =
      bind_ok (word_sub mtu 6) (\<lambda>mps. bind_ok (rq_decoder_new R (ucast t) mps) (\<lambda>d.
        Ok \<lparr>wr_message_number = n, wr_transfer_length = t, wr_decoder = d\<rparr>))"
  by (simp add: wire_reader_new_def header_reads)

lemma accept_packet_header:
  "length body + 6 < usize_limit \<Longrightarrow>
    accept_packet R self (packet_header n t @ body) =
      (if n = wr_message_number self \<and> t = wr_transfer_length self then
         or_return (rq_deserialize R body) self (\<lambda>packet.
           map_prod (\<lambda>r. r) (\<lambda>d. self\<lparr>wr_decoder := d\<rparr>) (rq_decode R (wr_decoder self) packet))
       else (Err (WrongBlock n), self))"
proof -
  assume len: "length body + 6 < usize_limit"
  have body: "range_get (packet_header n t @ body) 6 (length body + 6) = Some body" for n t
    by (simp add: range_get_def)
  have same: "or_return r s (\<lambda>x. (Ok x, s)) = (r, s)" for r :: "(u8 list option, wire_error) result" and s :: "'a wire_reader"
    by (cases r) auto
  have "(case rq_decode R (wr_decoder self) packet of (received, decoder) \<Rightarrow>
      or_return received (self\<lparr>wr_decoder := decoder\<rparr>) (\<lambda>received. (Ok received, self\<lparr>wr_decoder := decoder\<rparr>)))
    = map_prod (\<lambda>r. r) (\<lambda>d. self\<lparr>wr_decoder := d\<rparr>) (rq_decode R (wr_decoder self) packet)" for packet
    by (cases "rq_decode R (wr_decoder self) packet") (simp add: same)
  then show ?thesis
    using len by (auto simp: accept_packet_def header_reads body add.commute [of 6] Let_def)
qed

lemma write_header:
  assumes "6 + length body \<le> length buffer"
  shows "overwrite (overwrite (overwrite (overwrite buffer 0 (to_le_bytes (0xa9f4 :: u16))) 2 (to_le_bytes n)) 4
      (to_le_bytes t)) 6 body = overwrite buffer 0 (packet_header n t @ body)"
  using assms by (simp add: overwrite_def packet_header_def add.commute [of 6] del: add_2_eq_Suc add_2_eq_Suc')

lemma writer_next_packet:
  assumes enc: "ww_encoded self \<noteq> []" and buf: "length buffer < usize_limit"
    and i: "i = ((ww_last_sent self + 1) mod usize_limit) mod length (ww_encoded self)"
    and fit: "6 + length (rq_serialize R (ww_encoded self ! i)) \<le> length buffer"
  shows "writer_next R self buffer =
    (Ok (6 + length (rq_serialize R (ww_encoded self ! i))),
     self\<lparr>ww_last_sent := (ww_last_sent self + 1) mod usize_limit\<rparr>,
     overwrite buffer 0 (packet_header (ww_message_number self) (ww_transfer_length self)
       @ rq_serialize R (ww_encoded self ! i)))"
proof -
  have "i < length (ww_encoded self)" using enc i by simp
  then show ?thesis
    using enc buf fit write_header [OF fit]
    by (simp add: writer_next_def Let_def write_u16_in i [simplified, symmetric] slice_get_def range_get_def
        del: add_2_eq_Suc add_2_eq_Suc')
qed

subsection \<open>The contract of the code\<close>

fun rq_feed :: "('d, 'k) raptorq \<Rightarrow> 'd \<Rightarrow> 'k list \<Rightarrow> ('d, wire_error) result" where
  "rq_feed R d [] = Ok d"
| "rq_feed R d (p # ps) =
     (case rq_decode R d p of (Ok _, d) \<Rightarrow> rq_feed R d ps | (Err e, _) \<Rightarrow> Err e | (Panic, _) \<Rightarrow> Panic)"

text \<open>
  \<open>decodes R data pkts d0\<close>: a decoder in the state \<open>d0\<close> can be fed packets of the encoding \<open>pkts\<close>
  of \<open>data\<close> in any order and with repetitions.
\<close>

definition decodes :: "('d, 'k) raptorq \<Rightarrow> u8 list \<Rightarrow> 'k list \<Rightarrow> 'd \<Rightarrow> bool" where
  "decodes R data pkts d0 \<longleftrightarrow>
     (\<forall>ps p. set (ps @ [p]) \<subseteq> set pkts \<longrightarrow>
       (\<exists>d r. rq_feed R d0 ps = Ok d \<and> fst (rq_decode R d p) = Ok r \<and> (r = None \<or> r = Some data) \<and>
          (set pkts \<subseteq> set (ps @ [p]) \<longrightarrow> r = Some data)))"

definition raptorq_ok :: "('d, 'k) raptorq \<Rightarrow> bool" where
  "raptorq_ok R \<longleftrightarrow>
     (\<forall>p. rq_deserialize R (rq_serialize R p) = Ok p) \<and>
     (\<forall>data mps rep pkts. length data \<le> 65535 \<longrightarrow> rq_encode R data mps rep = Ok pkts \<longrightarrow>
        pkts \<noteq> [] \<and> (\<exists>d0. rq_decoder_new R (of_nat (length data)) mps = Ok d0 \<and> decodes R data pkts d0))"

text \<open>\<open>collected R data pkts ps d\<close>: the decoder \<open>d\<close> has been fed \<open>ps\<close>.\<close>

definition collected :: "('d, 'k) raptorq \<Rightarrow> u8 list \<Rightarrow> 'k list \<Rightarrow> 'k list \<Rightarrow> 'd \<Rightarrow> bool" where
  "collected R data pkts ps d \<longleftrightarrow>
     (\<exists>d0. decodes R data pkts d0 \<and> set ps \<subseteq> set pkts \<and> rq_feed R d0 ps = Ok d)"

lemma rq_feed_snoc:
  "rq_feed R d ps = Ok d' \<Longrightarrow> rq_decode R d' p = (Ok r, d'') \<Longrightarrow> rq_feed R d (ps @ [p]) = Ok d''"
  by (induction ps arbitrary: d) (auto split: prod.splits result.splits)

lemma collected_start: "decodes R data pkts d0 \<Longrightarrow> collected R data pkts [] d0"
  by (auto simp: collected_def)

lemma collected_decode:
  assumes "collected R data pkts ps d" "p \<in> set pkts"
  obtains r d' where "rq_decode R d p = (Ok r, d')" "collected R data pkts (ps @ [p]) d'"
    "r = None \<or> r = Some data" "set pkts \<subseteq> set (ps @ [p]) \<Longrightarrow> r = Some data"
proof -
  obtain d0 where d0: "decodes R data pkts d0" "set ps \<subseteq> set pkts" "rq_feed R d0 ps = Ok d"
    using assms(1) by (auto simp: collected_def)
  have sub: "set (ps @ [p]) \<subseteq> set pkts" using d0(2) assms(2) by simp
  obtain r where r: "fst (rq_decode R d p) = Ok r" "r = None \<or> r = Some data"
      "set pkts \<subseteq> set (ps @ [p]) \<longrightarrow> r = Some data"
    using d0(1) [unfolded decodes_def, rule_format, OF sub] d0(3) by auto
  obtain d' where dec: "rq_decode R d p = (Ok r, d')" using r(1) by (metis prod.collapse)
  have "collected R data pkts (ps @ [p]) d'"
    using d0(1) sub rq_feed_snoc [OF d0(3) dec] by (auto simp: collected_def)
  then show thesis using that [OF dec] r(2,3) by blast
qed

subsection \<open>The packets of a message\<close>

text \<open>The datagrams of a writer, in the order of the encoding.\<close>

definition writer_packet :: "('d, 'k) raptorq \<Rightarrow> 'k wire_writer \<Rightarrow> 'k \<Rightarrow> u8 list" where
  "writer_packet R w k =
     packet_header (ww_message_number w) (ww_transfer_length w) @ rq_serialize R k"

definition packets_fit :: "('d, 'k) raptorq \<Rightarrow> nat \<Rightarrow> 'k wire_writer \<Rightarrow> bool" where
  "packets_fit R cap w \<longleftrightarrow> (\<forall>k \<in> set (ww_encoded w). 6 + length (rq_serialize R k) \<le> cap)"

lemma accept_writer_packet:
  assumes R: "raptorq_ok R" and k: "k \<in> set (ww_encoded w)"
    and fit: "packets_fit R cap w" "cap < usize_limit"
    and rd: "wr_message_number rd = ww_message_number w" "wr_transfer_length rd = ww_transfer_length w"
    and col: "collected R data (ww_encoded w) ps (wr_decoder rd)"
  obtains r d where "accept_packet R rd (writer_packet R w k) = (Ok r, rd\<lparr>wr_decoder := d\<rparr>)"
    "collected R data (ww_encoded w) (ps @ [k]) d" "r = None \<or> r = Some data"
    "set (ww_encoded w) \<subseteq> set (ps @ [k]) \<Longrightarrow> r = Some data"
proof -
  from collected_decode [OF col k] obtain r d where dec: "rq_decode R (wr_decoder rd) k = (Ok r, d)"
      "collected R data (ww_encoded w) (ps @ [k]) d" "r = None \<or> r = Some data"
      "set (ww_encoded w) \<subseteq> set (ps @ [k]) \<Longrightarrow> r = Some data"
    by blast
  have "length (rq_serialize R k) + 6 < usize_limit" using fit k by (fastforce simp: packets_fit_def)
  from accept_packet_header [OF this, of R rd] R dec(1) rd
  have "accept_packet R rd (writer_packet R w k) = (Ok r, rd\<lparr>wr_decoder := d\<rparr>)"
    by (simp add: writer_packet_def raptorq_ok_def)
  then show thesis by (rule that) (fact dec(2-4))+
qed

lemma wire_writer_new_Ok:
  assumes R: "raptorq_ok R" and new: "wire_writer_new R n mtu data rep = Ok w"
  obtains d0 where "ww_message_number w = n" "ww_transfer_length w = of_nat (length data)" "ww_last_sent w = 0"
    "ww_encoded w \<noteq> []" "length data \<le> 65535" "6 \<le> mtu"
    "rq_decoder_new R (of_nat (length data)) (mtu - 6) = Ok d0" "decodes R data (ww_encoded w) d0"
proof -
  from new have len: "length data \<le> 65535" and mtu: "6 \<le> mtu"
    and w: "ww_message_number w = n" "ww_transfer_length w = of_nat (length data)" "ww_last_sent w = 0"
    and enc: "rq_encode R data (mtu - 6) rep = Ok (ww_encoded w)"
    by (auto simp: wire_writer_new_def word_sub_def result_simps split: if_splits)
  from R [unfolded raptorq_ok_def, THEN conjunct2, rule_format, OF len enc] that w len mtu
  show thesis by blast
qed

lemma ucast_transfer_length:
  "length data \<le> 65535 \<Longrightarrow> ucast (of_nat (length data) :: u16) = (of_nat (length data) :: u64)"
  by (simp add: word_eq_iff_unsigned unsigned_ucast_eq unsigned_of_nat take_bit_nat_eq_self)

lemma reader_of_writer_packet:
  assumes R: "raptorq_ok R" and new: "wire_writer_new R n mtu data rep = Ok w"
    and fit: "packets_fit R cap w" "cap < usize_limit" and k: "k \<in> set (ww_encoded w)"
  obtains rd where "wire_reader_new R (writer_packet R w k) mtu = Ok rd"
    "wr_message_number rd = n" "wr_transfer_length rd = ww_transfer_length w"
    "collected R data (ww_encoded w) [] (wr_decoder rd)"
proof -
  from wire_writer_new_Ok [OF R new] obtain d0 where w: "ww_message_number w = n"
      "ww_transfer_length w = of_nat (length data)" "length data \<le> 65535" "6 \<le> mtu"
      "rq_decoder_new R (of_nat (length data)) (mtu - 6) = Ok d0" "decodes R data (ww_encoded w) d0" by blast
  have "length (rq_serialize R k) + 6 < usize_limit" using fit k by (fastforce simp: packets_fit_def)
  from wire_reader_new_header [OF this, of R] w show thesis
    by (intro that [of "\<lparr>wr_message_number = n, wr_transfer_length = ww_transfer_length w, wr_decoder = d0\<rparr>"])
      (simp_all add: writer_packet_def ucast_transfer_length collected_start)
qed

end
