(* ===== verification/Wire.thy ===== *)
theory Wire
  imports Wire_Packets Client_Sync
begin

text \<open>
  \<^verbatim>\<open>protocol/src/wire.rs\<close>: the messages devices broadcast, and the state machine that turns received
  packets into messages and messages into packets. Every sender has a receiver of its own, which
  keeps the packets of one message at a time; a message is processed once, when it is complete. The
  methods read the client and never change it, so it is an argument only. \<open>wire_deps\<close> holds what
  the code is given: the client's parameters, the fountain code and the encoding of the messages.
\<close>

subsection \<open>Data\<close>

record channel_info =
  ci_channel_id :: channel_id
  ci_message_count :: u64

datatype network_protocol =
    Hello node_id u8 "channel_info list"
  | SyncRequest sync_request
  | SyncResponse sync_response

record 'd receiver =
  last_completed :: "u16 option"
  reader :: "'d wire_reader option"

record ('a, 'd) wire_state =
  last_received :: u64
  next_hello :: u64
  hello_duration :: u64
  bytes_budget :: u32
  next_session_id :: u32
  next_message_number :: u16
  to_send :: "network_protocol option"
  receivers :: "('a \<times> 'd receiver) list"
  mtu :: u16

record 'k poll_result =
  next_poll :: u64
  poll_writer :: "'k wire_writer option"

record ('c, 's, 'p, 'i, 'd, 'k) wire_deps =
  wd_client :: "('c, 's, 'p, 'i) deps"
  wd_raptorq :: "('d, 'k) raptorq"
  wd_messages :: "network_protocol serde"

definition wire_state_new :: "u16 \<Rightarrow> ('a, 'd) wire_state" where
  "wire_state_new m =
     \<lparr>last_received = 0, next_hello = 0, hello_duration = 5000, bytes_budget = 4096, next_session_id = 0,
      next_message_number = 0, to_send = None, receivers = [], mtu = m\<rparr>"

subsection \<open>Messages\<close>

definition make_sync_request ::
  "('c, 's, 'p, 'i, 'd, 'k) wire_deps \<Rightarrow> ('a, 'd) wire_state \<Rightarrow> channel_id \<Rightarrow> ('c, 's, 'p, 'i) client \<Rightarrow>
     (network_protocol, wire_error) result \<times> ('a, 'd) wire_state" where
  "make_sync_request W self cid client =
     (let request = \<lparr>req_session_id = next_session_id self, req_bytes_budget = bytes_budget self,
            req_vector_clock = []\<rparr>;
          self = self\<lparr>next_session_id := next_session_id self + 1\<rparr>;
          (finished, request) = finish_sync_request (wd_client W) client cid request in
      or_return (map_err Wire_ClientError finished) self (\<lambda>_. (Ok (SyncRequest request), self)))"

fun hello_infos ::
  "nat \<Rightarrow> ('c, 's, 'p, 'i) client \<Rightarrow> channel_id list \<Rightarrow> channel_info list \<Rightarrow> (channel_info list, wire_error) result" where
  "hello_infos MAX_CHANNELS client [] channel_info = Ok channel_info"
| "hello_infos MAX_CHANNELS client (cid # cids) channel_info =
     (case client_message_count client cid of
        Ok count \<Rightarrow>
          bind_ok (expect (vec_push MAX_CHANNELS channel_info \<lparr>ci_channel_id = cid, ci_message_count = count\<rparr>))
            (\<lambda>channel_info. hello_infos MAX_CHANNELS client cids channel_info)
      | _ \<Rightarrow> Panic)"

definition make_hello ::
  "('c, 's, 'p, 'i, 'd, 'k) wire_deps \<Rightarrow> u8 \<Rightarrow> channel_id list \<Rightarrow> ('c, 's, 'p, 'i) client \<Rightarrow>
     (network_protocol, wire_error) result" where
  "make_hello W peers channel_ids client =
     bind_ok (hello_infos (d_max_channels (wd_client W)) client channel_ids []) (\<lambda>channel_info.
     Ok (Hello (get_node_id client) peers channel_info))"

definition request_if_idle ::
  "('c, 's, 'p, 'i, 'd, 'k) wire_deps \<Rightarrow> ('a, 'd) wire_state \<Rightarrow> channel_id \<Rightarrow> ('c, 's, 'p, 'i) client \<Rightarrow>
     (unit, wire_error) result \<times> ('a, 'd) wire_state" where
  "request_if_idle W self cid client =
     (if to_send self = None then
        let (made, self) = make_sync_request W self cid client in
        or_return made self (\<lambda>request. (Ok (), self\<lparr>to_send := Some request\<rparr>))
      else (Ok (), self))"

fun process_infos ::
  "('c, 's, 'p, 'i, 'd, 'k) wire_deps \<Rightarrow> ('a, 'd) wire_state \<Rightarrow> channel_info list \<Rightarrow> ('c, 's, 'p, 'i) client \<Rightarrow>
     (unit, wire_error) result \<times> ('a, 'd) wire_state" where
  "process_infos W self [] client = (Ok (), self)"
| "process_infos W self (info # infos) client =
     (let cid = ci_channel_id info;
          again = (\<lambda>(r, self). or_return r self (\<lambda>_. process_infos W self infos client)) in
      case client_message_count client cid of
        Ok count \<Rightarrow> again (request_if_idle W self cid client)
      | Err e \<Rightarrow> if e = UnknownChannel then again (request_if_idle W self cid client) else (Ok (), self)
      | Panic \<Rightarrow> (Panic, self))"

definition process_message ::
  "('c, 's, 'p, 'i, 'd, 'k) wire_deps \<Rightarrow> ('a, 'd) wire_state \<Rightarrow> network_protocol \<Rightarrow> ('c, 's, 'p, 'i) client \<Rightarrow>
     (unit, wire_error) result \<times> ('a, 'd) wire_state" where
  "process_message W self msg client =
     (case msg of
        SyncRequest r \<Rightarrow> (Ok (), self)
      | SyncResponse r \<Rightarrow> (Ok (), self)
      | Hello pub_key_id peer_count channel_info \<Rightarrow> process_infos W self channel_info client)"

subsection \<open>Receiving a packet\<close>

definition put_receiver :: "'a \<Rightarrow> 'd receiver \<Rightarrow> ('a, 'd) wire_state \<Rightarrow> ('a, 'd) wire_state" where
  "put_receiver from r self = self\<lparr>receivers := AList.update from r (receivers self)\<rparr>"

text \<open>The entry of a sender, made when it is missing; \<open>None\<close> when there are too many senders.\<close>

definition get_receiver :: "nat \<Rightarrow> 'a \<Rightarrow> ('a, 'd) wire_state \<Rightarrow> ('d receiver \<times> ('a, 'd) wire_state) option" where
  "get_receiver MAX_NODES from self =
     (case map_of (receivers self) from of
        Some r \<Rightarrow> Some (r, self)
      | None \<Rightarrow>
          (let r = \<lparr>last_completed = None, reader = None\<rparr> in
           map_option (\<lambda>rs. (r, self\<lparr>receivers := rs\<rparr>)) (index_map_insert MAX_NODES from r (receivers self))))"

text \<open>
  The packet goes to the reader; one of another message makes a new reader. \<open>Ok None\<close> is the early
  return of the packets that are only logged.
\<close>

definition accept_or_restart ::
  "('d, 'k) raptorq \<Rightarrow> u16 \<Rightarrow> 'd receiver \<Rightarrow> 'd wire_reader \<Rightarrow> u8 list \<Rightarrow>
     (u8 list option option, wire_error) result \<times> 'd receiver" where
  "accept_or_restart R m receive_info receiver data =
     (case accept_packet R receiver data of
        (Ok r, receiver) \<Rightarrow> (Ok (Some r), receive_info\<lparr>reader := Some receiver\<rparr>)
      | (Err (WrongBlock found), receiver) \<Rightarrow>
          (case wire_reader_new R data m of
             Ok receiver \<Rightarrow>
               (case accept_packet R receiver data of
                  (Ok r, receiver) \<Rightarrow> (Ok (Some r), receive_info\<lparr>reader := Some receiver\<rparr>)
                | (Err e, receiver) \<Rightarrow> (Ok None, receive_info)
                | (Panic, receiver) \<Rightarrow> (Panic, receive_info))
           | Err e \<Rightarrow> (Ok None, receive_info)
           | Panic \<Rightarrow> (Panic, receive_info))
      | (Err e, receiver) \<Rightarrow> (Ok None, receive_info\<lparr>reader := Some receiver\<rparr>)
      | (Panic, receiver) \<Rightarrow> (Panic, receive_info))"

definition open_reader ::
  "('d, 'k) raptorq \<Rightarrow> u16 \<Rightarrow> 'd receiver \<Rightarrow> u8 list \<Rightarrow> ('d wire_reader option, wire_error) result" where
  "open_reader R m receive_info data =
     (case reader receive_info of
        Some receiver \<Rightarrow> Ok (Some receiver)
      | None \<Rightarrow>
          (case wire_reader_new R data m of Ok r \<Rightarrow> Ok (Some r) | Err e \<Rightarrow> Ok None | Panic \<Rightarrow> Panic))"

definition receive_for ::
  "('c, 's, 'p, 'i, 'd, 'k) wire_deps \<Rightarrow> ('a, 'd) wire_state \<Rightarrow> 'a \<Rightarrow> 'd receiver \<Rightarrow> u16 \<Rightarrow> u8 list \<Rightarrow>
     ('c, 's, 'p, 'i) client \<Rightarrow> (unit, wire_error) result \<times> ('a, 'd) wire_state" where
  "receive_for W self from receive_info number data client =
     (if last_completed receive_info = Some number then (Ok (), self) else
      or_return (open_reader (wd_raptorq W) (mtu self) receive_info data) self (\<lambda>opened.
      case opened of None \<Rightarrow> (Ok (), self) | Some receiver \<Rightarrow>
      let receive_info = receive_info\<lparr>reader := Some receiver\<rparr>;
          (result, receive_info) = accept_or_restart (wd_raptorq W) (mtu self) receive_info receiver data;
          self = put_receiver from receive_info self in
      or_return result self (\<lambda>result.
      case result of
        Some (Some bytes) \<Rightarrow>
          (case from_bytes (wd_messages W) bytes of
             Ok command \<Rightarrow>
               (let self = put_receiver from (receive_info\<lparr>last_completed := Some number\<rparr>) self in
                process_message W self command client)
           | _ \<Rightarrow> (Panic, self))
      | _ \<Rightarrow> (Ok (), self))))"

definition receive_packet ::
  "('c, 's, 'p, 'i, 'd, 'k) wire_deps \<Rightarrow> ('a, 'd) wire_state \<Rightarrow> u8 list \<Rightarrow> 'a \<Rightarrow> ('c, 's, 'p, 'i) client \<Rightarrow>
     (unit, wire_error) result \<times> ('a, 'd) wire_state" where
  "receive_packet W self data from client =
     (case check_packet data of
        Err e \<Rightarrow> (Ok (), self)
      | Panic \<Rightarrow> (Panic, self)
      | Ok received_message_number \<Rightarrow>
          (case get_receiver (d_max_nodes (wd_client W)) from self of
             None \<Rightarrow> (Ok (), self)
           | Some (receive_info, self) \<Rightarrow>
               receive_for W self from receive_info received_message_number data client))"

subsection \<open>Polling\<close>

definition poll_message ::
  "('c, 's, 'p, 'i, 'd, 'k) wire_deps \<Rightarrow> ('a, 'd) wire_state \<Rightarrow> u64 \<Rightarrow> u8 \<Rightarrow> channel_id list \<Rightarrow>
     ('c, 's, 'p, 'i) client \<Rightarrow> (network_protocol option, wire_error) result \<times> ('a, 'd) wire_state" where
  "poll_message W self now peers channel_ids client =
     (let pending = to_send self;
          self = self\<lparr>to_send := None\<rparr> in
      case pending of
        Some msg \<Rightarrow> (Ok (Some msg), self)
      | None \<Rightarrow>
          if now < next_hello self then (Ok None, self)
          else
            or_return (word_add now (hello_duration self)) self (\<lambda>t.
            let self = self\<lparr>next_hello := t\<rparr> in
            or_return (make_hello W peers channel_ids client) self (\<lambda>hello. (Ok (Some hello), self))))"

text \<open>A message is serialised into the buffer, and a writer made for its packets.\<close>

definition poll_send ::
  "('c, 's, 'p, 'i, 'd, 'k) wire_deps \<Rightarrow> ('a, 'd) wire_state \<Rightarrow> u8 list \<Rightarrow> u64 \<Rightarrow> u32 \<Rightarrow> network_protocol \<Rightarrow>
     ('k poll_result, wire_error) result \<times> ('a, 'd) wire_state \<times> u8 list" where
  "poll_send W self buffer now repair_count msg =
     (let (wrote, buffer) = to_slice (wd_messages W) msg buffer in
      or_return (map_err DeserializeError wrote) (self, buffer) (\<lambda>wrote.
      or_return (wire_writer_new (wd_raptorq W) (next_message_number self) (mtu self) wrote repair_count)
        (self, buffer) (\<lambda>writer.
      let self = self\<lparr>next_message_number := next_message_number self + 1\<rparr> in
      or_return (word_add (hello_duration self) now) (self, buffer) (\<lambda>t.
      (Ok \<lparr>next_poll = t, poll_writer = Some writer\<rparr>, self, buffer)))))"

definition poll ::
  "('c, 's, 'p, 'i, 'd, 'k) wire_deps \<Rightarrow> ('a, 'd) wire_state \<Rightarrow> u8 list \<Rightarrow> u64 \<Rightarrow> u8 \<Rightarrow> channel_id list \<Rightarrow> u32 \<Rightarrow>
     ('c, 's, 'p, 'i) client \<Rightarrow> ('k poll_result, wire_error) result \<times> ('a, 'd) wire_state \<times> u8 list" where
  "poll W self buffer now peers channel_ids repair_count client =
     (let (maybe_message, self) = poll_message W self now peers channel_ids client in
      or_return maybe_message (self, buffer) (\<lambda>maybe_message.
      case maybe_message of
        Some msg \<Rightarrow> poll_send W self buffer now repair_count msg
      | None \<Rightarrow>
          or_return (word_sub (next_hello self) now) (self, buffer) (\<lambda>t.
          (Ok \<lparr>next_poll = t, poll_writer = None\<rparr>, self, buffer))))"

end
