(* ===== verification/Wire_Facts.thy ===== *)
theory Wire_Facts
  imports Wire
begin

text \<open>
  Lemmas on the wire's state machine: what processing a message does to the state, apart from the
  receivers; what a receiver holds while it collects the packets of a message (\<open>awaiting\<close>); and that
  any sequence of packets of a message that contains all of them completes it once.
\<close>

subsection \<open>What a message changes\<close>

text \<open>What processing a message leaves alone: everything but the pending message and the session number.\<close>

definition wire_frame :: "('a, 'd) wire_state \<Rightarrow> ('a, 'd) wire_state \<Rightarrow> bool" where
  "wire_frame s t \<longleftrightarrow> t = s\<lparr>next_session_id := next_session_id t, to_send := to_send t\<rparr>"

lemma wire_frame_refl [simp, intro]: "wire_frame s s"
  by (simp add: wire_frame_def)

lemma wire_frame_trans [trans]: "wire_frame s t \<Longrightarrow> wire_frame t u \<Longrightarrow> wire_frame s u"
  unfolding wire_frame_def by (cases s, cases t, cases u) simp

lemma wire_frame_simps:
  assumes "wire_frame s t"
  shows "receivers t = receivers s" "mtu t = mtu s" "next_hello t = next_hello s"
    "hello_duration t = hello_duration s" "next_message_number t = next_message_number s"
    "bytes_budget t = bytes_budget s"
  using assms by (cases s; cases t; simp add: wire_frame_def)+

lemma make_sync_request_frame:
  assumes "make_sync_request W s cid c = (r, t)"
  shows "t = s\<lparr>next_session_id := next_session_id s + 1\<rparr>" "r \<noteq> Panic"
    "r = Ok m \<Longrightarrow> \<exists>req. m = SyncRequest req \<and> length (req_vector_clock req) \<le> d_max_nodes (wd_client W)"
proof -
  let ?req = "\<lparr>req_session_id = next_session_id s, req_bytes_budget = bytes_budget s, req_vector_clock = []\<rparr>"
  obtain f req where f: "finish_sync_request (wd_client W) c cid ?req = (f, req)" by fastforce
  have "f \<noteq> Panic" "length (req_vector_clock req) \<le> d_max_nodes (wd_client W)"
    using finish_sync_request_not_Panic [of "wd_client W" c cid ?req]
      finish_sync_request_bounded [of ?req "wd_client W" c cid] by (simp_all add: f)
  then show "t = s\<lparr>next_session_id := next_session_id s + 1\<rparr>" "r \<noteq> Panic"
    "r = Ok m \<Longrightarrow> \<exists>req. m = SyncRequest req \<and> length (req_vector_clock req) \<le> d_max_nodes (wd_client W)"
    using assms by (cases f; auto simp: make_sync_request_def f Let_def)+
qed

text \<open>The invariant of the pending message: it is a request that fits its vector.\<close>

definition pending_ok :: "nat \<Rightarrow> network_protocol option \<Rightarrow> bool" where
  "pending_ok M p \<longleftrightarrow>
     (case p of None \<Rightarrow> True | Some (SyncRequest r) \<Rightarrow> length (req_vector_clock r) \<le> M | Some _ \<Rightarrow> False)"

lemma pending_ok_simps [simp]:
  "pending_ok M None" "pending_ok M (Some (SyncRequest r)) \<longleftrightarrow> length (req_vector_clock r) \<le> M"
  by (simp_all add: pending_ok_def)

lemma request_if_idle_frame:
  assumes "request_if_idle W s cid c = (r, t)"
  shows "wire_frame s t" "r \<noteq> Panic"
    "pending_ok (d_max_nodes (wd_client W)) (to_send s) \<Longrightarrow> pending_ok (d_max_nodes (wd_client W)) (to_send t)"
    "to_send s \<noteq> None \<Longrightarrow> t = s"
proof -
  obtain m u where m: "make_sync_request W s cid c = (m, u)" by fastforce
  note facts = make_sync_request_frame [OF m]
  show "wire_frame s t" "r \<noteq> Panic"
    "pending_ok (d_max_nodes (wd_client W)) (to_send s) \<Longrightarrow> pending_ok (d_max_nodes (wd_client W)) (to_send t)"
    "to_send s \<noteq> None \<Longrightarrow> t = s"
    using assms facts
    by (cases m; auto simp: request_if_idle_def m wire_frame_def split: if_splits)+
qed

lemma client_message_count_cases:
  "client_message_count self cid =
    (case map_of (cl_channels self) cid of None \<Rightarrow> Err UnknownChannel | Some ch \<Rightarrow> Ok (message_count (ch_chat ch)))"
  by (cases "map_of (cl_channels self) cid") (simp_all add: client_message_count_def find_channel_def)

lemma process_infos_frame:
  "process_infos W s infos c = (r, t) \<Longrightarrow>
    wire_frame s t \<and> r \<noteq> Panic \<and>
    (pending_ok (d_max_nodes (wd_client W)) (to_send s) \<longrightarrow> pending_ok (d_max_nodes (wd_client W)) (to_send t)) \<and>
    (to_send s \<noteq> None \<longrightarrow> t = s)"
proof (induction infos arbitrary: s r t)
  case Nil
  then show ?case by auto
next
  case (Cons info infos)
  obtain q u where q: "request_if_idle W s (ci_channel_id info) c = (q, u)" by fastforce
  note step = request_if_idle_frame [OF q]
  have again: "?case" if "or_return q u (\<lambda>_. process_infos W u infos c) = (r, t)"
    using that step Cons.IH [of u r t] by (cases q) (auto intro: wire_frame_trans)
  show ?case
    using Cons.prems again
    by (auto simp: Let_def q client_message_count_cases split: option.splits)
qed

lemma process_message_frame:
  assumes "process_message W s m c = (r, t)"
  shows "wire_frame s t" "r \<noteq> Panic"
    "pending_ok (d_max_nodes (wd_client W)) (to_send s) \<Longrightarrow> pending_ok (d_max_nodes (wd_client W)) (to_send t)"
    "to_send s \<noteq> None \<Longrightarrow> t = s"
  using assms process_infos_frame by (cases m; fastforce simp: process_message_def)+

text \<open>Processing a message does not look at the receivers.\<close>

definition with_receivers :: "('a \<times> 'd receiver) list \<Rightarrow> ('a, 'd) wire_state \<Rightarrow> ('a, 'd) wire_state" where
  "with_receivers rs s = s\<lparr>receivers := rs\<rparr>"

lemma with_receivers_simps [simp]:
  "receivers (with_receivers rs s) = rs" "to_send (with_receivers rs s) = to_send s" "mtu (with_receivers rs s) = mtu s"
  "with_receivers rs (with_receivers rs' s) = with_receivers rs s" "with_receivers (receivers s) s = s"
  by (simp_all add: with_receivers_def)

lemma make_sync_request_with_receivers:
  "make_sync_request W (with_receivers rs s) cid c = map_prod (\<lambda>r. r) (with_receivers rs) (make_sync_request W s cid c)"
proof -
  let ?req = "\<lparr>req_session_id = next_session_id s, req_bytes_budget = bytes_budget s, req_vector_clock = []\<rparr>"
  obtain f req where "finish_sync_request (wd_client W) c cid ?req = (f, req)" by fastforce
  then show ?thesis by (cases f) (simp_all add: make_sync_request_def with_receivers_def Let_def)
qed

lemma request_if_idle_with_receivers:
  "request_if_idle W (with_receivers rs s) cid c = map_prod (\<lambda>r. r) (with_receivers rs) (request_if_idle W s cid c)"
proof -
  obtain f t where "make_sync_request W s cid c = (f, t)" by fastforce
  then show ?thesis
    by (cases f) (simp_all add: request_if_idle_def make_sync_request_with_receivers, simp_all add: with_receivers_def)
qed

lemma process_infos_with_receivers:
  "process_infos W (with_receivers rs s) infos c = map_prod (\<lambda>r. r) (with_receivers rs) (process_infos W s infos c)"
proof (induction infos arbitrary: s)
  case (Cons info infos)
  obtain q u where q: "request_if_idle W s (ci_channel_id info) c = (q, u)" by fastforce
  have "or_return q (with_receivers rs u) (\<lambda>_. process_infos W (with_receivers rs u) infos c)
      = map_prod (\<lambda>r. r) (with_receivers rs) (or_return q u (\<lambda>_. process_infos W u infos c))"
    by (cases q) (simp_all add: Cons.IH)
  then show ?case
    by (simp add: Let_def q request_if_idle_with_receivers client_message_count_cases split: option.split)
qed simp

lemma process_message_with_receivers:
  "process_message W (with_receivers rs s) m c = map_prod (\<lambda>r. r) (with_receivers rs) (process_message W s m c)"
  by (cases m) (simp_all add: process_message_def process_infos_with_receivers)

subsection \<open>Collecting a message\<close>

text \<open>
  \<open>ready R data w ps info\<close>: a receiver has either taken the packets \<open>ps\<close> of the message, or it holds
  no reader, or one of another message, and will start with the next packet.
\<close>

definition ready :: "('d, 'k) raptorq \<Rightarrow> u8 list \<Rightarrow> 'k wire_writer \<Rightarrow> 'k list \<Rightarrow> 'd receiver \<Rightarrow> bool" where
  "ready R data w ps info \<longleftrightarrow>
     (case reader info of
        None \<Rightarrow> ps = []
      | Some rd \<Rightarrow>
          if wr_message_number rd = ww_message_number w \<and> wr_transfer_length rd = ww_transfer_length w
          then collected R data (ww_encoded w) ps (wr_decoder rd)
          else ps = [])"

lemma reader_accepts:
  assumes R: "raptorq_ok R" and fit: "packets_fit R cap w" "cap < usize_limit" and k: "k \<in> set (ww_encoded w)"
    and rd: "wr_message_number rd = ww_message_number w" "wr_transfer_length rd = ww_transfer_length w"
      "collected R data (ww_encoded w) ps (wr_decoder rd)"
  shows "\<exists>r rd'. accept_packet R rd (writer_packet R w k) = (Ok r, rd') \<and>
    ready R data w (ps @ [k]) (info\<lparr>reader := Some rd'\<rparr>) \<and>
    (r = None \<or> r = Some data) \<and> (set (ww_encoded w) \<subseteq> set (ps @ [k]) \<longrightarrow> r = Some data)"
proof -
  from accept_writer_packet [OF R k fit rd] obtain r d where
      "accept_packet R rd (writer_packet R w k) = (Ok r, rd\<lparr>wr_decoder := d\<rparr>)" "collected R data (ww_encoded w) (ps @ [k]) d"
      "r = None \<or> r = Some data" "set (ww_encoded w) \<subseteq> set (ps @ [k]) \<longrightarrow> r = Some data" by blast
  with rd(1,2) show ?thesis
    by (intro exI [of _ r] exI [of _ "rd\<lparr>wr_decoder := d\<rparr>"]) (simp add: ready_def)
qed

lemma accept_when_ready:
  assumes R: "raptorq_ok R" and new: "wire_writer_new R n m data rep = Ok w"
    and fit: "packets_fit R cap w" "cap < usize_limit" and k: "k \<in> set (ww_encoded w)"
    and ready: "ready R data w ps info"
  obtains rd r info' where "open_reader R m info (writer_packet R w k) = Ok (Some rd)"
    "accept_or_restart R m (info\<lparr>reader := Some rd\<rparr>) rd (writer_packet R w k) = (Ok (Some r), info')"
    "ready R data w (ps @ [k]) info'" "last_completed info' = last_completed info" "r = None \<or> r = Some data"
    "set (ww_encoded w) \<subseteq> set (ps @ [k]) \<Longrightarrow> r = Some data"
proof -
  note result = that
  let ?p = "writer_packet R w k"
  have n: "ww_message_number w = n" using wire_writer_new_Ok [OF R new] by blast
  note accepts = reader_accepts [OF R fit k, of _ data ps info]
  obtain nw where nw: "wire_reader_new R ?p m = Ok nw" "wr_message_number nw = ww_message_number w"
      "wr_transfer_length nw = ww_transfer_length w" "collected R data (ww_encoded w) [] (wr_decoder nw)"
    using reader_of_writer_packet [OF R new fit k] n by metis
  have len: "length (rq_serialize R k) + 6 < usize_limit" using fit k by (fastforce simp: packets_fit_def)
  have done_with: thesis
    if "open_reader R m info ?p = Ok (Some rd)" "accept_or_restart R m (info\<lparr>reader := Some rd\<rparr>) rd ?p
        = (Ok (Some r), info\<lparr>reader := Some rd'\<rparr>)" "ready R data w (ps @ [k]) (info\<lparr>reader := Some rd'\<rparr>)"
      "r = None \<or> r = Some data" "set (ww_encoded w) \<subseteq> set (ps @ [k]) \<longrightarrow> r = Some data" for rd r rd'
    using that by (intro result [of rd r "info\<lparr>reader := Some rd'\<rparr>"]) auto
  show thesis
  proof (cases "reader info")
    case None
    then have "ps = []" using ready by (simp add: ready_def)
    with accepts [of nw] nw obtain r rd' where "accept_packet R nw ?p = (Ok r, rd')"
        "ready R data w (ps @ [k]) (info\<lparr>reader := Some rd'\<rparr>)" "r = None \<or> r = Some data"
        "set (ww_encoded w) \<subseteq> set (ps @ [k]) \<longrightarrow> r = Some data" by blast
    then show thesis
      using None nw(1) by (intro done_with [of nw r rd']) (simp_all add: open_reader_def accept_or_restart_def)
  next
    case (Some rd)
    note rd = Some
    show thesis
    proof (cases "wr_message_number rd = ww_message_number w \<and> wr_transfer_length rd = ww_transfer_length w")
      case True
      then have "collected R data (ww_encoded w) ps (wr_decoder rd)" using ready by (simp add: ready_def rd)
      with accepts [of rd] True obtain r rd' where "accept_packet R rd ?p = (Ok r, rd')"
          "ready R data w (ps @ [k]) (info\<lparr>reader := Some rd'\<rparr>)" "r = None \<or> r = Some data"
          "set (ww_encoded w) \<subseteq> set (ps @ [k]) \<longrightarrow> r = Some data" by blast
      then show thesis
        using rd by (intro done_with [of rd r rd']) (simp_all add: open_reader_def accept_or_restart_def)
    next
      case False
      then have "ps = []" using ready by (auto simp: ready_def rd)
      with accepts [of nw] nw obtain r rd' where "accept_packet R nw ?p = (Ok r, rd')"
          "ready R data w (ps @ [k]) (info\<lparr>reader := Some rd'\<rparr>)" "r = None \<or> r = Some data"
          "set (ww_encoded w) \<subseteq> set (ps @ [k]) \<longrightarrow> r = Some data" by blast
      moreover have "accept_packet R rd ?p = (Err (WrongBlock (ww_message_number w)), rd)"
        using accept_packet_header [OF len, of R rd] False by (auto simp: writer_packet_def)
      ultimately show thesis
        using rd nw(1) by (intro done_with [of rd r rd']) (simp_all add: open_reader_def accept_or_restart_def)
    qed
  qed
qed

text \<open>\<open>waiting M R data w ps a s\<close>: the state is ready for the packets of \<open>w\<close> from the sender \<open>a\<close>.\<close>

definition waiting ::
  "nat \<Rightarrow> ('d, 'k) raptorq \<Rightarrow> u8 list \<Rightarrow> 'k wire_writer \<Rightarrow> 'k list \<Rightarrow> 'a \<Rightarrow> ('a, 'd) wire_state \<Rightarrow> bool" where
  "waiting M R data w ps a s \<longleftrightarrow>
     (case map_of (receivers s) a of
        None \<Rightarrow> ps = [] \<and> length (receivers s) < M
      | Some info \<Rightarrow> last_completed info \<noteq> Some (ww_message_number w) \<and> ready R data w ps info)"

lemma update_update: "AList.update k v (AList.update k v' al) = AList.update k v al"
  by (induction al) auto

lemma put_receiver_simps [simp]:
  "put_receiver a r (put_receiver a r' s) = put_receiver a r s"
  "map_of (receivers (put_receiver a r s)) b = (if b = a then Some r else map_of (receivers s) b)"
  "mtu (put_receiver a r s) = mtu s" "to_send (put_receiver a r s) = to_send s"
  by (simp_all add: put_receiver_def update_update update_conv')

lemma put_receiver_with_receivers:
  "put_receiver a r s = with_receivers (AList.update a r (receivers s)) s"
  by (simp add: put_receiver_def with_receivers_def)

text \<open>What completing a message does: it is parsed, noted as completed, and processed.\<close>

definition complete_message ::
  "('c, 's, 'p, 'i, 'd, 'k) wire_deps \<Rightarrow> ('a, 'd) wire_state \<Rightarrow> 'a \<Rightarrow> 'd receiver \<Rightarrow> u16 \<Rightarrow> u8 list \<Rightarrow>
     ('c, 's, 'p, 'i) client \<Rightarrow> (unit, wire_error) result \<times> ('a, 'd) wire_state" where
  "complete_message W self a info n bytes client =
     (case from_bytes (wd_messages W) bytes of
        Ok command \<Rightarrow> process_message W (put_receiver a (info\<lparr>last_completed := Some n\<rparr>) self) command client
      | _ \<Rightarrow> (Panic, put_receiver a info self))"

lemma receive_for_accepted:
  assumes "last_completed info \<noteq> Some n" "open_reader (wd_raptorq W) (mtu s) info d = Ok (Some rd)"
    "accept_or_restart (wd_raptorq W) (mtu s) (info\<lparr>reader := Some rd\<rparr>) rd d = (Ok (Some r), info')"
  shows "receive_for W s a info n d c =
    (case r of None \<Rightarrow> (Ok (), put_receiver a info' s) | Some bytes \<Rightarrow> complete_message W s a info' n bytes c)"
  using assms by (simp add: receive_for_def complete_message_def Let_def split: option.split result.split)

lemma receive_expected:
  assumes R: "raptorq_ok (wd_raptorq W)" and new: "wire_writer_new (wd_raptorq W) n (mtu s) data rep = Ok w"
    and fit: "packets_fit (wd_raptorq W) cap w" "cap < usize_limit" and k: "k \<in> set (ww_encoded w)"
    and waiting: "waiting (d_max_nodes (wd_client W)) (wd_raptorq W) data w ps a s"
  obtains r info' where "ready (wd_raptorq W) data w (ps @ [k]) info'" "last_completed info' \<noteq> Some n"
    "r = None \<or> r = Some data" "set (ww_encoded w) \<subseteq> set (ps @ [k]) \<Longrightarrow> r = Some data"
    "receive_packet W s (writer_packet (wd_raptorq W) w k) a c =
      (case r of None \<Rightarrow> (Ok (), put_receiver a info' s) | Some bytes \<Rightarrow> complete_message W s a info' n bytes c)"
proof -
  let ?R = "wd_raptorq W" and ?p = "writer_packet (wd_raptorq W) w k"
  have n: "ww_message_number w = n" using wire_writer_new_Ok [OF R new] by blast
  have len: "length (rq_serialize ?R k) + 6 < usize_limit" using fit k by (fastforce simp: packets_fit_def)
  have check: "check_packet ?p = Ok n"
    using check_packet_header [OF len] n by (simp add: writer_packet_def)
  obtain info s' where get: "get_receiver (d_max_nodes (wd_client W)) a s = Some (info, s')"
      and info: "last_completed info \<noteq> Some n" "ready ?R data w ps info"
      and s': "mtu s' = mtu s" "\<And>r. put_receiver a r s' = put_receiver a r s"
  proof (cases "map_of (receivers s) a")
    case None
    with waiting have "ps = []" "length (receivers s) < d_max_nodes (wd_client W)" by (simp_all add: waiting_def)
    then show thesis
      using None by (intro that [of "\<lparr>last_completed = None, reader = None\<rparr>" "put_receiver a \<lparr>last_completed = None, reader = None\<rparr> s"])
        (simp_all add: get_receiver_def index_map_insert_def ready_def Let_def put_receiver_def update_update)
  next
    case (Some info)
    with waiting n show thesis by (intro that [of info s]) (simp_all add: waiting_def get_receiver_def)
  qed
  obtain rd r info' where acc: "open_reader ?R (mtu s) info ?p = Ok (Some rd)"
      "accept_or_restart ?R (mtu s) (info\<lparr>reader := Some rd\<rparr>) rd ?p = (Ok (Some r), info')"
      "ready ?R data w (ps @ [k]) info'" "last_completed info' = last_completed info" "r = None \<or> r = Some data"
      "set (ww_encoded w) \<subseteq> set (ps @ [k]) \<Longrightarrow> r = Some data"
    using accept_when_ready [OF R new fit k info(2)] by blast
  have "receive_packet W s ?p a c = receive_for W s' a info n ?p c"
    by (simp add: receive_packet_def check get)
  also have "\<dots> = (case r of None \<Rightarrow> (Ok (), put_receiver a info' s') | Some bytes \<Rightarrow> complete_message W s' a info' n bytes c)"
    by (rule receive_for_accepted) (use info(1) acc(1,2) s'(1) in simp_all)
  finally have "receive_packet W s ?p a c =
      (case r of None \<Rightarrow> (Ok (), put_receiver a info' s) | Some bytes \<Rightarrow> complete_message W s a info' n bytes c)"
    by (cases r) (simp_all add: s'(2) complete_message_def split: result.split)
  then show thesis using acc info(1) by (intro that [of info' r]) simp_all
qed

lemma receive_extra:
  assumes "check_packet d = Ok n" "map_of (receivers s) a = Some info" "last_completed info = Some n"
  shows "receive_packet W s d a c = (Ok (), s)"
  using assms by (simp add: receive_packet_def get_receiver_def receive_for_def)

subsection \<open>A run of packets\<close>

fun receive_all ::
  "('c, 's, 'p, 'i, 'd, 'k) wire_deps \<Rightarrow> ('a, 'd) wire_state \<Rightarrow> u8 list list \<Rightarrow> 'a \<Rightarrow> ('c, 's, 'p, 'i) client \<Rightarrow>
     (unit, wire_error) result list \<times> ('a, 'd) wire_state" where
  "receive_all W s [] a c = ([], s)"
| "receive_all W s (d # ds) a c =
     (let (r, s) = receive_packet W s d a c; (rs, s) = receive_all W s ds a c in (r # rs, s))"

lemma length_receive_all: "length (fst (receive_all W s ds a c)) = length ds"
  by (induction ds arbitrary: s) (auto split: prod.split simp: Let_def, metis fst_conv)

lemma receive_all_extra:
  assumes "\<forall>d \<in> set ds. check_packet d = Ok n" "map_of (receivers s) a = Some info" "last_completed info = Some n"
  shows "receive_all W s ds a c = (replicate (length ds) (Ok ()), s)"
  using assms by (induction ds) (simp_all add: receive_extra)

lemma check_writer_packets:
  assumes "packets_fit R cap w" "cap < usize_limit" "set ks \<subseteq> set (ww_encoded w)"
  shows "\<forall>d \<in> set (map (writer_packet R w) ks). check_packet d = Ok (ww_message_number w)"
proof -
  have "length (rq_serialize R k) + 6 < usize_limit" if "k \<in> set ks" for k
    using assms that by (fastforce simp: packets_fit_def)
  then show ?thesis by (simp add: writer_packet_def)
qed

lemma receive_all_completes:
  assumes R: "raptorq_ok (wd_raptorq W)"
    and fit: "packets_fit (wd_raptorq W) cap w" "cap < usize_limit"
    and parsed: "from_bytes (wd_messages W) data = Ok m"
  shows "waiting (d_max_nodes (wd_client W)) (wd_raptorq W) data w ps a s \<Longrightarrow> set ks \<subseteq> set (ww_encoded w) \<Longrightarrow>
    set (ww_encoded w) \<subseteq> set (ps @ ks) \<Longrightarrow> \<not> set (ww_encoded w) \<subseteq> set ps \<Longrightarrow> mtu s = mt \<Longrightarrow>
    wire_writer_new (wd_raptorq W) n mt data rep = Ok w \<Longrightarrow>
    \<exists>i info j. receive_all W s (map (writer_packet (wd_raptorq W) w) ks) a c =
      (replicate i (Ok ()) @ fst (process_message W s m c) # replicate j (Ok ()),
       put_receiver a (info\<lparr>last_completed := Some n\<rparr>) (snd (process_message W s m c)))"
proof (induction ks arbitrary: ps s)
  case Nil
  then show ?case by simp
next
  case (Cons k ks)
  let ?R = "wd_raptorq W"
  let ?p = "writer_packet ?R w k"
  have new: "wire_writer_new ?R n (mtu s) data rep = Ok w" and k: "k \<in> set (ww_encoded w)"
    using Cons.prems(2,5,6) by simp_all
  obtain r info where r: "ready ?R data w (ps @ [k]) info" "last_completed info \<noteq> Some n"
      "r = None \<or> r = Some data" "set (ww_encoded w) \<subseteq> set (ps @ [k]) \<Longrightarrow> r = Some data"
      "receive_packet W s ?p a c =
        (case r of None \<Rightarrow> (Ok (), put_receiver a info s) | Some bytes \<Rightarrow> complete_message W s a info n bytes c)"
    by (rule receive_expected [OF R new fit k Cons.prems(1), where c = c]) (rule that)
  have n: "ww_message_number w = n" using wire_writer_new_Ok [OF R Cons.prems(6)] by blast
  show ?case
  proof (cases r)
    case None
    let ?s = "put_receiver a info s"
    have "waiting (d_max_nodes (wd_client W)) ?R data w (ps @ [k]) a ?s"
      using r(1,2) n by (simp add: waiting_def)
    from Cons.IH [OF this] None r(4) Cons.prems obtain i info' j where
        "receive_all W ?s (map (writer_packet ?R w) ks) a c =
          (replicate i (Ok ()) @ fst (process_message W ?s m c) # replicate j (Ok ()),
           put_receiver a (info'\<lparr>last_completed := Some n\<rparr>) (snd (process_message W ?s m c)))" by auto
    moreover have "receivers (snd (process_message W s m c)) = receivers s"
      using process_message_frame(1) wire_frame_simps(1) by (metis prod.collapse)
    ultimately show ?thesis
      using r(5) None
      by - (rule exI [of _ "Suc i"], rule exI [of _ info'], rule exI [of _ j],
        simp add: put_receiver_with_receivers process_message_with_receivers update_update)
  next
    case (Some bytes)
    let ?s = "put_receiver a (info\<lparr>last_completed := Some n\<rparr>) s"
    have rp: "receive_packet W s ?p a c = process_message W ?s m c"
      using r(3,5) Some parsed by (simp add: complete_message_def)
    obtain q t where q: "process_message W s m c = (q, t)" by fastforce
    have t: "receivers t = receivers s" using process_message_frame(1) [OF q] wire_frame_simps(1) by blast
    have after: "process_message W ?s m c = (q, put_receiver a (info\<lparr>last_completed := Some n\<rparr>) t)"
      using q t by (simp add: put_receiver_with_receivers process_message_with_receivers)
    have "\<forall>d \<in> set (map (writer_packet ?R w) ks). check_packet d = Ok n"
      using check_writer_packets [OF fit, of ks] Cons.prems(2) by (simp add: n)
    from receive_all_extra [OF this, of "put_receiver a (info\<lparr>last_completed := Some n\<rparr>) t" a
        "info\<lparr>last_completed := Some n\<rparr>" W c]
    show ?thesis
      by - (rule exI [of _ 0], rule exI [of _ info], rule exI [of _ "length ks"], simp add: rp after q)
  qed
qed

end
