(* ===== verification/Wire_Demo.thy ===== *)
theory Wire_Demo
  imports Wire_Facts Demo
begin

text \<open>
  Concrete parameters of the wire, for the witnesses: a code that cuts a message into two tagged
  halves and gives it back when both have arrived, in any order, and an encoding of the messages of
  the network.
\<close>

subsection \<open>A code with two packets\<close>

fun demo_decode :: "u8 list option \<times> u8 list option \<Rightarrow> u8 list \<Rightarrow>
    (u8 list option, wire_error) result \<times> u8 list option \<times> u8 list option" where
  "demo_decode d [] = (Ok None, d)"
| "demo_decode (a, b) (t # c) =
     (let (a, b) = (if t = 0 then (Some c, b) else (a, Some c)) in
      (Ok (case a of None \<Rightarrow> None | Some x \<Rightarrow> map_option (\<lambda>y. x @ y) b), a, b))"

definition demo_raptorq :: "(u8 list option \<times> u8 list option, u8 list) raptorq" where
  "demo_raptorq =
     \<lparr>rq_decoder_new = (\<lambda>len m. Ok (None, None)), rq_decode = demo_decode,
      rq_encode = (\<lambda>data m rep. Ok [0 # take (length data div 2) data, 1 # drop (length data div 2) data]),
      rq_serialize = (\<lambda>p. p), rq_deserialize = (\<lambda>bs. Ok bs)\<rparr>"

lemma demo_feed:
  "set ps \<subseteq> {0 # x, 1 # y} \<Longrightarrow>
    rq_feed demo_raptorq (a, b) ps
      = Ok (if 0 # x \<in> set ps then Some x else a, if 1 # y \<in> set ps then Some y else b)"
proof (induction ps arbitrary: a b)
  case Nil
  then show ?case by (simp add: demo_raptorq_def)
next
  case (Cons p ps)
  then show ?case by (auto simp: demo_raptorq_def)
qed

lemma demo_raptorq_ok: "raptorq_ok demo_raptorq"
proof -
  have "decodes demo_raptorq data [0 # x, 1 # y] (None, None)" if "data = x @ y" for data x y :: "u8 list"
    unfolding decodes_def
  proof (intro allI impI)
    fix ps :: "u8 list list" and p :: "u8 list"
    assume "set (ps @ [p]) \<subseteq> set [0 # x, 1 # y]"
    then have sub: "set ps \<subseteq> {0 # x, 1 # y}" and p: "p = 0 # x \<or> p = 1 # y" by auto
    show "\<exists>d r. rq_feed demo_raptorq (None, None) ps = Ok d \<and> fst (rq_decode demo_raptorq d p) = Ok r \<and>
        (r = None \<or> r = Some data) \<and> (set [0 # x, 1 # y] \<subseteq> set (ps @ [p]) \<longrightarrow> r = Some data)"
      unfolding demo_feed [OF sub] using p that by (auto simp: demo_raptorq_def split: option.split)
  qed
  from this [of data "take (length data div 2) data" "drop (length data div 2) data" for data]
  show ?thesis by (simp add: raptorq_ok_def, simp add: demo_raptorq_def)
qed

subsection \<open>Messages\<close>

definition enc_info :: "channel_info \<Rightarrow> u8 list" where
  "enc_info i = channel_id_to_be_bytes (ci_channel_id i) @ to_be_bytes (ci_message_count i)"

definition enc_clock :: "sync_clock \<Rightarrow> u8 list" where
  "enc_clock c = node_id_to_be_bytes (clk_node c) @ to_be_bytes (clk_sequence c)"

function chunks :: "(u8 list \<Rightarrow> 'a) \<Rightarrow> u8 list \<Rightarrow> 'a list" where
  "chunks f bs = (if length bs < 40 then [] else f (take 40 bs) # chunks f (drop 40 bs))"
  by pat_completeness auto
termination by (relation "measure (\<lambda>(f, bs). length bs)") auto

declare chunks.simps [simp del]

lemma chunks_concat:
  "(\<And>x. length (enc x) = 40) \<Longrightarrow> (\<And>x. f (enc x) = x) \<Longrightarrow> chunks f (concat (map enc xs)) = xs"
proof (induction xs)
  case Nil
  then show ?case by (simp add: chunks.simps)
next
  case (Cons x xs)
  then show ?case by (subst chunks.simps) simp
qed

fun enc_network :: "network_protocol \<Rightarrow> u8 list" where
  "enc_network (Hello n c is) = 0 # node_id_to_be_bytes n @ [c] @ concat (map enc_info is)"
| "enc_network (SyncRequest r) = 1 # to_be_bytes (req_session_id r) @ to_be_bytes (req_bytes_budget r) @
     concat (map enc_clock (req_vector_clock r))"
| "enc_network (SyncResponse r) = 2 # to_be_bytes (resp_session_id r) @ to_be_bytes (resp_count r) @ resp_data r"

definition dec_info :: "u8 list \<Rightarrow> channel_info" where
  "dec_info bs = \<lparr>ci_channel_id = ChannelId (Id (from_be_bytes (take 32 bs))), ci_message_count = from_be_bytes (drop 32 bs)\<rparr>"

definition dec_clock :: "u8 list \<Rightarrow> sync_clock" where
  "dec_clock bs = \<lparr>clk_node = NodeId (Id (from_be_bytes (take 32 bs))), clk_sequence = from_be_bytes (drop 32 bs)\<rparr>"

definition dec_network :: "u8 list \<Rightarrow> (network_protocol, postcard_error) result" where
  "dec_network bs =
     (case bs of
        [] \<Rightarrow> Err (OtherPostcardError 0)
      | t # bs \<Rightarrow>
          if t = 0 then (case drop 32 bs of
              [] \<Rightarrow> Err (OtherPostcardError 0)
            | c # is \<Rightarrow> Ok (Hello (NodeId (Id (from_be_bytes (take 32 bs)))) c (chunks dec_info is)))
          else if t = 1 then Ok (SyncRequest \<lparr>req_session_id = from_be_bytes (take 4 bs),
            req_bytes_budget = from_be_bytes (take 4 (drop 4 bs)), req_vector_clock = chunks dec_clock (drop 8 bs)\<rparr>)
          else if t = 2 then Ok (SyncResponse \<lparr>resp_session_id = from_be_bytes (take 4 bs),
            resp_count = from_be_bytes (take 4 (drop 4 bs)), resp_data = drop 8 bs\<rparr>)
          else Err (OtherPostcardError 0))"

definition network_serde :: "network_protocol serde" where
  "network_serde = serde_of enc_network dec_network"

lemma chunks_infos [simp]: "chunks dec_info (concat (map enc_info is)) = is"
  by (rule chunks_concat) (simp_all add: enc_info_def dec_info_def channel_id_to_be_bytes_def id_to_be_bytes_def)

lemma chunks_clocks [simp]: "chunks dec_clock (concat (map enc_clock cs)) = cs"
  by (rule chunks_concat) (simp_all add: enc_clock_def dec_clock_def SHA256_SIZE_def)

lemma network_serde_ok: "serde_ok network_serde enc_network"
  unfolding network_serde_def
proof (rule serde_of_ok)
  show "dec_network (enc_network m) = Ok m" for m
    by (cases m) (simp_all add: dec_network_def SHA256_SIZE_def)
  show "enc_network m \<noteq> []" for m by (cases m) simp_all
  show "dec_network bs \<noteq> Panic" for bs by (auto simp: dec_network_def split: list.split)
qed

definition demo_wire ::
  "(nat rust_crypto, u64, u64, mem_io, u8 list option \<times> u8 list option, u8 list) wire_deps" where
  "demo_wire = \<lparr>wd_client = demo_deps 2000, wd_raptorq = demo_raptorq, wd_messages = network_serde\<rparr>"

lemma demo_wire_simps [simp]:
  "wd_client demo_wire = demo_deps 2000" "wd_raptorq demo_wire = demo_raptorq" "wd_messages demo_wire = network_serde"
  by (simp_all add: demo_wire_def)

end
