(* ===== verification/Wire_Run.thy ===== *)
theory Wire_Run
  imports Wire_Demo Client_Properties
begin

text \<open>
  Runs of the wire's state machine: any interleaving of received packets, of any bytes from any
  sender, and polls at any time, each with the client as it is then. \<open>wire_run W m s ts\<close>: the state
  \<open>s\<close> is reached from a new one, and \<open>ts\<close> are the times of the hello messages handed out, the last
  one first.
\<close>

subsection \<open>Runs\<close>

definition hello_sent :: "('a, 'd) wire_state \<Rightarrow> ('k poll_result, wire_error) result \<Rightarrow> bool" where
  "hello_sent s r \<longleftrightarrow> to_send s = None \<and> (case r of Ok p \<Rightarrow> poll_writer p \<noteq> None | _ \<Rightarrow> False)"

inductive wire_run ::
  "('c, 's, 'p, 'i, 'd, 'k) wire_deps \<Rightarrow> u16 \<Rightarrow> ('a, 'd) wire_state \<Rightarrow> u64 list \<Rightarrow> bool"
  for W :: "('c, 's, 'p, 'i, 'd, 'k) wire_deps" and m :: u16 where
  run_new: "wire_run W m (wire_state_new m) []"
| run_receive: "wire_run W m s ts \<Longrightarrow> receive_packet W s d a c = (r, t) \<Longrightarrow> r \<noteq> Panic \<Longrightarrow> wire_run W m t ts"
| run_poll: "wire_run W m s ts \<Longrightarrow> poll W s buf now peers cids repair c = (r, t, buf') \<Longrightarrow> r \<noteq> Panic \<Longrightarrow>
    wire_run W m t (if hello_sent s r then now # ts else ts)"

subsection \<open>The invariant\<close>

definition wire_inv :: "nat \<Rightarrow> u16 \<Rightarrow> ('a, 'd) wire_state \<Rightarrow> bool" where
  "wire_inv M m s \<longleftrightarrow> length (receivers s) \<le> M \<and> distinct (map fst (receivers s)) \<and> pending_ok M (to_send s) \<and>
     mtu s = m \<and> hello_duration s = 5000 \<and> bytes_budget s = 4096"

lemma wire_state_new_inv [invariant_intros]: "wire_inv M m (wire_state_new m)"
  by (simp add: wire_inv_def wire_state_new_def)

lemma put_receiver_inv [invariant_intros]:
  assumes "wire_inv M m s" "map_of (receivers s) a \<noteq> None"
  shows "wire_inv M m (put_receiver a r s)"
proof -
  obtain i where "map_of (receivers s) a = Some i" using assms(2) by blast
  then show ?thesis using assms(1) by (simp add: wire_inv_def put_receiver_def length_update_key distinct_update)
qed

lemma process_message_inv:
  assumes "wire_inv (d_max_nodes (wd_client W)) m s" "process_message W s msg c = (r, t)"
  shows "wire_inv (d_max_nodes (wd_client W)) m t"
  using assms(1) process_message_frame [OF assms(2)]
  by (simp add: wire_inv_def wire_frame_simps [OF process_message_frame(1) [OF assms(2)]])

lemma complete_message_inv:
  assumes "wire_inv (d_max_nodes (wd_client W)) m s" "map_of (receivers s) a \<noteq> None"
    "complete_message W s a info n bytes c = (r, t)"
  shows "wire_inv (d_max_nodes (wd_client W)) m t"
  using assms process_message_inv put_receiver_inv
  by (fastforce simp: complete_message_def split: result.splits)

text \<open>What a packet can do: nothing, an entry for the sender, or a message completed for it.\<close>

lemma receive_for_cases:
  "fst (receive_for W s a info n d c) = Panic \<or>
    (\<exists>r. receive_for W s a info n d c = (Ok (), s) \<or> receive_for W s a info n d c = (Ok (), put_receiver a r s) \<or>
      (\<exists>bytes. receive_for W s a info n d c = complete_message W s a r n bytes c))"
proof -
  let ?R = "wd_raptorq W"
  have accepted: ?thesis
    if opened: "open_reader ?R (mtu s) info d = Ok (Some rd)" and fresh: "last_completed info \<noteq> Some n" for rd
  proof -
    obtain q i where q: "accept_or_restart ?R (mtu s) (info\<lparr>reader := Some rd\<rparr>) rd d = (q, i)" by fastforce
    show ?thesis
    proof (cases q)
      case (Ok r)
      show ?thesis
      proof (cases r)
        case None
        then have "receive_for W s a info n d c = (Ok (), put_receiver a i s)"
          using q Ok opened fresh by (simp add: receive_for_def)
        then show ?thesis by blast
      next
        case (Some r')
        then show ?thesis
          using receive_for_accepted [OF fresh opened, of r' i] q Ok by (cases r') auto
      qed
    next
      case (Err e)
      have "fst (accept_or_restart ?R (mtu s) (info\<lparr>reader := Some rd\<rparr>) rd d) \<noteq> Err e"
        by (auto simp: accept_or_restart_def split: prod.split result.split wire_error.split)
      then show ?thesis using q Err by simp
    next
      case Panic
      then show ?thesis using q opened fresh by (simp add: receive_for_def)
    qed
  qed
  show ?thesis
  proof (cases "last_completed info = Some n")
    case True
    then show ?thesis by (simp add: receive_for_def)
  next
    case fresh: False
    show ?thesis
    proof (cases "open_reader ?R (mtu s) info d")
      case (Ok opened)
      then show ?thesis using accepted fresh by (cases opened) (auto simp: receive_for_def)
    next
      case (Err e)
      have "open_reader ?R (mtu s) info d \<noteq> Err e"
        by (simp add: open_reader_def split: option.split result.split)
      then show ?thesis using Err by simp
    qed (simp add: receive_for_def fresh)
  qed
qed

lemma get_receiver_inv:
  assumes "wire_inv M m s" "get_receiver M a s = Some (info, t)"
  shows "wire_inv M m t" "map_of (receivers t) a \<noteq> None"
proof -
  have "wire_inv M m t \<and> map_of (receivers t) a \<noteq> None"
  proof (cases "map_of (receivers s) a")
    case None
    with assms(2) obtain rs r where ins: "index_map_insert M a r (receivers s) = Some rs" "t = s\<lparr>receivers := rs\<rparr>"
      by (auto simp: get_receiver_def Let_def)
    then show ?thesis
      using assms(1) index_map_insert_length [OF ins(1)] index_map_insert_distinct [OF ins(1)]
        index_map_insert_Some [OF ins(1)] by (simp add: wire_inv_def)
  next
    case (Some r)
    then show ?thesis using assms by (simp add: get_receiver_def)
  qed
  then show "wire_inv M m t" "map_of (receivers t) a \<noteq> None" by simp_all
qed

lemma receive_packet_inv [invariant_intros]:
  assumes inv: "wire_inv (d_max_nodes (wd_client W)) m s" and step: "receive_packet W s d a c = (r, t)" "r \<noteq> Panic"
  shows "wire_inv (d_max_nodes (wd_client W)) m t \<and> next_hello t = next_hello s"
proof (cases "\<exists>n info u. check_packet d = Ok n \<and> get_receiver (d_max_nodes (wd_client W)) a s = Some (info, u)")
  case False
  then have "t = s" using step by (auto simp: receive_packet_def split: result.splits option.splits)
  then show ?thesis using inv by simp
next
  case True
  then obtain n info u where n: "check_packet d = Ok n"
    and u: "get_receiver (d_max_nodes (wd_client W)) a s = Some (info, u)" by blast
  have eq: "receive_for W u a info n d c = (r, t)" using step(1) by (simp add: receive_packet_def n u)
  have next_u: "next_hello u = next_hello s"
    using u by (auto simp: get_receiver_def Let_def split: option.splits)
  note u_inv = get_receiver_inv [OF inv u]
  have completed: ?thesis if "complete_message W u a i n bytes c = (r, t)" for i bytes
  proof -
    from that step(2) obtain msg where
        msg: "process_message W (put_receiver a (i\<lparr>last_completed := Some n\<rparr>) u) msg c = (r, t)"
      by (auto simp: complete_message_def split: result.splits)
    from wire_frame_simps(3) [OF process_message_frame(1) [OF msg]] have "next_hello t = next_hello u"
      by (simp add: put_receiver_def)
    then show ?thesis using complete_message_inv [OF u_inv that] next_u by simp
  qed
  from receive_for_cases [of W u a info n d c] eq step(2) obtain i where
      "t = u \<or> t = put_receiver a i u \<or> (\<exists>bytes. complete_message W u a i n bytes c = (r, t))"
    by (metis fst_conv prod.inject)
  then show ?thesis
    using completed u_inv next_u put_receiver_inv [OF u_inv, of i] by (auto simp: put_receiver_def)
qed

text \<open>What a poll does: the pending message is taken, and a hello moves the time of the next one.\<close>

lemma poll_message_cases:
  assumes "poll_message W s now peers cids c = (r, t)"
  shows "to_send s = Some msg \<Longrightarrow> r = Ok (Some msg) \<and> t = s\<lparr>to_send := None\<rparr>"
    "to_send s = None \<Longrightarrow> now < next_hello s \<Longrightarrow> r = Ok None \<and> t = s"
    "to_send s = None \<Longrightarrow> \<not> now < next_hello s \<Longrightarrow> r = Panic \<or>
      unat now + unat (hello_duration s) < 2 ^ 64 \<and> t = s\<lparr>next_hello := now + hello_duration s\<rparr> \<and>
      map_err (\<lambda>e. e) r = bind_ok (make_hello W peers cids c) (\<lambda>h. Ok (Some h))"
proof -
  show "to_send s = Some msg \<Longrightarrow> r = Ok (Some msg) \<and> t = s\<lparr>to_send := None\<rparr>"
    using assms by (simp add: poll_message_def)
  have same: "s\<lparr>to_send := None\<rparr> = s" if "to_send s = None" using that by (cases s) simp
  show "to_send s = None \<Longrightarrow> now < next_hello s \<Longrightarrow> r = Ok None \<and> t = s"
    using assms same by (auto simp: poll_message_def)
  show "to_send s = None \<Longrightarrow> \<not> now < next_hello s \<Longrightarrow> r = Panic \<or>
      unat now + unat (hello_duration s) < 2 ^ 64 \<and> t = s\<lparr>next_hello := now + hello_duration s\<rparr> \<and>
      map_err (\<lambda>e. e) r = bind_ok (make_hello W peers cids c) (\<lambda>h. Ok (Some h))"
    using assms same
    by (cases "make_hello W peers cids c") (auto simp: poll_message_def word_add_def checked_add_def split: if_splits)
qed

lemma poll_send_state:
  assumes "poll_send W s buf now repair msg = (r, t, b)"
  shows "\<exists>n. t = s\<lparr>next_message_number := n\<rparr>" "r = Ok p \<Longrightarrow> poll_writer p \<noteq> None"
proof -
  obtain wrote b1 where w: "to_slice (wd_messages W) msg buf = (wrote, b1)" by fastforce
  have "(\<exists>n. t = s\<lparr>next_message_number := n\<rparr>) \<and> (\<forall>p. r = Ok p \<longrightarrow> poll_writer p \<noteq> None)"
  proof (cases wrote)
    case (Ok bs)
    note wrote = Ok
    show ?thesis
    proof (cases "wire_writer_new (wd_raptorq W) (next_message_number s) (mtu s) bs repair")
      case (Ok w')
      then show ?thesis
        using assms wrote w
        by (cases "word_add (hello_duration s) now :: (u64, wire_error) result") (auto simp: poll_send_def Let_def)
    qed (use assms w wrote in \<open>auto simp: poll_send_def intro: exI [of _ "next_message_number s"]\<close>)
  qed (use assms w in \<open>auto simp: poll_send_def intro: exI [of _ "next_message_number s"]\<close>)
  then show "\<exists>n. t = s\<lparr>next_message_number := n\<rparr>" "r = Ok p \<Longrightarrow> poll_writer p \<noteq> None" by simp_all
qed

lemma poll_state:
  assumes p: "poll W s buf now peers cids repair c = (r, t, buf')"
    and q: "poll_message W s now peers cids c = (q, u)"
  shows "\<exists>n. t = u\<lparr>next_message_number := n\<rparr>" "r = Ok p \<Longrightarrow> \<exists>m. q = Ok m \<and> (poll_writer p = None \<longleftrightarrow> m = None)"
    "q = Panic \<Longrightarrow> r = Panic"
proof -
  have "(\<exists>n. t = u\<lparr>next_message_number := n\<rparr>) \<and>
      (\<forall>p. r = Ok p \<longrightarrow> (\<exists>m. q = Ok m \<and> (poll_writer p = None \<longleftrightarrow> m = None))) \<and> (q = Panic \<longrightarrow> r = Panic)"
  proof (cases q)
    case (Ok m)
    show ?thesis
    proof (cases m)
      case None
      then show ?thesis
        using p q Ok
        by (cases "word_sub (next_hello u) now :: (u64, wire_error) result")
          (auto simp: poll_def intro: exI [of _ "next_message_number u"])
    next
      case (Some msg)
      then have "poll_send W u buf now repair msg = (r, t, buf')" using p q Ok by (simp add: poll_def)
      from poll_send_state [OF this] show ?thesis using Ok Some by simp
    qed
  qed (use p q in \<open>auto simp: poll_def intro: exI [of _ "next_message_number u"]\<close>)
  then show "\<exists>n. t = u\<lparr>next_message_number := n\<rparr>"
    "r = Ok p \<Longrightarrow> \<exists>m. q = Ok m \<and> (poll_writer p = None \<longleftrightarrow> m = None)" "q = Panic \<Longrightarrow> r = Panic" by simp_all
qed

lemma poll_inv [invariant_intros]:
  assumes inv: "wire_inv M m s" and p: "poll W s buf now peers cids repair c = (r, t, buf')" "r \<noteq> Panic"
  shows "wire_inv M m t"
proof -
  obtain q u where q: "poll_message W s now peers cids c = (q, u)" by fastforce
  have "q \<noteq> Panic" using poll_state(3) [OF p(1) q] p(2) by auto
  with poll_message_cases [OF q] have "u = s\<lparr>to_send := None\<rparr> \<or> u = s \<or> u = s\<lparr>next_hello := now + hello_duration s\<rparr>"
    by (cases "to_send s") auto
  then show ?thesis using inv poll_state(1) [OF p(1) q] by (auto simp: wire_inv_def)
qed

text \<open>A poll that hands out a hello was due, and the next one is due 5 seconds later.\<close>

lemma poll_hello:
  assumes p: "poll W s buf now peers cids repair c = (r, t, buf')" and five: "hello_duration s = 5000" and ok: "r \<noteq> Panic"
  shows "hello_sent s r \<Longrightarrow> next_hello s \<le> now \<and> unat (next_hello t) = unat now + 5000"
    "next_hello s \<le> next_hello t"
proof -
  obtain q u where q: "poll_message W s now peers cids c = (q, u)" by fastforce
  note cases = poll_message_cases [OF q] and state = poll_state [OF p q]
  have next_t: "next_hello t = next_hello u" using state(1) by auto
  have due: "unat now + 5000 < 2 ^ 64 \<and> next_hello u = now + 5000" if "to_send s = None" "\<not> now < next_hello s"
    using cases(3) [OF that] state(3) ok five by auto
  have sum: "unat (now + 5000) = unat now + 5000" if "unat now + 5000 < 2 ^ 64"
    using that by (subst unat_add_lem [THEN iffD1]) simp_all
  show "hello_sent s r \<Longrightarrow> next_hello s \<le> now \<and> unat (next_hello t) = unat now + 5000"
    using cases(2) state(2) due sum next_t
    by (cases "now < next_hello s"; cases r) (auto simp: hello_sent_def)
  have "now \<le> now + 5000" if "unat now + 5000 < 2 ^ 64" using sum [OF that] by (simp add: word_le_nat_alt)
  then show "next_hello s \<le> next_hello t"
    using cases(1,2) due next_t by (cases "to_send s"; cases "now < next_hello s") force+
qed

subsection \<open>Invariants of every run\<close>

abbreviation five_seconds_apart :: "u64 list \<Rightarrow> bool" where
  "five_seconds_apart \<equiv> successively (\<lambda>later earlier. unat earlier + 5000 \<le> unat later)"

lemma wire_run_facts:
  "wire_run W m s ts \<Longrightarrow> wire_inv (d_max_nodes (wd_client W)) m s \<and> five_seconds_apart ts \<and>
    (ts \<noteq> [] \<longrightarrow> unat (hd ts) + 5000 \<le> unat (next_hello s))"
proof (induction rule: wire_run.induct)
  case run_new
  then show ?case by (simp add: wire_state_new_inv)
next
  case (run_receive s ts d a c r t)
  with receive_packet_inv [of W m s d a c r t] show ?case by simp
next
  case (run_poll s ts buf now peers cids repair c r t buf')
  have five: "hello_duration s = 5000" using run_poll.IH by (simp add: wire_inv_def)
  note due = poll_hello [OF run_poll.hyps(2) five run_poll.hyps(3)]
  have "five_seconds_apart (now # ts)" if "hello_sent s r"
    using run_poll.IH due(1) [OF that] by (cases ts) (auto simp: word_le_nat_alt)
  then show ?case
    using run_poll.IH due poll_inv [OF _ run_poll.hyps(2,3)] by (auto simp: word_le_nat_alt)
qed

text \<open>A message that fits is written, cut into packets, and the poll succeeds.\<close>

lemma poll_send_runs:
  assumes "serde_ok (wd_messages W) enc" "length (enc msg) \<le> length buf"
    and "wire_writer_new (wd_raptorq W) (next_message_number s) (mtu s) (enc msg) repair = Ok w"
    and "unat (hello_duration s) + unat now < 2 ^ 64"
  shows "poll_send W s buf now repair msg =
    (Ok \<lparr>next_poll = hello_duration s + now, poll_writer = Some w\<rparr>,
     s\<lparr>next_message_number := next_message_number s + 1\<rparr>, overwrite buf 0 (enc msg))"
  using assms by (simp add: poll_send_def serde_to_slice_fits word_add_in)

lemma poll_hello_runs:
  assumes "to_send s = None" "next_hello s \<le> now" "hello_duration s = 5000" "unat now + 5000 < 2 ^ 64"
    and "make_hello W peers cids c = Ok h"
    and "poll_send W (s\<lparr>next_hello := now + 5000\<rparr>) buf now repair h = out"
  shows "poll W s buf now peers cids repair c = out"
proof -
  have "s\<lparr>to_send := None\<rparr> = s" using assms(1) by (cases s) simp
  then have "poll_message W s now peers cids c = (Ok (Some h), s\<lparr>next_hello := now + 5000\<rparr>)"
    using assms(1-5) by (simp add: poll_message_def Let_def word_add_in)
  then show ?thesis using assms(6) by (simp add: poll_def)
qed

definition demo_hello :: network_protocol where
  "demo_hello = Hello (NodeId (Id 7)) 0 [\<lparr>ci_channel_id = ChannelId (Id 3), ci_message_count = 0\<rparr>]"

lemma length_demo_hello: "length (enc_network demo_hello) = 74"
  by (simp add: demo_hello_def enc_info_def SHA256_SIZE_def channel_id_to_be_bytes_def id_to_be_bytes_def)

text \<open>The writer of a message of the demo code.\<close>

definition demo_writer :: "u16 \<Rightarrow> u8 list \<Rightarrow> u8 list wire_writer" where
  "demo_writer n data = \<lparr>ww_message_number = n, ww_transfer_length = of_nat (length data),
     ww_encoded = [0 # take (length data div 2) data, 1 # drop (length data div 2) data], ww_last_sent = 0\<rparr>"

lemma demo_writer_new: "length data \<le> 65535 \<Longrightarrow> wire_writer_new demo_raptorq n 250 data rep = Ok (demo_writer n data)"
  by (simp add: wire_writer_new_def demo_writer_def demo_raptorq_def)

lemma demo_make_hello: "make_hello demo_wire 0 [ChannelId (Id 3)] (demo_client 7 st) = Ok demo_hello"
  by (simp add: make_hello_def client_message_count_cases vec_push_def get_node_id_def demo_hello_def
      message_count_def demo_chat_def)

lemma demo_send_hello:
  assumes "mtu s = 250" "hello_duration s = 5000" "unat now + 5000 < 2 ^ 64"
  shows "poll_send demo_wire s (replicate 200 0) now 3 demo_hello =
    (Ok \<lparr>next_poll = 5000 + now, poll_writer = Some (demo_writer (next_message_number s) (enc_network demo_hello))\<rparr>,
     s\<lparr>next_message_number := next_message_number s + 1\<rparr>, overwrite (replicate 200 0) 0 (enc_network demo_hello))"
proof -
  have w: "wire_writer_new (wd_raptorq demo_wire) (next_message_number s) (mtu s) (enc_network demo_hello) 3
      = Ok (demo_writer (next_message_number s) (enc_network demo_hello))"
    using assms(1) demo_writer_new [of "enc_network demo_hello"] by (simp add: length_demo_hello)
  have sum: "unat (hello_duration s) + unat now < 2 ^ 64" using assms(2,3) by simp
  have enc: "serde_ok (wd_messages demo_wire) enc_network" by (simp add: network_serde_ok)
  have "length (enc_network demo_hello) \<le> length (replicate 200 (0 :: u8))" by (simp add: length_demo_hello)
  from poll_send_runs [OF enc this w sum] show ?thesis by (simp only: assms(2))
qed

text \<open>A device that polls at the times 0 and 5000 says hello twice.\<close>

lemma demo_run:
  obtains s :: "(u8 list, u8 list option \<times> u8 list option) wire_state" where "wire_run demo_wire 250 s [5000, 0]"
proof -
  let ?p = "\<lambda>s now. poll demo_wire s (replicate 200 0) now 0 [ChannelId (Id 3)] 3 (demo_client 7 (undefined :: mem_io storage))"
  let ?s0 = "wire_state_new 250 :: (u8 list, u8 list option \<times> u8 list option) wire_state"
  let ?s1 = "?s0\<lparr>next_hello := 5000, next_message_number := 1\<rparr>"
  let ?s2 = "?s0\<lparr>next_hello := 10000, next_message_number := 2\<rparr>"
  let ?b = "overwrite (replicate 200 0) 0 (enc_network demo_hello)"
  have p0: "?p ?s0 0 = (Ok \<lparr>next_poll = 5000, poll_writer = Some (demo_writer 0 (enc_network demo_hello))\<rparr>, ?s1, ?b)"
    by (rule poll_hello_runs [OF _ _ _ _ demo_make_hello])
      (simp_all add: wire_state_new_def demo_send_hello)
  have p1: "?p ?s1 5000 = (Ok \<lparr>next_poll = 10000, poll_writer = Some (demo_writer 1 (enc_network demo_hello))\<rparr>, ?s2, ?b)"
    by (rule poll_hello_runs [OF _ _ _ _ demo_make_hello])
      (simp_all add: wire_state_new_def demo_send_hello)
  have "wire_run demo_wire 250 ?s1 [0]"
    using run_poll [OF run_new p0] by (simp add: hello_sent_def wire_state_new_def)
  from run_poll [OF this p1] have "wire_run demo_wire 250 ?s2 [5000, 0]"
    by (simp add: hello_sent_def wire_state_new_def)
  then show thesis by (rule that)
qed

text \<open>
  C23. The wire's state is well-formed in every run, whatever bytes arrive: there are at most as many
  receivers as the capacity and one for each sender, and the message waiting to be sent, if there is
  one, is a synchronisation request whose vector fits.
\<close>

theorem wire_run_well_formed:
  assumes "wire_run W m s ts"
  shows "length (receivers s) \<le> d_max_nodes (wd_client W) \<and> distinct (map fst (receivers s)) \<and> mtu s = m \<and>
    (\<forall>msg. to_send s = Some msg \<longrightarrow>
      (\<exists>r. msg = SyncRequest r \<and> length (req_vector_clock r) \<le> d_max_nodes (wd_client W)))"
  using wire_run_facts [OF assms] by (auto simp: wire_inv_def pending_ok_def split: network_protocol.splits)

theorem wire_run_well_formed_witness:
  "\<exists>s :: (u8 list, u8 list option \<times> u8 list option) wire_state.
    wire_run demo_wire 250 s [5000, 0] \<and> length (receivers s) \<le> 4"
proof -
  obtain s :: "(u8 list, u8 list option \<times> u8 list option) wire_state" where s: "wire_run demo_wire 250 s [5000, 0]"
    by (rule demo_run)
  from wire_run_well_formed [OF s] s show ?thesis by auto
qed

text \<open>
  C24. Hello messages are at least five seconds apart in every run, however often the device is
  polled and whatever it receives in between.
\<close>

theorem hello_paced:
  assumes "wire_run W m s ts"
  shows "successively (\<lambda>later earlier. unat earlier + 5000 \<le> unat later) ts"
  using wire_run_facts [OF assms] by blast

theorem hello_paced_witness:
  "\<exists>s :: (u8 list, u8 list option \<times> u8 list option) wire_state.
    wire_run demo_wire 250 s [5000, 0] \<and>
    successively (\<lambda>later earlier. unat earlier + 5000 \<le> unat later) [5000 :: u64, 0]"
proof -
  obtain s :: "(u8 list, u8 list option \<times> u8 list option) wire_state" where s: "wire_run demo_wire 250 s [5000, 0]"
    by (rule demo_run)
  from hello_paced [OF s] s show ?thesis by blast
qed

end
