(* ===== verification/Wire_Properties.thy ===== *)
theory Wire_Properties
  imports Wire_Run
begin

text \<open>
  Properties of the wire that join its parts: a message written on one device is read on another,
  whatever the order of its packets; a hello leads to a request; and what happens to packets that
  belong to nothing.
\<close>

subsection \<open>From a writer to a reader\<close>

text \<open>A reader takes datagrams until it has a message, as \<^verbatim>\<open>wire/test.rs\<close> does.\<close>

fun read_until :: "('d, 'k) raptorq \<Rightarrow> 'd wire_reader \<Rightarrow> u8 list list \<Rightarrow> (u8 list option, wire_error) result" where
  "read_until R rd [] = Ok None"
| "read_until R rd (d # ds) =
     (case accept_packet R rd d of (Ok None, rd) \<Rightarrow> read_until R rd ds | (r, rd) \<Rightarrow> r)"

lemma read_until_delivers:
  assumes R: "raptorq_ok R" and fit: "packets_fit R cap w" "cap < usize_limit"
  shows "wr_message_number rd = ww_message_number w \<Longrightarrow> wr_transfer_length rd = ww_transfer_length w \<Longrightarrow>
    collected R data (ww_encoded w) ps (wr_decoder rd) \<Longrightarrow> set ks \<subseteq> set (ww_encoded w) \<Longrightarrow>
    set (ww_encoded w) \<subseteq> set (ps @ ks) \<Longrightarrow> \<not> set (ww_encoded w) \<subseteq> set ps \<Longrightarrow>
    read_until R rd (map (writer_packet R w) ks) = Ok (Some data)"
proof (induction ks arbitrary: ps rd)
  case Nil
  then show ?case by simp
next
  case (Cons k ks)
  have k: "k \<in> set (ww_encoded w)" using Cons.prems(4) by simp
  obtain r d where r: "accept_packet R rd (writer_packet R w k) = (Ok r, rd\<lparr>wr_decoder := d\<rparr>)"
      "collected R data (ww_encoded w) (ps @ [k]) d" "r = None \<or> r = Some data"
      "set (ww_encoded w) \<subseteq> set (ps @ [k]) \<Longrightarrow> r = Some data"
    by (rule accept_writer_packet [OF R k fit Cons.prems(1-3)]) (rule that)
  show ?case
  proof (cases r)
    case None
    with Cons.IH [of "rd\<lparr>wr_decoder := d\<rparr>" "ps @ [k]"] Cons.prems r show ?thesis by auto
  next
    case (Some bytes)
    with r show ?thesis by simp
  qed
qed

lemma writer_packet_inj: "raptorq_ok R \<Longrightarrow> inj_on (writer_packet R w) (set (ww_encoded w))"
  by (intro inj_onI) (metis raptorq_ok_def result.inject(1) same_append_eq writer_packet_def)

lemma datagrams_are_packets:
  assumes R: "raptorq_ok R" and all: "set ds = writer_packet R w ` set (ww_encoded w)"
  obtains ks where "ds = map (writer_packet R w) ks" "set ks = set (ww_encoded w)"
proof -
  have "\<forall>d \<in> set ds. \<exists>k \<in> set (ww_encoded w). d = writer_packet R w k" using all by auto
  then obtain ks where ks: "ds = map (writer_packet R w) ks" "set ks \<subseteq> set (ww_encoded w)"
    by (induction ds) (auto, metis insert_subset list.simps(9,15))
  have "set (ww_encoded w) = set ks"
    using all ks writer_packet_inj [OF R, of w] by (metis image_set inj_on_image_eq_iff order_refl subset_refl)
  with ks(1) that show thesis by simp
qed

text \<open>
  A message survives the trip through its packets. Whatever datagrams of a writer arrive, in any
  order and as often as they like, as long as each packet arrives once: a reader made from the first
  of them gives exactly the bytes that were written.
\<close>

theorem packets_deliver_message:
  assumes R: "raptorq_ok R" and new: "wire_writer_new R n m data rep = Ok w"
    and fit: "packets_fit R cap w" "cap < usize_limit"
    and all: "set ds = writer_packet R w ` set (ww_encoded w)"
  shows "\<exists>rd. wire_reader_new R (hd ds) m = Ok rd \<and> read_until R rd ds = Ok (Some data)"
proof -
  obtain ks where ks: "ds = map (writer_packet R w) ks" "set ks = set (ww_encoded w)"
    by (rule datagrams_are_packets [OF R all])
  have "ww_encoded w \<noteq> []" "ww_message_number w = n" using wire_writer_new_Ok [OF R new] by blast+
  then obtain k ks' where k: "ks = k # ks'" using ks(2) by (cases ks) auto
  then have "k \<in> set (ww_encoded w)" using ks(2) by (metis list.set_intros(1))
  from reader_of_writer_packet [OF R new fit this] obtain rd where
      rd: "wire_reader_new R (writer_packet R w k) m = Ok rd" "wr_message_number rd = n"
      "wr_transfer_length rd = ww_transfer_length w" "collected R data (ww_encoded w) [] (wr_decoder rd)" by blast
  have "read_until R rd (map (writer_packet R w) ks) = Ok (Some data)"
    by (rule read_until_delivers [OF R fit, of rd data "[]"])
      (use rd \<open>ww_message_number w = n\<close> \<open>ww_encoded w \<noteq> []\<close> ks in auto)
  then show ?thesis using rd(1) ks(1) k by auto
qed

theorem packets_deliver_message_witness:
  "\<exists>rd. wire_reader_new demo_raptorq (writer_packet demo_raptorq (demo_writer 5 [1, 2, 3]) [1, 2, 3]) 250 = Ok rd \<and>
    read_until demo_raptorq rd [writer_packet demo_raptorq (demo_writer 5 [1, 2, 3]) [1, 2, 3],
      writer_packet demo_raptorq (demo_writer 5 [1, 2, 3]) [0, 1]] = Ok (Some [1, 2, 3])"
  using packets_deliver_message [OF demo_raptorq_ok demo_writer_new, of "[1, 2, 3]" 9 5
      "[writer_packet demo_raptorq (demo_writer 5 [1, 2, 3]) [1, 2, 3],
        writer_packet demo_raptorq (demo_writer 5 [1, 2, 3]) [0, 1]]"]
  by (simp add: packets_fit_def demo_writer_def demo_raptorq_def usize_limit_def insert_commute)

subsection \<open>From one device to another\<close>

text \<open>\<open>fresh_sender\<close>: nothing of the message with the number and length of \<open>w\<close> has been seen from \<open>a\<close>.\<close>

definition fresh_sender :: "nat \<Rightarrow> 'k wire_writer \<Rightarrow> 'a \<Rightarrow> ('a, 'd) wire_state \<Rightarrow> bool" where
  "fresh_sender M w a s \<longleftrightarrow>
     (case map_of (receivers s) a of
        None \<Rightarrow> length (receivers s) < M
      | Some info \<Rightarrow> last_completed info \<noteq> Some (ww_message_number w) \<and>
          (\<forall>rd. reader info = Some rd \<longrightarrow> wr_message_number rd \<noteq> ww_message_number w \<or>
             wr_transfer_length rd \<noteq> ww_transfer_length w))"

lemma fresh_sender_waiting: "fresh_sender M w a s \<Longrightarrow> waiting M R data w [] a s"
  by (auto simp: fresh_sender_def waiting_def ready_def split: option.splits)

lemma datagrams_processed:
  assumes R: "raptorq_ok (wd_raptorq W)" and parsed: "from_bytes (wd_messages W) data = Ok msg"
    and new: "wire_writer_new (wd_raptorq W) n (mtu s) data rep = Ok w"
    and fit: "packets_fit (wd_raptorq W) cap w" "cap < usize_limit"
    and fresh: "fresh_sender (d_max_nodes (wd_client W)) w a s"
    and all: "set ds = writer_packet (wd_raptorq W) w ` set (ww_encoded w)"
  obtains i info j where "receive_all W s ds a c =
    (replicate i (Ok ()) @ fst (process_message W s msg c) # replicate j (Ok ()),
     put_receiver a (info\<lparr>last_completed := Some n\<rparr>) (snd (process_message W s msg c)))"
    "length ds = Suc (i + j)"
proof -
  obtain ks where ks: "ds = map (writer_packet (wd_raptorq W) w) ks" "set ks = set (ww_encoded w)"
    by (rule datagrams_are_packets [OF R all])
  have "ww_encoded w \<noteq> []" using wire_writer_new_Ok [OF R new] by blast
  with receive_all_completes [OF R fit parsed fresh_sender_waiting [OF fresh] _ _ _ refl new, of ks c] ks
  obtain i info j where run: "receive_all W s ds a c =
      (replicate i (Ok ()) @ fst (process_message W s msg c) # replicate j (Ok ()),
       put_receiver a (info\<lparr>last_completed := Some n\<rparr>) (snd (process_message W s msg c)))" by auto
  moreover have "length ds = Suc (i + j)"
    using length_receive_all [of W s ds a c] unfolding run by simp
  ultimately show thesis by (rule that)
qed

text \<open>
  A message that one device hands to the radio is processed by another exactly once. The datagrams
  of its writer arrive at a device that has room for the sender and has seen nothing of this message,
  in any order and with repetitions, each packet at least once: the message is processed after one of
  them, with the result and the state that processing it gives, the other datagrams change nothing,
  and the sender's entry notes the message as completed.
\<close>

theorem message_transferred:
  assumes R: "raptorq_ok (wd_raptorq W)" and S: "serde_ok (wd_messages W) enc"
    and new: "wire_writer_new (wd_raptorq W) n (mtu s) (enc msg) rep = Ok w"
    and fit: "packets_fit (wd_raptorq W) cap w" "cap < usize_limit"
    and fresh: "fresh_sender (d_max_nodes (wd_client W)) w a s"
    and all: "set ds = writer_packet (wd_raptorq W) w ` set (ww_encoded w)"
    and processed: "process_message W s msg c = (r, t)"
  shows "\<exists>i j info. receive_all W s ds a c =
    (replicate i (Ok ()) @ r # replicate j (Ok ()), put_receiver a (info\<lparr>last_completed := Some n\<rparr>) t)"
  by (rule datagrams_processed [OF R serde_from_bytes [OF S] new fit fresh all, of c]) (use processed in auto)

lemma receive_all_junk:
  assumes R: "raptorq_ok (wd_raptorq W)" and fit: "packets_fit (wd_raptorq W) cap w" "cap < usize_limit"
    and junk: "\<And>m. from_bytes (wd_messages W) data \<noteq> Ok m"
  shows "waiting (d_max_nodes (wd_client W)) (wd_raptorq W) data w ps a s \<Longrightarrow> set ks \<subseteq> set (ww_encoded w) \<Longrightarrow>
    set (ww_encoded w) \<subseteq> set (ps @ ks) \<Longrightarrow> \<not> set (ww_encoded w) \<subseteq> set ps \<Longrightarrow>
    wire_writer_new (wd_raptorq W) n (mtu s) data rep = Ok w \<Longrightarrow>
    Panic \<in> set (fst (receive_all W s (map (writer_packet (wd_raptorq W) w) ks) a c))"
proof (induction ks arbitrary: ps s)
  case Nil
  then show ?case by simp
next
  case (Cons k ks)
  let ?R = "wd_raptorq W"
  have k: "k \<in> set (ww_encoded w)" using Cons.prems(2) by simp
  obtain r info where r: "ready ?R data w (ps @ [k]) info" "last_completed info \<noteq> Some n"
      "r = None \<or> r = Some data" "set (ww_encoded w) \<subseteq> set (ps @ [k]) \<Longrightarrow> r = Some data"
      "receive_packet W s (writer_packet ?R w k) a c =
        (case r of None \<Rightarrow> (Ok (), put_receiver a info s) | Some bytes \<Rightarrow> complete_message W s a info n bytes c)"
    by (rule receive_expected [OF R Cons.prems(5) fit k Cons.prems(1), where c = c]) (rule that)
  have n: "ww_message_number w = n" using wire_writer_new_Ok [OF R Cons.prems(5)] by blast
  show ?case
  proof (cases r)
    case None
    have "waiting (d_max_nodes (wd_client W)) ?R data w (ps @ [k]) a (put_receiver a info s)"
      using r(1,2) n by (simp add: waiting_def)
    moreover have "\<not> set (ww_encoded w) \<subseteq> set (ps @ [k])" using r(4) None by blast
    ultimately have "Panic \<in> set (fst (receive_all W (put_receiver a info s) (map (writer_packet ?R w) ks) a c))"
      using Cons.IH [of "ps @ [k]" "put_receiver a info s"] Cons.prems by simp
    then show ?thesis using r(5) None by (auto split: prod.split)
  next
    case (Some bytes)
    then have "fst (receive_packet W s (writer_packet ?R w k) a c) = Panic"
      using r(3,5) junk by (auto simp: complete_message_def split: result.split)
    then show ?thesis by (auto split: prod.split)
  qed
qed

text \<open>
  C40. A message that is not one of the protocol crashes the device that receives it. When the
  datagrams of a writer over bytes that do not parse arrive, one of the calls panics: anyone in radio
  range can stop a device with a handful of packets.
\<close>

theorem junk_message_panics:
  assumes R: "raptorq_ok (wd_raptorq W)"
    and new: "wire_writer_new (wd_raptorq W) n (mtu s) data rep = Ok w"
    and fit: "packets_fit (wd_raptorq W) cap w" "cap < usize_limit"
    and fresh: "fresh_sender (d_max_nodes (wd_client W)) w a s"
    and all: "set ds = writer_packet (wd_raptorq W) w ` set (ww_encoded w)"
    and junk: "\<And>m. from_bytes (wd_messages W) data \<noteq> Ok m"
  shows "Panic \<in> set (fst (receive_all W s ds a c))"
proof -
  obtain ks where ks: "ds = map (writer_packet (wd_raptorq W) w) ks" "set ks = set (ww_encoded w)"
    by (rule datagrams_are_packets [OF R all])
  have "ww_encoded w \<noteq> []" using wire_writer_new_Ok [OF R new] by blast
  with receive_all_junk [OF R fit junk fresh_sender_waiting [OF fresh] _ _ _ new, of ks c] ks
  show ?thesis by auto
qed

subsection \<open>Packets that belong to nothing\<close>

lemma check_packet_Ok:
  assumes "length data < usize_limit"
  shows "check_packet data = Ok n \<longleftrightarrow> (\<exists>rest. data = to_le_bytes (0xa9f4 :: u16) @ to_le_bytes n @ rest)"
proof
  assume "check_packet data = Ok n"
  then obtain l f1 f2 where reads: "read_u16 data 0 = Ok (l, f1)" "l = 0xa9f4" "read_u16 data f1 = Ok (n, f2)"
    by (auto simp: check_packet_def result_simps split: if_splits prod.splits)
  obtain pre post where one: "data = pre @ to_le_bytes l @ post" "length pre = 0" "f1 = 0 + 2"
    using reads(1) by (rule read_u16_OkE)
  obtain pre' post' where two: "data = pre' @ to_le_bytes n @ post'" "length pre' = f1"
    using reads(3) by (rule read_u16_OkE)
  have "pre' = to_le_bytes (0xa9f4 :: u16)"
    using one two reads(2) append_eq_append_conv [of pre' "to_le_bytes l"] by simp
  with two(1) show "\<exists>rest. data = to_le_bytes (0xa9f4 :: u16) @ to_le_bytes n @ rest" by blast
next
  assume "\<exists>rest. data = to_le_bytes (0xa9f4 :: u16) @ to_le_bytes n @ rest"
  then obtain rest where data: "data = to_le_bytes (0xa9f4 :: u16) @ to_le_bytes n @ rest" by blast
  then show "check_packet data = Ok n"
    using assms read_u16_at [of data "[]" "0xa9f4 :: u16" "to_le_bytes n @ rest"]
      read_u16_at [of data "to_le_bytes (0xa9f4 :: u16)" n rest]
    by (simp add: check_packet_def del: add_2_eq_Suc add_2_eq_Suc')
qed

lemma check_packet_not_Panic [simp]: "check_packet data \<noteq> Panic"
proof (cases "read_u16 data 0")
  case (Ok x)
  obtain l f where x: "x = (l, f)" by fastforce
  show ?thesis
    using read_u16_not_Panic [of data f] by (cases "read_u16 data f") (auto simp: check_packet_def Ok x split: prod.split)
qed (use read_u16_not_Panic [of data 0] in \<open>auto simp: check_packet_def\<close>)

text \<open>
  A datagram is a packet of the protocol exactly when it begins with the label and two more bytes,
  and only such datagrams can change the state: any other datagram, however short, is ignored
  without a panic; so is every packet that carries the number of the message completed last for its
  sender, also when that sender has restarted and is sending another message.
\<close>

theorem unrelated_packets_ignored:
  assumes "length data < usize_limit"
    and "\<And>n rest. data = to_le_bytes (0xa9f4 :: u16) @ to_le_bytes n @ rest \<Longrightarrow>
      \<exists>info. map_of (receivers s) a = Some info \<and> last_completed info = Some n"
  shows "receive_packet W s data a c = (Ok (), s)"
proof (cases "check_packet data")
  case (Ok n)
  then obtain rest where "data = to_le_bytes (0xa9f4 :: u16) @ to_le_bytes n @ rest"
    using check_packet_Ok [OF assms(1)] by blast
  then obtain info where "map_of (receivers s) a = Some info" "last_completed info = Some n"
    using assms(2) by blast
  with Ok show ?thesis by (rule receive_extra)
qed (simp_all add: receive_packet_def)

subsection \<open>Hello and request\<close>

lemma process_infos_busy: "to_send s = Some m \<Longrightarrow> process_infos W s infos c = (Ok (), s)"
  by (induction infos) (simp_all add: Let_def request_if_idle_def client_message_count_cases split: option.split)

lemma request_when_known:
  assumes "to_send s = None" "map_of (cl_channels c) cid = Some ch"
    "length (list_nodes (ch_state ch)) \<le> d_max_nodes (wd_client W)"
  shows "request_if_idle W s cid c = (Ok (), s\<lparr>next_session_id := next_session_id s + 1, to_send :=
    Some (SyncRequest \<lparr>req_session_id = next_session_id s, req_bytes_budget = bytes_budget s,
      req_vector_clock = own_clocks (list_nodes (ch_state ch))\<rparr>)\<rparr>)"
  using assms by (simp add: request_if_idle_def make_sync_request_def finish_sync_request_known Let_def)

text \<open>
  C30. A channel that a device does not know is never requested. The handler means to ask for it, but the
  request needs a vector clock of the channel: processing the hello ends in \<open>UnknownChannel\<close>, nothing is
  pending afterwards, a session number is used up, and the channels behind it in the hello are not looked at.
\<close>

theorem unknown_channel_not_requested:
  assumes "to_send s = None" "map_of (cl_channels c) cid = None"
  shows "process_message W s (Hello n peers (\<lparr>ci_channel_id = cid, ci_message_count = count\<rparr> # infos)) c =
    (Err (Wire_ClientError UnknownChannel), s\<lparr>next_session_id := next_session_id s + 1\<rparr>)"
  using assms
  by (simp add: process_message_def Let_def client_message_count_cases request_if_idle_def make_sync_request_def
      finish_sync_request_unknown)

subsection \<open>Witnesses\<close>

abbreviation demo_new :: "(u8 list, u8 list option \<times> u8 list option) wire_state" where
  "demo_new \<equiv> wire_state_new 250"

lemma demo_new_fresh: "fresh_sender (d_max_nodes (wd_client demo_wire)) w a demo_new"
  by (simp add: fresh_sender_def wire_state_new_def)

lemma demo_new_simps: "to_send demo_new = None" "mtu demo_new = 250" "next_session_id demo_new = 0"
  "receivers demo_new = []"
  by (simp_all add: wire_state_new_def)

lemma demo_new_writer:
  "length data \<le> 65535 \<Longrightarrow>
    wire_writer_new (wd_raptorq demo_wire) n (mtu demo_new) data rep = Ok (demo_writer n data)"
  by (simp add: demo_new_simps demo_writer_new)

lemma demo_wire_raptorq_ok: "raptorq_ok (wd_raptorq demo_wire)"
  by (simp add: demo_raptorq_ok)

lemma demo_writer_fits: "length data \<le> 200 \<Longrightarrow> packets_fit (wd_raptorq demo_wire) 300 (demo_writer n data)"
  by (simp add: packets_fit_def demo_writer_def demo_raptorq_def) linarith

lemma usize_300: "300 < usize_limit"
  by (simp add: usize_limit_def)

theorem message_transferred_witness:
  "\<forall>st. \<exists>i j info r t. process_message demo_wire demo_new demo_hello (demo_client 9 st) = (r, t) \<and>
    receive_all demo_wire demo_new (rev (map (writer_packet demo_raptorq (demo_writer 5 (enc_network demo_hello)))
        (ww_encoded (demo_writer 5 (enc_network demo_hello))))) [1] (demo_client 9 st)
      = (replicate i (Ok ()) @ r # replicate j (Ok ()), put_receiver [1] (info\<lparr>last_completed := Some 5\<rparr>) t)"
  (is "\<forall>st. ?P st")
proof
  fix st
  let ?w = "demo_writer 5 (enc_network demo_hello)"
  obtain r t where rt: "process_message demo_wire demo_new demo_hello (demo_client 9 st) = (r, t)" by fastforce
  have "serde_ok (wd_messages demo_wire) enc_network" by (simp add: network_serde_ok)
  from message_transferred [OF demo_wire_raptorq_ok this demo_new_writer demo_writer_fits usize_300 demo_new_fresh _ rt,
      where n = 5 and ds = "rev (map (writer_packet demo_raptorq ?w) (ww_encoded ?w))" and a = "[1]"]
  show "?P st" using rt by (auto simp: length_demo_hello)
qed

theorem junk_message_panics_witness:
  "\<forall>st. Panic \<in> set (fst (receive_all demo_wire demo_new
    (map (writer_packet demo_raptorq (demo_writer 5 [9, 9])) (ww_encoded (demo_writer 5 [9, 9]))) [1] (demo_client 9 st)))"
  (is "\<forall>st. ?P st")
proof
  fix st
  let ?w = "demo_writer 5 [9, 9]"
  have junk: "from_bytes (wd_messages demo_wire) [9, 9] \<noteq> Ok m" for m
    by (simp add: network_serde_def serde_of_def dec_network_def)
  from junk_message_panics [OF demo_wire_raptorq_ok demo_new_writer demo_writer_fits usize_300 demo_new_fresh _ junk,
      where n = 5 and ds = "map (writer_packet demo_raptorq ?w) (ww_encoded ?w)"]
  show "?P st" by simp
qed

theorem unrelated_packets_ignored_witness:
  "\<forall>a st. receive_packet demo_wire demo_new [1, 2, 3] a (demo_client 9 st) = (Ok (), demo_new)"
proof (intro allI, rule unrelated_packets_ignored)
  show "length [1, 2, 3 :: u8] < usize_limit" by (simp add: usize_limit_def)
  fix a and n :: u16 and rest
  assume eq: "[1, 2, 3] = to_le_bytes (0xa9f4 :: u16) @ to_le_bytes n @ rest"
  have "length [1, 2, 3 :: u8] = length (to_le_bytes (0xa9f4 :: u16) @ to_le_bytes n @ rest)"
    by (subst eq) (rule refl)
  then show "\<exists>info. map_of (receivers demo_new) a = Some info \<and> last_completed info = Some n" by simp
qed

theorem unknown_channel_not_requested_witness:
  "\<forall>st. process_message demo_wire demo_new (Hello (NodeId (Id 7)) 0 [\<lparr>ci_channel_id = ChannelId (Id 4), ci_message_count = 0\<rparr>])
      (demo_client 9 st) = (Err (Wire_ClientError UnknownChannel), demo_new\<lparr>next_session_id := 1\<rparr>)"
  (is "\<forall>st. ?P st")
proof
  fix st
  have "map_of (cl_channels (demo_client 9 st)) (ChannelId (Id 4)) = None" by (simp add: demo_client_def)
  from unknown_channel_not_requested [OF demo_new_simps(1) this]
  show "?P st" by (simp add: demo_new_simps)
qed

end
