(* ===== verification/Wire_Interleaving.thy ===== *)
theory Wire_Interleaving
  imports Wire_Properties
begin

text \<open>
  Several senders at once. The packets of their messages arrive in any interleaving and with repetitions; every
  sender has its own receiver, and the state apart from the receivers (\<open>with_receivers []\<close>) only changes
  when a message is complete.
\<close>

subsection \<open>Datagrams and messages\<close>

fun receive_from ::
  "('c, 's, 'p, 'i, 'd, 'k) wire_deps \<Rightarrow> ('a, 'd) wire_state \<Rightarrow> ('a \<times> u8 list) list \<Rightarrow> ('c, 's, 'p, 'i) client \<Rightarrow>
     (unit, wire_error) result list \<times> ('a, 'd) wire_state" where
  "receive_from W s [] c = ([], s)"
| "receive_from W s ((a, d) # es) c =
     (let (r, s) = receive_packet W s d a c; (rs, s) = receive_from W s es c in (r # rs, s))"

fun process_each ::
  "('c, 's, 'p, 'i, 'd, 'k) wire_deps \<Rightarrow> ('a, 'd) wire_state \<Rightarrow> network_protocol list \<Rightarrow> ('c, 's, 'p, 'i) client \<Rightarrow>
     (unit, wire_error) result list \<times> ('a, 'd) wire_state" where
  "process_each W s [] c = ([], s)"
| "process_each W s (m # ms) c =
     (let (r, s) = process_message W s m c; (rs, s) = process_each W s ms c in (r # rs, s))"

lemma process_each_append:
  "process_each W s (ms @ ms') c =
    (let (rs, s) = process_each W s ms c; (rs', s) = process_each W s ms' c in (rs @ rs', s))"
  by (induction ms arbitrary: s) (auto simp: Let_def split: prod.split)

lemma process_each_with_receivers:
  "process_each W (with_receivers rs s) ms c = map_prod (\<lambda>r. r) (with_receivers rs) (process_each W s ms c)"
  by (induction ms arbitrary: s) (auto simp: Let_def process_message_with_receivers split: prod.split)

text \<open>What is to be seen of the results: the errors, in their order.\<close>

abbreviation errors :: "(unit, wire_error) result list \<Rightarrow> (unit, wire_error) result list" where
  "errors rs \<equiv> filter (\<lambda>r. r \<noteq> Ok ()) rs"

text \<open>\<open>amounts W c s ms rs t\<close>: the results and the change of the state are those of processing the messages \<open>ms\<close>.\<close>

definition amounts ::
  "('c, 's, 'p, 'i, 'd, 'k) wire_deps \<Rightarrow> ('c, 's, 'p, 'i) client \<Rightarrow> ('a, 'd) wire_state \<Rightarrow> network_protocol list \<Rightarrow>
     (unit, wire_error) result list \<Rightarrow> ('a, 'd) wire_state \<Rightarrow> bool" where
  "amounts W c s ms rs t \<longleftrightarrow>
     errors rs = errors (fst (process_each W s ms c)) \<and>
     with_receivers [] t = with_receivers [] (snd (process_each W s ms c))"

lemma amounts_trans:
  assumes "amounts W c s ms rs t" "amounts W c t ms' rs' u"
  shows "amounts W c s (ms @ ms') (rs @ rs') u"
proof -
  obtain qs v where qs: "process_each W s ms c = (qs, v)" by fastforce
  have t: "process_each W t ms' c = map_prod (\<lambda>r. r) (with_receivers (receivers t)) (process_each W v ms' c)"
  proof -
    have "t = with_receivers (receivers t) (with_receivers [] t)" by simp
    also have "\<dots> = with_receivers (receivers t) v" using assms(1) by (simp add: amounts_def qs)
    finally show ?thesis using process_each_with_receivers [of W "receivers t" v ms' c] by simp
  qed
  then show ?thesis
    using assms by (auto simp: amounts_def qs process_each_append Let_def split: prod.split)
qed

subsection \<open>Several receivers\<close>

definition pending_from ::
  "('d, 'k) raptorq \<Rightarrow> u8 list \<Rightarrow> 'k wire_writer \<Rightarrow> 'k list \<Rightarrow> 'a \<Rightarrow> ('a, 'd) wire_state \<Rightarrow> bool" where
  "pending_from R data w ps a s \<longleftrightarrow>
     \<not> set (ww_encoded w) \<subseteq> set ps \<and>
     (case map_of (receivers s) a of
        None \<Rightarrow> ps = []
      | Some info \<Rightarrow> last_completed info \<noteq> Some (ww_message_number w) \<and> ready R data w ps info)"

definition completed_from :: "'k wire_writer \<Rightarrow> 'a \<Rightarrow> ('a, 'd) wire_state \<Rightarrow> bool" where
  "completed_from w a s \<longleftrightarrow>
     (\<exists>info. map_of (receivers s) a = Some info \<and> last_completed info = Some (ww_message_number w))"

definition room_for :: "nat \<Rightarrow> 'a set \<Rightarrow> ('a, 'd) wire_state \<Rightarrow> bool" where
  "room_for M A s \<longleftrightarrow>
     finite A \<and> distinct (map fst (receivers s)) \<and> card (fst ` set (receivers s) \<union> A) \<le> M"

lemma room_for_waiting:
  assumes room: "room_for M A s" and a: "a \<in> A" and pending: "pending_from R data w ps a s"
  shows "waiting M R data w ps a s"
proof (cases "map_of (receivers s) a")
  case None
  then have "a \<notin> fst ` set (receivers s)" by (simp add: map_of_eq_None_iff)
  then have "card (fst ` set (receivers s)) < card (fst ` set (receivers s) \<union> A)"
    using a room by (intro psubset_card_mono) (auto simp: room_for_def)
  moreover have "card (fst ` set (receivers s)) = length (receivers s)"
    using room distinct_card [of "map fst (receivers s)"] by (simp add: room_for_def)
  ultimately show ?thesis using room pending None by (simp add: waiting_def pending_from_def room_for_def)
qed (use pending in \<open>simp add: waiting_def pending_from_def\<close>)

lemma room_for_put: "room_for M A s \<Longrightarrow> a \<in> A \<Longrightarrow> room_for M A (put_receiver a info s)"
proof -
  assume room: "room_for M A s" and a: "a \<in> A"
  have "fst ` set (AList.update a info (receivers s)) = insert a (fst ` set (receivers s))"
    by (metis dom_map_of_conv_image_fst dom_fun_upd option.distinct(1) update_conv')
  then have "fst ` set (AList.update a info (receivers s)) \<union> A = fst ` set (receivers s) \<union> A" using a by auto
  then show ?thesis using room by (simp add: room_for_def put_receiver_def distinct_update)
qed

lemma process_message_receivers:
  assumes "process_message W s m c = (r, t)"
  shows "receivers t = receivers s" "mtu t = mtu s"
  using wire_frame_simps [OF process_message_frame(1) [OF assms]] by simp_all

text \<open>
  \<open>collecting M R A data w ps seen s\<close>: of the senders in \<open>A\<close>, those in \<open>seen\<close> have had their message
  completed, in this order, and from every other the packets \<open>ps\<close> are there, which are not all.
\<close>

definition collecting ::
  "nat \<Rightarrow> ('d, 'k) raptorq \<Rightarrow> 'a set \<Rightarrow> ('a \<Rightarrow> u8 list) \<Rightarrow> ('a \<Rightarrow> 'k wire_writer) \<Rightarrow> ('a \<Rightarrow> 'k list) \<Rightarrow> 'a list \<Rightarrow>
     ('a, 'd) wire_state \<Rightarrow> bool" where
  "collecting M R A data w ps seen s \<longleftrightarrow>
     room_for M A s \<and> distinct seen \<and> set seen \<subseteq> A \<and>
     (\<forall>a \<in> A. if a \<in> set seen then completed_from (w a) a s else pending_from R (data a) (w a) (ps a) a s)"

lemma collecting_put:
  assumes coll: "collecting M R A data w ps seen s" and a: "a \<in> A" "a \<notin> set seen"
  shows "last_completed info \<noteq> Some (ww_message_number (w a)) \<Longrightarrow> ready R (data a) (w a) ks info \<Longrightarrow>
      \<not> set (ww_encoded (w a)) \<subseteq> set ks \<Longrightarrow>
      collecting M R A data w (ps(a := ks)) seen (put_receiver a info s)"
    "last_completed info = Some (ww_message_number (w a)) \<Longrightarrow>
      collecting M R A data w ps' (seen @ [a]) (put_receiver a info s) \<longleftrightarrow>
        (\<forall>b \<in> A - insert a (set seen). pending_from R (data b) (w b) (ps' b) b s)"
  using coll a room_for_put [of M A s a info]
  by (auto simp: collecting_def pending_from_def completed_from_def)

lemma collecting_with_receivers:
  "receivers t = receivers s \<Longrightarrow> collecting M R A data w ps seen t = collecting M R A data w ps seen s"
  by (simp add: collecting_def room_for_def pending_from_def completed_from_def)

text \<open>The packet that completes a message, and any packet of the interleaving.\<close>

lemma complete_collecting:
  assumes parsed: "from_bytes (wd_messages W) (data a) = Ok (msg a)" and n: "ww_message_number (w a) = n"
    and coll: "collecting M R A data w ps seen s" and a: "a \<in> A" "a \<notin> set seen"
  obtains r t where "complete_message W s a info n (data a) c = (r, t)"
    "collecting M R A data w (ps(a := ks)) (seen @ [a]) t" "amounts W c s (map msg [a]) [r] t" "mtu t = mtu s"
proof -
  let ?s = "put_receiver a (info\<lparr>last_completed := Some n\<rparr>) s"
  obtain r t where r: "process_message W ?s (msg a) c = (r, t)" by fastforce
  have "complete_message W s a info n (data a) c = (r, t)" using parsed r by (simp add: complete_message_def)
  moreover have "collecting M R A data w (ps(a := ks)) (seen @ [a]) ?s"
    using coll n by (simp add: collecting_put(2) [OF coll a]) (auto simp: collecting_def)
  then have "collecting M R A data w (ps(a := ks)) (seen @ [a]) t"
    by (rule collecting_with_receivers [OF process_message_receivers(1) [OF r], THEN iffD2])
  moreover have "amounts W c s (map msg [a]) [r] t"
    using r process_message_with_receivers [of W "AList.update a (info\<lparr>last_completed := Some n\<rparr>) (receivers s)" s "msg a" c]
    by (cases "process_message W s (msg a) c") (auto simp: amounts_def put_receiver_with_receivers)
  moreover have "mtu t = mtu s" using process_message_receivers(2) [OF r] by simp
  ultimately show thesis by (rule that)
qed

lemma receive_collecting:
  assumes R: "raptorq_ok (wd_raptorq W)" and parsed: "from_bytes (wd_messages W) (data a) = Ok (msg a)"
    and new: "wire_writer_new (wd_raptorq W) n (mtu s) (data a) rep = Ok (w a)"
    and fit: "packets_fit (wd_raptorq W) cap (w a)" "cap < usize_limit"
    and a: "a \<in> A" and k: "k \<in> set (ww_encoded (w a))"
    and coll: "collecting (d_max_nodes (wd_client W)) (wd_raptorq W) A data w ps seen s"
  obtains r t more_seen where "receive_packet W s (writer_packet (wd_raptorq W) (w a) k) a c = (r, t)"
    "collecting (d_max_nodes (wd_client W)) (wd_raptorq W) A data w (ps(a := ps a @ [k])) (seen @ more_seen) t"
    "amounts W c s (map msg more_seen) [r] t" "mtu t = mtu s"
proof (cases "a \<in> set seen")
  case True
  have "completed_from (w a) a s" using coll a True unfolding collecting_def by metis
  then obtain info where info: "map_of (receivers s) a = Some info" "last_completed info = Some (ww_message_number (w a))"
    by (auto simp: completed_from_def)
  have "check_packet (writer_packet (wd_raptorq W) (w a) k) = Ok (ww_message_number (w a))"
    using check_writer_packets [OF fit, of "[k]"] k by simp
  with info have "receive_packet W s (writer_packet (wd_raptorq W) (w a) k) a c = (Ok (), s)"
    by (intro receive_extra)
  with True coll show thesis by (intro that [of "Ok ()" s "[]"]) (auto simp: collecting_def amounts_def)
next
  case fresh: False
  have pending: "pending_from (wd_raptorq W) (data a) (w a) (ps a) a s" "room_for (d_max_nodes (wd_client W)) A s"
    using coll a fresh by (auto simp: collecting_def)
  obtain r info where info: "ready (wd_raptorq W) (data a) (w a) (ps a @ [k]) info" "last_completed info \<noteq> Some n"
      "r = None \<or> r = Some (data a)" "set (ww_encoded (w a)) \<subseteq> set (ps a @ [k]) \<Longrightarrow> r = Some (data a)"
      "receive_packet W s (writer_packet (wd_raptorq W) (w a) k) a c =
        (case r of None \<Rightarrow> (Ok (), put_receiver a info s) | Some bytes \<Rightarrow> complete_message W s a info n bytes c)"
    by (rule receive_expected [OF R new fit k room_for_waiting [OF pending(2) a pending(1)], where c = c]) (rule that)
  have n: "ww_message_number (w a) = n" using wire_writer_new_Ok [OF R new] by blast
  show thesis
  proof (cases r)
    case None
    then have "collecting (d_max_nodes (wd_client W)) (wd_raptorq W) A data w (ps(a := ps a @ [k])) seen (put_receiver a info s)"
      using info by (intro collecting_put(1) [OF coll a fresh]) (auto simp: n)
    with None info(5) show thesis
      by (intro that [of "Ok ()" "put_receiver a info s" "[]"]) (simp_all add: amounts_def put_receiver_with_receivers)
  next
    case (Some bytes)
    then have "receive_packet W s (writer_packet (wd_raptorq W) (w a) k) a c = complete_message W s a info n (data a) c"
      using info(3,5) by simp
    moreover obtain q t where "complete_message W s a info n (data a) c = (q, t)"
        "collecting (d_max_nodes (wd_client W)) (wd_raptorq W) A data w (ps(a := ps a @ [k])) (seen @ [a]) t"
        "amounts W c s (map msg [a]) [q] t" "mtu t = mtu s"
      by (rule complete_collecting [where a = a and data = data and w = w and msg = msg, OF parsed n coll a fresh])
    ultimately show thesis by (intro that [of q t "[a]"]) simp_all
  qed
qed

lemma receive_from_collecting:
  assumes R: "raptorq_ok (wd_raptorq W)"
    and parsed: "\<And>a. a \<in> A \<Longrightarrow> from_bytes (wd_messages W) (data a) = Ok (msg a)"
    and new: "\<And>a. a \<in> A \<Longrightarrow> wire_writer_new (wd_raptorq W) (num a) m (data a) (rep a) = Ok (w a)"
    and fit: "\<And>a. a \<in> A \<Longrightarrow> packets_fit (wd_raptorq W) cap (w a)" "cap < usize_limit"
  shows "mtu s = m \<Longrightarrow> set es \<subseteq> (SIGMA a:A. set (ww_encoded (w a))) \<Longrightarrow>
    collecting (d_max_nodes (wd_client W)) (wd_raptorq W) A data w ps seen s \<Longrightarrow>
    \<exists>rs t as. receive_from W s (map (\<lambda>(a, k). (a, writer_packet (wd_raptorq W) (w a) k)) es) c = (rs, t) \<and>
      collecting (d_max_nodes (wd_client W)) (wd_raptorq W) A data w
        (\<lambda>a. ps a @ map snd (filter (\<lambda>e. fst e = a) es)) (seen @ as) t \<and>
      amounts W c s (map msg as) rs t"
proof (induction es arbitrary: s ps seen)
  case Nil
  then show ?case by (intro exI [of _ "[]"] exI [of _ s]) (simp add: amounts_def)
next
  case (Cons e es)
  obtain a k where e: "e = (a, k)" by fastforce
  then have a: "a \<in> A" "k \<in> set (ww_encoded (w a))" using Cons.prems(2) by auto
  have new_s: "wire_writer_new (wd_raptorq W) (num a) (mtu s) (data a) (rep a) = Ok (w a)"
    using new [OF a(1)] Cons.prems(1) by simp
  obtain r t as where first: "receive_packet W s (writer_packet (wd_raptorq W) (w a) k) a c = (r, t)"
      "collecting (d_max_nodes (wd_client W)) (wd_raptorq W) A data w (ps(a := ps a @ [k])) (seen @ as) t"
      "amounts W c s (map msg as) [r] t" "mtu t = m"
    using Cons.prems(1)
    by - (rule receive_collecting [where a = a and data = data and w = w and msg = msg and c = c,
      OF R parsed [OF a(1)] new_s fit(1) [OF a(1)] fit(2) a Cons.prems(3)], simp)
  from Cons.IH [OF first(4) _ first(2)] Cons.prems(2) obtain rs u as' where
      rest: "receive_from W t (map (\<lambda>(a, k). (a, writer_packet (wd_raptorq W) (w a) k)) es) c = (rs, u)"
      "collecting (d_max_nodes (wd_client W)) (wd_raptorq W) A data w
        (\<lambda>b. (ps(a := ps a @ [k])) b @ map snd (filter (\<lambda>e. fst e = b) es)) ((seen @ as) @ as') u"
      "amounts W c t (map msg as') rs u" by auto
  have same: "(\<lambda>b. (ps(a := ps a @ [k])) b @ map snd (filter (\<lambda>e. fst e = b) es)) =
      (\<lambda>b. ps b @ map snd (filter (\<lambda>e. fst e = b) (e # es)))"
    by (auto simp: e fun_eq_iff)
  show ?case
    using first(1) rest(1) rest(2) [unfolded same] amounts_trans [OF first(3) rest(3)]
    by (intro exI [of _ "r # rs"] exI [of _ u] exI [of _ "as @ as'"]) (simp add: e Let_def)
qed

lemma datagrams_from_are_packets:
  assumes R: "raptorq_ok R" and all: "set ds = (SIGMA a:A. writer_packet R (w a) ` set (ww_encoded (w a)))"
  obtains es where "ds = map (\<lambda>(a, k). (a, writer_packet R (w a) k)) es" "set es = (SIGMA a:A. set (ww_encoded (w a)))"
proof -
  let ?f = "\<lambda>(a, k). (a, writer_packet R (w a) k)"
  have image: "set ds = ?f ` (SIGMA a:A. set (ww_encoded (w a)))" unfolding all by force
  then have "ds \<in> lists (?f ` (SIGMA a:A. set (ww_encoded (w a))))" by auto
  then obtain es where es: "ds = map ?f es" "set es \<subseteq> (SIGMA a:A. set (ww_encoded (w a)))"
    unfolding lists_image by auto
  have "inj_on ?f (SIGMA a:A. set (ww_encoded (w a)))"
    using writer_packet_inj [OF R] by (fastforce simp: inj_on_def)
  moreover have "?f ` set es = ?f ` (SIGMA a:A. set (ww_encoded (w a)))" using image unfolding es(1) by simp
  ultimately have "set es = (SIGMA a:A. set (ww_encoded (w a)))"
    using es(2) by (simp only: inj_on_image_eq_iff [OF _ es(2) order_refl])
  with es(1) show thesis by (rule that)
qed

text \<open>
  C9. Messages of several senders at once: their packets arrive in any interleaving, in any order and with
  repetitions, each packet at least once, at a device that has room for all the senders and has seen nothing of
  these messages. Every message is processed exactly once: in the order \<open>as\<close> in which they become
  complete, the errors and the state apart from the receivers are those of processing just the messages, and
  every sender's entry notes its message as completed.
\<close>

theorem interleaved_messages_processed:
  assumes R: "raptorq_ok (wd_raptorq W)" and S: "serde_ok (wd_messages W) enc"
    and new: "\<And>a. a \<in> A \<Longrightarrow> wire_writer_new (wd_raptorq W) (num a) (mtu s) (enc (msg a)) (rep a) = Ok (w a)"
    and fit: "\<And>a. a \<in> A \<Longrightarrow> packets_fit (wd_raptorq W) cap (w a)" "cap < usize_limit"
    and room: "room_for (d_max_nodes (wd_client W)) A s"
    and fresh: "\<And>a. a \<in> A \<Longrightarrow> fresh_sender (d_max_nodes (wd_client W)) (w a) a s"
    and all: "set ds = (SIGMA a:A. writer_packet (wd_raptorq W) (w a) ` set (ww_encoded (w a)))"
  shows "\<exists>as rs t. receive_from W s ds c = (rs, t) \<and> distinct as \<and> set as = A \<and>
    amounts W c s (map msg as) rs t \<and> (\<forall>a \<in> A. completed_from (w a) a t)"
proof -
  obtain es where es: "ds = map (\<lambda>(a, k). (a, writer_packet (wd_raptorq W) (w a) k)) es"
      "set es = (SIGMA a:A. set (ww_encoded (w a)))"
    by (rule datagrams_from_are_packets [OF R all])
  have "pending_from (wd_raptorq W) (enc (msg a)) (w a) [] a s" if a: "a \<in> A" for a
  proof -
    have "ww_encoded (w a) \<noteq> []" using wire_writer_new_Ok [OF R new [OF a]] by blast
    moreover have "waiting (d_max_nodes (wd_client W)) (wd_raptorq W) (enc (msg a)) (w a) [] a s"
      using a by (intro fresh_sender_waiting fresh)
    ultimately show ?thesis by (simp add: pending_from_def waiting_def split: option.splits)
  qed
  then have start: "collecting (d_max_nodes (wd_client W)) (wd_raptorq W) A (\<lambda>a. enc (msg a)) w (\<lambda>_. []) [] s"
    using room by (simp add: collecting_def)
  have run: "\<exists>rs t as. receive_from W s ds c = (rs, t) \<and>
      collecting (d_max_nodes (wd_client W)) (wd_raptorq W) A (\<lambda>a. enc (msg a)) w
        (\<lambda>a. [] @ map snd (filter (\<lambda>e. fst e = a) es)) ([] @ as) t \<and> amounts W c s (map msg as) rs t"
    unfolding es(1)
  proof (rule receive_from_collecting [OF R _ new fit refl _ start])
    show "from_bytes (wd_messages W) (enc (msg a)) = Ok (msg a)" for a by (rule serde_from_bytes [OF S])
    show "set es \<subseteq> (SIGMA a:A. set (ww_encoded (w a)))" using es(2) by (rule equalityD1)
  qed
  from run obtain rs t as where run: "receive_from W s ds c = (rs, t)" "amounts W c s (map msg as) rs t" and
      coll: "collecting (d_max_nodes (wd_client W)) (wd_raptorq W) A (\<lambda>a. enc (msg a)) w
        (\<lambda>a. map snd (filter (\<lambda>e. fst e = a) es)) as t"
    unfolding append_Nil by blast
  have "a \<in> set as" if a: "a \<in> A" for a
  proof (rule ccontr)
    assume "a \<notin> set as"
    with coll a have "\<not> set (ww_encoded (w a)) \<subseteq> snd ` {e \<in> set es. fst e = a}"
      by (auto simp: collecting_def pending_from_def)
    moreover have "snd ` {e \<in> set es. fst e = a} = set (ww_encoded (w a))" using a es(2) by force
    ultimately show False by simp
  qed
  then have "set as = A" "distinct as" "\<forall>a \<in> A. completed_from (w a) a t"
    using coll by (auto simp: collecting_def)
  with run show ?thesis by blast
qed

subsection \<open>Witness\<close>

definition demo_message :: "u8 list \<Rightarrow> network_protocol" where
  "demo_message a = (if a = [1] then demo_hello
     else SyncRequest \<lparr>req_session_id = 1, req_bytes_budget = 2, req_vector_clock = []\<rparr>)"

abbreviation demo_message_writer :: "u8 list \<Rightarrow> u8 list wire_writer" where
  "demo_message_writer a \<equiv> demo_writer 5 (enc_network (demo_message a))"

lemma length_demo_message: "length (enc_network (demo_message a)) \<le> 200"
  by (simp add: demo_message_def length_demo_hello)

text \<open>The packets of two senders in turn, with one repetition.\<close>

definition demo_datagrams :: "(u8 list \<times> u8 list) list" where
  "demo_datagrams = (let p = (\<lambda>a i. (a, writer_packet demo_raptorq (demo_message_writer a)
       (ww_encoded (demo_message_writer a) ! i))) in [p [1] 1, p [2] 0, p [1] 1, p [1] 0, p [2] 1])"

theorem interleaved_messages_processed_witness:
  "\<forall>st. \<exists>as rs t. receive_from demo_wire demo_new demo_datagrams (demo_client 9 st) = (rs, t) \<and> distinct as \<and>
    set as = {[1], [2]} \<and> amounts demo_wire (demo_client 9 st) demo_new (map demo_message as) rs t \<and>
    (\<forall>a \<in> {[1], [2]}. completed_from (demo_message_writer a) a t)"
proof (intro allI interleaved_messages_processed [OF demo_wire_raptorq_ok])
  show "serde_ok (wd_messages demo_wire) enc_network" by (simp add: network_serde_ok)
  show "300 < usize_limit" by (rule usize_300)
  show "room_for (d_max_nodes (wd_client demo_wire)) {[1], [2]} demo_new"
    by (simp add: room_for_def demo_new_simps)
  show "set demo_datagrams = (SIGMA a:{[1], [2]}. writer_packet (wd_raptorq demo_wire) (demo_message_writer a) `
      set (ww_encoded (demo_message_writer a)))"
    by (auto simp: demo_datagrams_def demo_writer_def)
qed (simp_all add: demo_new_writer demo_writer_fits demo_new_fresh length_demo_message [THEN order_trans]
    del: demo_wire_simps)

end
