(* ===== verification/Heap_Type.thy ===== *)
theory Heap_Type
  imports Finder_Prelude
begin

text \<open>
  \<^verbatim>\<open>protocol/src/heap_type.rs\<close>: a static value that can be borrowed mutably once. \<open>take_mut\<close> runs in a
  critical section, so the calls of all contexts (tasks and interrupt handlers) happen one after
  another, in some order. The reference it hands out is represented by the value it refers to;
  that no second one exists is the theorem \<open>taken_once\<close>.
\<close>

datatype guard_cell_error = AlreadyUsed | GuardCell_Unreachable

record 't guard_cell =
  taken :: bool
  cell_data :: 't

type_synonym 't static_allocation = "'t guard_cell"

definition static_wrap :: "'t \<Rightarrow> 't static_allocation" where
  "static_wrap inner = \<lparr>taken = False, cell_data = inner\<rparr>"

definition take_mut :: "'t static_allocation \<Rightarrow> ('t, guard_cell_error) result \<times> 't static_allocation" where
  "take_mut cell =
     (if taken cell then (Err AlreadyUsed, cell)
      else
        (let cell = cell\<lparr>taken := True\<rparr>;
             result = cell_data cell in
         (Ok result, cell)))"

text \<open>
  \<open>owners cell cs\<close>: from a new cell, with contexts calling \<^verbatim>\<open>take_mut\<close> in any order, the contexts
  \<open>cs\<close> have been given the reference.
\<close>

inductive owners :: "'t \<Rightarrow> 't static_allocation \<Rightarrow> 'c list \<Rightarrow> bool" for inner :: 't where
  owners_wrap: "owners inner (static_wrap inner) []"
| owners_take: "owners inner cell cs \<Longrightarrow> take_mut cell = (r, cell') \<Longrightarrow>
    owners inner cell' (case r of Ok x \<Rightarrow> c # cs | _ \<Rightarrow> cs)"

lemma owners_inv: "owners inner cell cs \<Longrightarrow> cell_data cell = inner \<and> length cs = (if taken cell then 1 else 0)"
  by (induction rule: owners.induct) (auto simp: static_wrap_def take_mut_def Let_def split: if_splits)

text \<open>
  C32. A static allocation is handed out to one context only. Whatever the order in which contexts ask for
  it, at most one of them ever holds the reference; the first call succeeds with the wrapped value, and
  after it every call is refused.
\<close>

theorem taken_once:
  assumes "owners inner cell cs"
  shows "length cs \<le> 1 \<and>
    take_mut cell = (if cs = [] then (Ok inner, \<lparr>taken = True, cell_data = inner\<rparr>) else (Err AlreadyUsed, cell))"
  using owners_inv [OF assms] by (cases cell) (auto simp: take_mut_def Let_def)

theorem taken_once_witness:
  "owners (7 :: nat) \<lparr>taken = True, cell_data = 7\<rparr> [True] \<and>
    take_mut \<lparr>taken = True, cell_data = 7 :: nat\<rparr> = (Err AlreadyUsed, \<lparr>taken = True, cell_data = 7\<rparr>)"
proof -
  have "take_mut (static_wrap (7 :: nat)) = (Ok 7, \<lparr>taken = True, cell_data = 7\<rparr>)"
    by (simp add: take_mut_def static_wrap_def Let_def)
  from owners_take [OF owners_wrap this, of True]
  have run: "owners (7 :: nat) \<lparr>taken = True, cell_data = 7\<rparr> [True]" by simp
  from taken_once [OF run] run show ?thesis by simp
qed

end
