(* ===== verification/Network_Loop.thy ===== *)
theory Network_Loop
  imports Wire Heap_Type Client_Facts
begin

text \<open>
  \<^verbatim>\<open>s3-dongle/src/main.rs\<close>: the firmware's set-up of a client and its endless loop, which hands received
  datagrams to the wire and broadcasts the packets of what the wire wants to send. The radio and the
  clock are the \<^verbatim>\<open>esp-wifi\<close> crate, the parameter \<open>esp_now\<close> over a radio state \<open>'e\<close>; a call that
  the code unwraps answers with \<open>False\<close> or \<open>None\<close> where the crate's call fails.
\<close>

definition MEGA_BYTE :: nat where
  "MEGA_BYTE = 1024"

definition SLAB_SIZE :: nat where
  "SLAB_SIZE = 1024"

definition ESP_NOW_MTU :: u16 where
  "ESP_NOW_MTU = 250"

definition REPAIR_COUNT :: u32 where
  "REPAIR_COUNT = 3"

type_synonym address = "u8 list"

record datagram =
  src_address :: address
  dst_address :: address
  dg_data :: "u8 list"

record 'e esp_now =
  en_broadcast :: address
  en_receive :: "'e \<Rightarrow> datagram option \<times> 'e"
  en_peer_exists :: "'e \<Rightarrow> address \<Rightarrow> bool"
  en_add_peer :: "'e \<Rightarrow> address \<Rightarrow> bool \<times> 'e"
  en_peer_count :: "'e \<Rightarrow> 32 word option"
  en_now :: "'e \<Rightarrow> u64 \<times> 'e"
  en_send :: "'e \<Rightarrow> address \<Rightarrow> u8 list \<Rightarrow> bool \<times> 'e"

record ('d, 'e) device =
  dev_radio :: 'e
  dev_state :: "(address, 'd) wire_state"
  dev_buffer :: "u8 list"

subsection \<open>The loop\<close>

text \<open>A sender of a broadcast becomes a peer. \<open>False\<close> when the radio refuses, which panics.\<close>

definition learn_peer :: "'e esp_now \<Rightarrow> 'e \<Rightarrow> datagram \<Rightarrow> bool \<times> 'e" where
  "learn_peer E radio r =
     (if dst_address r = en_broadcast E \<and> \<not> en_peer_exists E radio (src_address r)
      then en_add_peer E radio (src_address r) else (True, radio))"

fun send_packets ::
  "('d, 'k) raptorq \<Rightarrow> 'e esp_now \<Rightarrow> nat \<Rightarrow> 'k wire_writer \<Rightarrow> 'e \<Rightarrow> (unit, wire_error) result \<times> 'e" where
  "send_packets R E 0 writer radio = (Ok (), radio)"
| "send_packets R E (Suc n) writer radio =
     (let (len, writer, buffer) = writer_next R writer (replicate 250 0) in
      case len of
        Ok len \<Rightarrow>
          (case range_get buffer 0 len of
             None \<Rightarrow> (Panic, radio)
           | Some data \<Rightarrow>
               (let (sent, radio) = en_send E radio (en_broadcast E) data in
                if sent then send_packets R E n writer radio else (Panic, radio)))
      | _ \<Rightarrow> (Panic, radio))"

text \<open>The second half of a turn: poll, and broadcast what it hands out.\<close>

definition poll_turn ::
  "('c, 's, 'p, 'i, 'd, 'k) wire_deps \<Rightarrow> 'e esp_now \<Rightarrow> ('c, 's, 'p, 'i) client \<Rightarrow> channel_id list \<Rightarrow>
     ('d, 'e) device \<Rightarrow> (unit, wire_error) result \<times> ('d, 'e) device" where
  "poll_turn W E client channel_ids dev =
     (let (now, radio) = en_now E (dev_radio dev);
          dev = dev\<lparr>dev_radio := radio\<rparr> in
      case en_peer_count E radio of
        None \<Rightarrow> (Panic, dev)
      | Some total_count \<Rightarrow>
          (let peer_count = (ucast total_count :: u8);
               (result, state, buffer) = poll W (dev_state dev) (dev_buffer dev) now peer_count channel_ids
                 REPAIR_COUNT client;
               dev = dev\<lparr>dev_state := state, dev_buffer := buffer\<rparr> in
           case result of
             Ok result \<Rightarrow>
               (case poll_writer result of
                  None \<Rightarrow> (Ok (), dev)
                | Some writer \<Rightarrow>
                    (let (sent, radio) = send_packets (wd_raptorq W) E (packet_count writer) writer (dev_radio dev) in
                     (sent, dev\<lparr>dev_radio := radio\<rparr>)))
           | _ \<Rightarrow> (Panic, dev)))"

text \<open>
  One turn of the loop. A datagram that cannot be received ends the turn early; everything else goes on
  to the poll.
\<close>

definition loop_turn ::
  "('c, 's, 'p, 'i, 'd, 'k) wire_deps \<Rightarrow> 'e esp_now \<Rightarrow> ('c, 's, 'p, 'i) client \<Rightarrow> channel_id list \<Rightarrow>
     ('d, 'e) device \<Rightarrow> (unit, wire_error) result \<times> ('d, 'e) device" where
  "loop_turn W E client channel_ids dev =
     (let (received, radio) = en_receive E (dev_radio dev);
          dev = dev\<lparr>dev_radio := radio\<rparr> in
      case received of
        None \<Rightarrow> poll_turn W E client channel_ids dev
      | Some r \<Rightarrow>
          (let (added, radio) = learn_peer E (dev_radio dev) r;
               dev = dev\<lparr>dev_radio := radio\<rparr> in
           if \<not> added then (Panic, dev)
           else
             (let (outcome, state) = receive_packet W (dev_state dev) (dg_data r) (src_address r) client;
                  dev = dev\<lparr>dev_state := state\<rparr> in
              case outcome of
                Ok _ \<Rightarrow> poll_turn W E client channel_ids dev
              | Err e \<Rightarrow> (Ok (), dev)
              | Panic \<Rightarrow> (Panic, dev))))"

text \<open>
  \<^verbatim>\<open>network_loop\<close> takes the message buffer, makes a state and turns for ever: \<open>network_loop n\<close> is the
  loop after \<open>n\<close> turns, or where it panicked before.
\<close>

fun loop_turns ::
  "nat \<Rightarrow> ('c, 's, 'p, 'i, 'd, 'k) wire_deps \<Rightarrow> 'e esp_now \<Rightarrow> ('c, 's, 'p, 'i) client \<Rightarrow> channel_id list \<Rightarrow>
     ('d, 'e) device \<Rightarrow> (unit, wire_error) result \<times> ('d, 'e) device" where
  "loop_turns 0 W E client channel_ids dev = (Ok (), dev)"
| "loop_turns (Suc n) W E client channel_ids dev =
     (case loop_turn W E client channel_ids dev of
        (Ok _, dev) \<Rightarrow> loop_turns n W E client channel_ids dev
      | (r, dev) \<Rightarrow> (r, dev))"

definition network_loop ::
  "nat \<Rightarrow> ('c, 's, 'p, 'i, 'd, 'k) wire_deps \<Rightarrow> 'e esp_now \<Rightarrow> channel_id \<Rightarrow> ('c, 's, 'p, 'i) client \<Rightarrow>
     u8 list static_allocation \<Rightarrow> 'e \<Rightarrow> (unit, wire_error) result \<times> ('d, 'e) device" where
  "network_loop n W E cid client MESSAGE_BUFFER radio =
     (let (message_buffer, MESSAGE_BUFFER) = take_mut MESSAGE_BUFFER;
          channel_ids = [cid];
          state = wire_state_new ESP_NOW_MTU in
      case message_buffer of
        Ok buffer \<Rightarrow> loop_turns n W E client channel_ids \<lparr>dev_radio = radio, dev_state = state, dev_buffer = buffer\<rparr>
      | _ \<Rightarrow> (Panic, \<lparr>dev_radio = radio, dev_state = state, dev_buffer = []\<rparr>))"

subsection \<open>Setting up the client\<close>

fun unwrap :: "('a, 'e) result \<Rightarrow> ('a, 'f) result" where
  "unwrap (Ok x) = Ok x"
| "unwrap _ = Panic"

text \<open>
  \<^verbatim>\<open>main\<close> up to the radio: the random seed and the key pair, which the code parses from a constant, are
  arguments, and \<open>app_deps\<close> of the sizes of the firmware are its instances of the generics.
\<close>

definition set_up ::
  "('rng, 's, 'p, 'sig) primitives \<Rightarrow> stored serde \<Rightarrow> 'p protocol message serde \<Rightarrow> sealed_envelope serde \<Rightarrow>
     'p new_channel serde \<Rightarrow> u8 list \<Rightarrow> ('s, 'p) key_pair \<Rightarrow> u8 list static_allocation \<Rightarrow>
     ('p, mem_io) client_channels static_allocation \<Rightarrow>
     (channel_id \<times> ('rng rust_crypto, 's, 'p, mem_io) client, client_error) result" where
  "set_up P SR SM SE SN seed key_pair MEMIO_BUFFER CHANNELS_CONST =
     (let D = app_deps SLAB_SIZE P SR SM SE SN 2 2 in
      bind_ok (unwrap (rust_crypto_new P seed)) (\<lambda>crypto.
      bind_ok (unwrap (fst (take_mut MEMIO_BUFFER))) (\<lambda>data.
      bind_ok (unwrap (mem_io_new SLAB_SIZE data)) (\<lambda>io.
      bind_ok (unwrap (fst (take_mut CHANNELS_CONST))) (\<lambda>channels.
      let client = client_new D key_pair crypto channels;
          (made, client) = init_chat D client ''Test Chat'' io in
      bind_ok (unwrap made) (\<lambda>cid.
      bind_ok (unwrap (client_list_nodes client cid)) (\<lambda>known.
      Ok (cid, client))))))))"

text \<open>The embedded key pair; \<open>parsed\<close> is what the crate \<^verbatim>\<open>rsa\<close> makes of the constant \<^verbatim>\<open>PRIVATE_KEY\<close>.\<close>

definition get_test_keys :: "('rng, 's, 'p, 'sig) primitives \<Rightarrow> 's option \<Rightarrow> (('s, 'p) key_pair, 'e) result" where
  "get_test_keys P parsed =
     bind_ok (expect parsed) (\<lambda>private_key.
     let public_key = to_public_key P private_key in
     Ok \<lparr>kp_public = public_key, kp_private = private_key\<rparr>)"

text \<open>
  \<^verbatim>\<open>main\<close>: the set-up, the start of the radio (\<open>None\<close> when one of its calls fails, which the code unwraps), and the
  loop for \<open>n\<close> turns. The wire is instantiated with the sizes of the firmware, too.
\<close>

definition firmware_wire ::
  "('rng, 's, 'p, 'sig) primitives \<Rightarrow> stored serde \<Rightarrow> 'p protocol message serde \<Rightarrow> sealed_envelope serde \<Rightarrow>
     'p new_channel serde \<Rightarrow> ('d, 'k) raptorq \<Rightarrow> network_protocol serde \<Rightarrow>
     ('rng rust_crypto, 's, 'p, mem_io, 'd, 'k) wire_deps" where
  "firmware_wire P SR SM SE SN R SP =
     \<lparr>wd_client = app_deps SLAB_SIZE P SR SM SE SN 2 2, wd_raptorq = R, wd_messages = SP\<rparr>"

definition firmware_main ::
  "nat \<Rightarrow> ('rng, 's, 'p, 'sig) primitives \<Rightarrow> stored serde \<Rightarrow> 'p protocol message serde \<Rightarrow> sealed_envelope serde \<Rightarrow>
     'p new_channel serde \<Rightarrow> ('d, 'k) raptorq \<Rightarrow> network_protocol serde \<Rightarrow> 'e esp_now \<Rightarrow> u8 list \<Rightarrow> 's option \<Rightarrow>
     u8 list static_allocation \<Rightarrow> ('p, mem_io) client_channels static_allocation \<Rightarrow> u8 list static_allocation \<Rightarrow>
     'e option \<Rightarrow> (unit, wire_error) result \<times> ('d, 'e) device option" where
  "firmware_main n P SR SM SE SN R SP E seed parsed MEMIO_BUFFER CHANNELS_CONST MESSAGE_BUFFER esp_now =
     (case bind_ok (get_test_keys P parsed) (\<lambda>key_pair. set_up P SR SM SE SN seed key_pair MEMIO_BUFFER CHANNELS_CONST) of
        Ok (cid, client) \<Rightarrow>
          (case esp_now of
             None \<Rightarrow> (Panic, None)
           | Some esp_now \<Rightarrow>
               (let (outcome, dev) = network_loop n (firmware_wire P SR SM SE SN R SP) E cid client MESSAGE_BUFFER esp_now in
                (outcome, Some dev)))
      | _ \<Rightarrow> (Panic, None))"

end
