(* ===== verification/Firmware.thy ===== *)
theory Firmware
  imports Network_Loop Start_Demo Wire_Properties
begin

text \<open>
  Properties of the firmware: its loop broadcasts every packet of a message, and with the sizes it is
  built with the store of its only channel is full as soon as the channel has been made.
\<close>

subsection \<open>Broadcasting a message\<close>

abbreviation broadcast :: "'e esp_now \<Rightarrow> u8 list \<Rightarrow> 'e \<Rightarrow> 'e" where
  "broadcast E d radio \<equiv> snd (en_send E radio (en_broadcast E) d)"

lemma send_packets_from:
  assumes enc: "ww_encoded w \<noteq> []" "packets_fit R 250 w"
    and sends: "\<And>radio d. fst (en_send E radio (en_broadcast E) d)"
  shows "ww_last_sent w + n < usize_limit \<Longrightarrow> send_packets R E n w radio =
    (Ok (), fold (\<lambda>i. broadcast E (writer_packet R w (ww_encoded w ! (i mod length (ww_encoded w)))))
       [Suc (ww_last_sent w)..<Suc (ww_last_sent w + n)] radio)"
  using enc
proof (induction n arbitrary: w radio)
  case 0
  then show ?case by simp
next
  case (Suc n)
  let ?i = "Suc (ww_last_sent w) mod length (ww_encoded w)"
  let ?k = "ww_encoded w ! ?i" and ?w = "w\<lparr>ww_last_sent := Suc (ww_last_sent w)\<rparr>"
  have i: "?i = ((ww_last_sent w + 1) mod usize_limit) mod length (ww_encoded w)" using Suc.prems(1) by simp
  have fit: "6 + length (rq_serialize R ?k) \<le> length (replicate 250 (0 :: u8))"
    using Suc.prems(2,3) by (simp add: packets_fit_def)
  have buf: "length (replicate 250 (0 :: u8)) < usize_limit" by (simp add: usize_limit_def)
  have nxt: "writer_next R w (replicate 250 0) = (Ok (6 + length (rq_serialize R ?k)), ?w,
      overwrite (replicate 250 0) 0 (writer_packet R w ?k))"
    using writer_next_packet [OF Suc.prems(2) buf i fit] Suc.prems(1) by (simp add: writer_packet_def)
  have "range_get (overwrite (replicate 250 0) 0 (writer_packet R w ?k)) 0 (6 + length (rq_serialize R ?k))
      = Some (writer_packet R w ?k)"
    using fit by (simp add: range_get_def writer_packet_def overwrite_def)
  moreover have "send_packets R E n ?w (broadcast E (writer_packet R w ?k) radio) =
    (Ok (), fold (\<lambda>i. broadcast E (writer_packet R w (ww_encoded w ! (i mod length (ww_encoded w)))))
       [Suc (Suc (ww_last_sent w))..<Suc (Suc (ww_last_sent w) + n)] (broadcast E (writer_packet R w ?k) radio))"
    using Suc.IH [of ?w "broadcast E (writer_packet R w ?k) radio"] Suc.prems
    by (simp add: packets_fit_def writer_packet_def)
  moreover obtain radio' where "en_send E radio (en_broadcast E) (writer_packet R w ?k) = (True, radio')"
    using sends [of radio "writer_packet R w ?k"] by (metis prod.collapse)
  ultimately show ?case using Suc.prems(1)
    by (simp add: nxt upt_conv_Cons [of "Suc (ww_last_sent w)"] del: upt_Suc)
qed

lemma rotated: "map (\<lambda>i. xs ! (i mod length xs)) [Suc 0..<Suc (length xs)] = rotate1 xs"
  by (rule nth_equalityI) (auto simp: nth_rotate1 simp del: upt_Suc)

text \<open>
  The loop broadcasts a whole message. Over a radio that does not refuse to send, the packets that
  leave the device for a new writer are exactly the packets of its message, each once: the second one
  first, because \<^verbatim>\<open>next\<close> counts before it picks, and the first one last. Every one of them fits a
  datagram, and no step of the writer or of the slicing panics.
\<close>

lemma message_broadcast:
  assumes R: "raptorq_ok R" and new: "wire_writer_new R n m data rep = Ok w"
    and fit: "packets_fit R 250 w" "length (ww_encoded w) < usize_limit"
    and sends: "\<forall>radio d. fst (en_send E radio (en_broadcast E) d)"
  shows "send_packets R E (packet_count w) w radio =
    (Ok (), fold (broadcast E) (map (writer_packet R w) (rotate1 (ww_encoded w))) radio)"
proof -
  have w: "ww_encoded w \<noteq> []" "ww_last_sent w = 0" using wire_writer_new_Ok [OF R new] by blast+
  show ?thesis
    using send_packets_from [OF w(1) fit(1) sends [rule_format], of "length (ww_encoded w)" radio] fit(2)
    by (simp add: w(2) packet_count_def fold_map comp_def del: upt_Suc flip: rotated)
qed

subsection \<open>The store of the firmware\<close>

lemma kept_or_return:
  "f s = n \<Longrightarrow> (\<And>x. r = Ok x \<Longrightarrow> f (snd (k x)) = n) \<Longrightarrow> f (snd (or_return r s k)) = n"
  by (cases r) auto

lemma kept_prod:
  "(\<And>a b. p = (a, b) \<Longrightarrow> f (snd (k a b)) = n) \<Longrightarrow> f (snd (case p of (a, b) \<Rightarrow> k a b)) = n"
  by (cases p) auto

lemma mem_write_record_max_index: "max_index (snd (mem_write_record S io a b x)) = max_index io"
  unfolding mem_write_record_def Let_def
  by (intro kept_or_return [where f = max_index] kept_prod [where f = max_index]) simp_all

lemma mem_commit_max_index: "max_index (snd (mem_commit io c x a)) = max_index io"
  unfolding mem_commit_def Let_def
  by (intro kept_or_return [where f = max_index] kept_prod [where f = max_index]) simp_all

lemma write_record_max_index:
  "max_index (w_io (snd (write_record (mem_io_trait SLAB S) w m n s nd d))) = max_index (w_io w)"
proof (cases "w_slab_max_sequence w > m")
  case False
  let ?f = "\<lambda>w. max_index (w_io w)"
  have "max_index io = max_index (w_io w)" if "mem_write_record S (w_io w) a b x = (r, io)" for a b x r io
    using mem_write_record_max_index [of S "w_io w" a b x] that by simp
  then show ?thesis
    using False unfolding write_record_def mem_io_trait_def Let_def
    by (simp only: stored.select_convs io_trait.select_convs if_False)
      (intro kept_or_return [where f = ?f] kept_prod [where f = ?f], simp_all)
qed (simp add: write_record_def)

lemma write_and_commit_max_index:
  "max_index (storage_io (snd (write_and_commit (mem_io_trait SLAB S) w m n s nd d))) = max_index (w_io w)"
proof -
  let ?f = "\<lambda>s. max_index (storage_io s)"
  have com: "max_index io = max_index (w_io w')" if "commit (mem_io_trait SLAB S) w' = (r, io)" for r io and w' :: "mem_io slab_writer"
    using mem_commit_max_index [of "w_io w'" "w_count w'" "w_slab_max_sequence w'" "w_slab_offset w'"] that
    by (simp add: commit_def mem_io_trait_def)
  have wr: "max_index (w_io w') = max_index (w_io w)" if "write_record (mem_io_trait SLAB S) w m n s nd d = (r, w')" for r w'
    using write_record_max_index [of SLAB S w m n s nd d] that by simp
  show ?thesis
    unfolding write_and_commit_def Let_def
    by (intro kept_or_return [where f = ?f] kept_prod [where f = ?f]) (use com wr in simp_all)
qed

lemma get_writer_max_index:
  "get_writer (mem_io_trait SLAB S) st = Ok w \<Longrightarrow> w_io w = storage_io st"
  by (auto simp: get_writer_def mem_io_trait_def mem_new_writer_def slab_writer_new_def result_simps split: if_splits)

lemma set_up_OkE:
  assumes "set_up P SR SM SE SN seed kp (static_wrap data) CHANNELS = Ok (cid, self)"
    and D: "D = app_deps SLAB_SIZE P SR SM SE SN 2 2"
  obtains crypto io channels where "rust_crypto_new P seed = Ok crypto" "mem_io_new SLAB_SIZE data = Ok io"
    "init_chat D (client_new D kp crypto channels) ''Test Chat'' io = (Ok cid, self)"
proof -
  have take: "fst (take_mut (static_wrap data)) = Ok data" by (simp add: take_mut_def static_wrap_def Let_def)
  have un: "unwrap r = Ok x \<longleftrightarrow> r = Ok x" for r :: "('x, 'y) result" and x by (cases r) auto
  obtain crypto io channels where start: "rust_crypto_new P seed = Ok crypto" "mem_io_new SLAB_SIZE data = Ok io"
      "fst (take_mut CHANNELS) = Ok channels"
    and rest: "(let (made, client) = init_chat D (client_new D kp crypto channels) ''Test Chat'' io in
      bind_ok (unwrap made) (\<lambda>cid. bind_ok (unwrap (client_list_nodes client cid)) (\<lambda>known. Ok (cid, client))))
        = (Ok (cid, self) :: (_, client_error) result)"
    using assms(1) unfolding set_up_def D [symmetric] Let_def
    by (auto simp: take un result_simps)
  obtain made client where init: "init_chat D (client_new D kp crypto channels) ''Test Chat'' io = (made, client)" by fastforce
  have "made = Ok cid" "client = self" using rest by (auto simp: init un result_simps)
  with start init that show thesis by simp
qed

text \<open>A channel right after it has been made: its only message is the announcement.\<close>

lemma init_chat_made:
  assumes D: "D = app_deps SLAB P SR SM SE SN M MC" and init: "init_chat D self name io = (Ok cid, self')"
    and me: "key = kp_public (cl_key_pair self)" "me = compute_id (d_crypto D) key"
    and io: "mem_holds SLAB SR enc io []"
  obtains ch r where "map_of (cl_channels self') cid = Some ch" "channel_ok D (mem_holds SLAB SR enc) ch [[r]]"
    "max_index (storage_io (ch_storage ch)) = max_index io" "clock (ch_state ch) = [me \<mapsto> 1]" "newest (ch_state ch) = me"
    "me \<in> members (ch_chat ch)" "message_count (ch_chat ch) = 0" "cl_key_pair self' = cl_key_pair self"
    "cl_node_id self' = cl_node_id self"
proof -
  let ?ch = "start_channel me key io cid"
  obtain nc crypto buf m env target ms ch1 w d target' storage chs where
      "nc_owner nc = key" "0 < d_max_nodes D" "address (ch_state ?ch) me (NewChannel nc) = Ok m"
      "take_message D ?ch cid me m (envelope_id_of (d_crypto D) crypto env) = (Ok ms, ch1)"
      "get_writer (d_io D) (storage_new io) = Ok w"
      "write_and_commit (d_io D) w ms (message_count (ch_chat ch1)) (msg_sequence m) me d = (Ok (), storage)"
      "index_map_insert (d_max_channels D) cid (ch1\<lparr>ch_storage := storage\<rparr>) (cl_channels self) = Some chs"
      "self' = self\<lparr>cl_crypto := crypto, cl_channels := chs\<rparr>"
    by (rule init_chat_OkE [OF init me])
  note step = this
  obtain st ch2 where first: "address (ch_state ?ch) me (NewChannel nc) = Ok (first_message me nc)"
      "take_message D ?ch cid me (first_message me nc) (envelope_id_of (d_crypto D) crypto env) = (Ok 1, ch2)"
      "ch2 = ?ch\<lparr>ch_state := st, ch_chat := (chat_new cid)\<lparr>users := [(me, key)], owner_id := Some me\<rparr>\<rparr>"
      "clock st = [me \<mapsto> 1]"
    by (rule take_first_message [OF step(2) me(2) step(1) refl]) (rule that)
  have m: "m = first_message me nc" using step(3) first(1) by simp
  then have ch1: "ch1 = ch2" "ms = 1" using step(4) first(2) by simp_all
  let ?ch' = "ch1\<lparr>ch_storage := storage\<rparr>"
  have ok: "channel_ok D (mem_holds SLAB SR enc) ?ch []"
    using replica_start [OF D io, of key cid] step(2) by (simp add: replica_def me(2) D)
  have acc: "acceptable (clock (ch_state ?ch)) me m"
    using ok by (intro address_acceptable(1) [OF _ step(3), of "d_max_nodes D"]) (simp add: channel_ok_def)
  have "advanced D (mem_holds SLAB SR enc) ?ch [] me m d ?ch'"
    using app.store_taken [of SLAB P SR SM SE SN M MC enc ?ch "[]" me m cid _ ms ch1 w d "Ok ()" storage]
      ok acc step(4-6) by (simp add: D ch1 first(3))
  then obtain r where r: "channel_ok D (mem_holds SLAB SR enc) ?ch' [[r]]" by (auto simp: advanced_def)
  have "max_index (storage_io storage) = max_index io"
    using write_and_commit_max_index [of SLAB SR w ms "message_count (ch_chat ch1)" "msg_sequence m" me d] step(5,6)
      get_writer_max_index [of SLAB SR "storage_new io" w] by (simp add: D storage_new_def)
  moreover have clk: "clock (ch_state ?ch') = [me \<mapsto> 1]" by (simp add: ch1 first(3,4))
  moreover have "newest (ch_state ?ch') = me"
  proof -
    have inv: "channel_inv (d_max_nodes D) (ch_state ?ch')" using r by (simp add: channel_ok_def)
    then obtain q where q: "q \<in> set (nodes (ch_state ?ch'))" "ns_node q = newest (ch_state ?ch')"
      by (auto simp: channel_inv_def)
    have "newest (ch_state ?ch') \<in> ns_node ` set (nodes (ch_state ?ch'))" using q by (intro image_eqI [of _ _ q]) simp_all
    then have "clock (ch_state ?ch') (newest (ch_state ?ch')) \<noteq> None"
      unfolding clock_def node_record_def by (simp add: keyed_None)
    then show ?thesis unfolding clk by (simp split: if_splits)
  qed
  ultimately show thesis
    using that [of ?ch' r] r index_map_insert_Some [OF step(7)]
    by (simp add: step(8)) (simp add: ch1 first(3) members_def message_count_def chat_new_def)
qed

text \<open>What the set-up of the firmware leaves: one channel, whose announcement fills the only slab.\<close>

lemma set_up_made:
  assumes built: "set_up P SR SM SE SN seed kp (static_wrap (replicate MEGA_BYTE 0)) CHANNELS = Ok (cid, self)"
    and D: "D = app_deps SLAB_SIZE P SR SM SE SN 2 2" and records: "serde_ok SR enc"
  obtains ch r where "map_of (cl_channels self) cid = Some ch" "channel_ok D (mem_holds SLAB_SIZE SR enc) ch [[r]]"
    "max_index (storage_io (ch_storage ch)) = 1" "clock (ch_state ch) = [cl_node_id self \<mapsto> 1]"
    "newest (ch_state ch) = cl_node_id self" "cl_node_id self \<in> members (ch_chat ch)" "message_count (ch_chat ch) = 0"
    "cl_key_pair self = kp"
proof -
  obtain crypto io channels where io: "mem_io_new SLAB_SIZE (replicate MEGA_BYTE 0) = Ok io"
    and init: "init_chat D (client_new D kp crypto channels) ''Test Chat'' io = (Ok cid, self)"
    by (rule set_up_OkE [OF built D])
  let ?me = "compute_id (d_crypto D) (kp_public kp)"
  have "INITIAL_OFFSET < SLAB_SIZE" "MEGA_BYTE < usize_limit"
    by (simp_all add: INITIAL_OFFSET_def SLAB_SIZE_def MEGA_BYTE_def usize_limit_def)
  then have held: "mem_holds SLAB_SIZE SR enc io []" using mem_io_new_holds [OF records] io by force
  then have one: "max_index io = 1"
    using io by (auto simp: mem_holds_def mem_io_new_def checked_div_def result_simps MEGA_BYTE_def SLAB_SIZE_def)
  obtain ch r where "map_of (cl_channels self) cid = Some ch" "channel_ok D (mem_holds SLAB_SIZE SR enc) ch [[r]]"
      "max_index (storage_io (ch_storage ch)) = max_index io" "clock (ch_state ch) = [?me \<mapsto> 1]" "newest (ch_state ch) = ?me"
      "?me \<in> members (ch_chat ch)" "message_count (ch_chat ch) = 0" "cl_key_pair self = kp" "cl_node_id self = ?me"
    by (rule init_chat_made [OF D init _ refl held, of "kp_public kp"]) (simp_all add: client_new_def)
  with one show thesis by (intro that [of ch r]) simp_all
qed

text \<open>The set-up of the demo device succeeds.\<close>

lemma demo_set_up:
  obtains ch where "set_up demo_primitives plain_serde message_serde envelope_serde new_channel_serde [] (demo_pair 7)
      (static_wrap (replicate MEGA_BYTE 0)) (static_wrap []) =
    Ok (demo_cid ''Test Chat'', demo_owner\<lparr>cl_crypto := \<lparr>rng = 1\<rparr>, cl_channels := [(demo_cid ''Test Chat'', ch)]\<rparr>)"
proof -
  let ?D = "start_deps SLAB_SIZE 2 2" and ?n = "''Test Chat''"
  have sizes: "INITIAL_OFFSET < SLAB_SIZE" "MEGA_BYTE < usize_limit" "292 + 2 * length ?n \<le> SLAB_SIZE" "length ?n \<le> NAME_MAX"
    by (simp_all add: INITIAL_OFFSET_def SLAB_SIZE_def MEGA_BYTE_def usize_limit_def NAME_MAX_def)
  obtain io where io: "mem_io_new SLAB_SIZE (replicate MEGA_BYTE 0) = Ok io" "mem_holds SLAB_SIZE plain_serde plain_enc io []"
    using mem_io_new_holds [OF plain_serde_ok sizes(1,2)] by blast
  have "0 < max_index io"
    using io(1) by (auto simp: mem_io_new_def checked_div_def result_simps MEGA_BYTE_def SLAB_SIZE_def)
  then obtain ch where init: "init_chat ?D demo_owner ?n io
      = (Ok (demo_cid ?n), demo_owner\<lparr>cl_crypto := \<lparr>rng = 1\<rparr>, cl_channels := [(demo_cid ?n, ch)]\<rparr>)"
    by (rule demo_init_runs [OF io(2) _ sizes(3,4), of 2 2]) simp_all
  let ?self = "demo_owner\<lparr>cl_crypto := \<lparr>rng = 1\<rparr>, cl_channels := [(demo_cid ?n, ch)]\<rparr>"
  have crypto: "rust_crypto_new demo_primitives [] = Ok \<lparr>rng = 0\<rparr>" by (simp add: rust_crypto_new_def demo_primitives_def)
  have client: "client_new ?D (demo_pair 7) \<lparr>rng = 0\<rparr> [] = demo_owner"
    by (simp add: client_new_def demo_owner_id demo_owner_def demo_pair_def)
  have take: "fst (take_mut (static_wrap x)) = Ok x" for x :: 'x by (simp add: take_mut_def static_wrap_def Let_def)
  have known: "client_list_nodes ?self (demo_cid ?n) = Ok (nodes (ch_state ch))"
    by (simp add: client_list_nodes_def find_channel_def list_nodes_def)
  have built: "set_up demo_primitives plain_serde message_serde envelope_serde new_channel_serde [] (demo_pair 7)
      (static_wrap (replicate MEGA_BYTE 0)) (static_wrap []) = Ok (demo_cid ?n, ?self)"
    unfolding set_up_def Let_def take crypto unwrap.simps bind_ok.simps io(1) client init prod.case known ..
  then show thesis by (rule that)
qed

text \<open>
  C39. The firmware cannot send. Its store is one buffer of \<^verbatim>\<open>MEGA_BYTE\<close> bytes, which is 1024 and so holds
  exactly one slab of \<^verbatim>\<open>SLAB_SIZE\<close> bytes, and \<^verbatim>\<open>init_chat\<close> fills it with the announcement: whenever the
  set-up succeeds, the first chat message that the device sends panics, after it was sealed.
\<close>

theorem firmware_cannot_send:
  assumes built: "set_up P SR SM SE SN seed kp (static_wrap (replicate MEGA_BYTE 0)) CHANNELS = Ok (cid, self)"
    and D: "D = app_deps SLAB_SIZE P SR SM SE SN 2 2" and records: "serde_ok SR enc"
    and m: "m = \<lparr>cause = cl_node_id self, sender_last = 1, msg_sequence = 2, msg_data = ChatMessage c\<rparr>"
    and sealed: "seal (d_crypto D) (cl_crypto self) (cl_node_id self) (Channel cid) kp m (replicate 4096 0)
      = (Ok env, target)" "to_slice SE env target = (Ok d, target')"
  shows "fst (do_send D self cid (ChatMessage c)) = Panic"
proof -
  obtain ch r where ch: "map_of (cl_channels self) cid = Some ch" "channel_ok D (mem_holds SLAB_SIZE SR enc) ch [[r]]"
      "max_index (storage_io (ch_storage ch)) = 1" "clock (ch_state ch) = [cl_node_id self \<mapsto> 1]"
      "newest (ch_state ch) = cl_node_id self" "cl_node_id self \<in> members (ch_chat ch)" "message_count (ch_chat ch) = 0"
      "cl_key_pair self = kp"
    by (rule set_up_made [OF built D records])
  let ?me = "cl_node_id self"
  have inv: "channel_inv (d_max_nodes D) (ch_state ch)" and log: "mem_holds SLAB_SIZE SR enc (storage_io (ch_storage ch)) [[r]]"
    using ch(2) by (simp_all add: channel_ok_def)
  have "current_sequence (ch_state ch) = 1" by (simp add: current_sequence_def known_sequence_def ch(4,5))
  then have addr: "address (ch_state ch) ?me (ChatMessage c) = Ok m"
    unfolding address_spec [OF inv] by (simp add: ch(4,5) checked_add_def m)
  note acc = address_acceptable(1) [OF inv addr]
  obtain ms ch1 where taken: "take_message D ch cid ?me m (envelope_id_of (d_crypto D) (cl_crypto self) env) = (Ok ms, ch1)"
      "ch_storage ch1 = ch_storage ch"
    by (rule take_chat_message [OF inv acc _ ch(6)]) (simp_all add: m ch(7))
  have full: "length [[r]] = max_index (storage_io (ch_storage ch))" "length [[r]] * SLAB_SIZE + SLAB_SIZE + 4 < usize_limit"
    by (simp_all add: ch(3) SLAB_SIZE_def usize_limit_def)
  obtain w where w: "get_writer (mem_io_trait SLAB_SIZE SR) (ch_storage ch) = Ok w"
      "\<And>x n s q b. fst (write_record (mem_io_trait SLAB_SIZE SR) w x n s q b) = Panic"
    by (rule mem_full_write [OF log full]) (rule that)
  have "fst (write_and_commit (d_io D) w x n s q b) = Panic" for x n s q b
    using w(2) [of x n s q b] by (simp add: write_and_commit_def D case_prod_unfold)
  moreover have "receive_verdict (clock (ch_state ch)) ?me m = Ok ()" using acc by (simp add: receive_verdict_Ok)
  ultimately show ?thesis
    using sealed ch(8) addr taken w(1)
    by (simp add: do_send_def find_channel_def ch(1) check_receive_verdict [OF channel_inv_sorted [OF inv]] D
        or_return_Panic case_prod_unfold Let_def)
qed

theorem firmware_cannot_send_witness:
  "\<exists>cid self. set_up demo_primitives plain_serde message_serde envelope_serde new_channel_serde [] (demo_pair 7)
      (static_wrap (replicate MEGA_BYTE 0)) (static_wrap []) = Ok (cid, self) \<and>
    fst (do_send (start_deps SLAB_SIZE 2 2) self cid (ChatMessage \<lparr>chat_text = ''hi''\<rparr>)) = Panic"
proof -
  let ?D = "start_deps SLAB_SIZE 2 2" and ?n = "''Test Chat''"
  obtain ch where built: "set_up demo_primitives plain_serde message_serde envelope_serde new_channel_serde [] (demo_pair 7)
      (static_wrap (replicate MEGA_BYTE 0)) (static_wrap []) =
    Ok (demo_cid ?n, demo_owner\<lparr>cl_crypto := \<lparr>rng = 1\<rparr>, cl_channels := [(demo_cid ?n, ch)]\<rparr>)"
    by (rule demo_set_up)
  let ?self = "demo_owner\<lparr>cl_crypto := \<lparr>rng = 1\<rparr>, cl_channels := [(demo_cid ?n, ch)]\<rparr>"
  define m where "m = \<lparr>cause = cl_node_id ?self, sender_last = 1, msg_sequence = 2,
    msg_data = ChatMessage \<lparr>chat_text = ''hi''\<rparr> :: u64 protocol\<rparr>"
  have short: "length (enc_message m) = 51"
    by (simp add: enc_message_def m_def SHA256_SIZE_def enc_string_def)
  let ?env = "\<lparr>env_from = cl_node_id ?self, env_to = Channel (demo_cid ?n), env_serialized = enc_message m,
    env_signature = to_be_bytes (7 :: u64)\<rparr>"
  let ?t = "overwrite (replicate 4096 0) 0 (enc_message m)"
  have sealed: "seal (d_crypto ?D) (cl_crypto ?self) (cl_node_id ?self) (Channel (demo_cid ?n)) (demo_pair 7) m (replicate 4096 0)
      = (Ok ?env, ?t)"
    using demo_seal_any [of m] short by (simp add: MAX_ENVELOPE_def MAX_SIG_def)
  have "length (mark bs) = Suc (2 * length bs)" for bs
    by (induction bs) (simp_all add: mark_def)
  then have ser: "to_slice envelope_serde ?env ?t = (Ok (enc_envelope ?env), overwrite ?t 0 (enc_envelope ?env))"
    by (intro serde_to_slice_fits [OF envelope_serde_ok]) (simp add: enc_envelope_def short SHA256_SIZE_def)
  from firmware_cannot_send [OF built refl plain_serde_ok m_def sealed ser] built show ?thesis by blast
qed

end
