(* ===== verification/Wire_Exchange.thy ===== *)
theory Wire_Exchange
  imports Wire_Properties
begin

text \<open>
  The conversation that the wire holds between two devices in any reachable state: a hello that is due
  leaves one, arrives at the other, and makes it send a request; and there the conversation ends, because
  a request that arrives is only logged.
\<close>

subsection \<open>What a hello says\<close>

text \<open>The entry of a channel in a hello of the client \<open>c\<close>.\<close>

definition hello_entry :: "('c, 's, 'p, 'i) client \<Rightarrow> channel_id \<Rightarrow> channel_info" where
  "hello_entry c cid =
     \<lparr>ci_channel_id = cid,
      ci_message_count = (case map_of (cl_channels c) cid of Some ch \<Rightarrow> message_count (ch_chat ch) | None \<Rightarrow> 0)\<rparr>"

lemma hello_infos_known:
  "\<forall>cid \<in> set cids. map_of (cl_channels c) cid \<noteq> None \<Longrightarrow> length infos + length cids \<le> M \<Longrightarrow>
    hello_infos M c cids infos = Ok (infos @ map (hello_entry c) cids)"
  by (induction cids arbitrary: infos) (auto simp: client_message_count_cases hello_entry_def vec_push_def)

lemma make_hello_known:
  assumes "\<forall>cid \<in> set cids. map_of (cl_channels c) cid \<noteq> None" "length cids \<le> d_max_channels (wd_client W)"
  shows "make_hello W peers cids c = Ok (Hello (get_node_id c) peers (map (hello_entry c) cids))"
  using hello_infos_known [OF assms(1), of "[]"] assms(2) by (simp add: make_hello_def)

lemma poll_pending:
  "to_send s = Some msg \<Longrightarrow> poll W s buf now peers cids rep c = poll_send W (s\<lparr>to_send := None\<rparr>) buf now rep msg"
  by (simp add: poll_def poll_message_def)

lemma hello_answered:
  assumes idle: "to_send s = None" and known: "map_of (cl_channels c) cid = Some ch"
    and inv: "channel_inv (d_max_nodes (wd_client W)) (ch_state ch)"
  shows "process_message W s (Hello n peers (map (hello_entry c') (cid # cids))) c = (Ok (),
    s\<lparr>next_session_id := next_session_id s + 1,
      to_send := Some (SyncRequest \<lparr>req_session_id = next_session_id s, req_bytes_budget = bytes_budget s,
        req_vector_clock = own_clocks (list_nodes (ch_state ch))\<rparr>)\<rparr>)"
  using request_when_known [OF idle known channel_inv_list_nodes [OF inv]]
  by (simp add: process_message_def Let_def client_message_count_cases known process_infos_busy hello_entry_def)

text \<open>A message that is processed without an error arrives without one.\<close>

lemma datagrams_accepted:
  assumes R: "raptorq_ok (wd_raptorq W)" and S: "serde_ok (wd_messages W) enc"
    and new: "wire_writer_new (wd_raptorq W) n (mtu s) (enc msg) rep = Ok w"
    and fit: "packets_fit (wd_raptorq W) cap w" "cap < usize_limit"
    and fresh: "fresh_sender (d_max_nodes (wd_client W)) w a s"
    and all: "set ds = writer_packet (wd_raptorq W) w ` set (ww_encoded w)"
    and processed: "process_message W s msg c = (Ok (), t)"
  obtains info where "receive_all W s ds a c = (replicate (length ds) (Ok ()), put_receiver a info t)"
proof -
  obtain i info j where run: "receive_all W s ds a c = (replicate i (Ok ()) @ fst (process_message W s msg c) #
        replicate j (Ok ()), put_receiver a (info\<lparr>last_completed := Some n\<rparr>) (snd (process_message W s msg c)))"
      "length ds = Suc (i + j)"
    by (rule datagrams_processed [OF R serde_from_bytes [OF S] new fit fresh all])
  have "replicate i (Ok ()) @ Ok () # replicate j (Ok ()) = replicate (length ds) (Ok () :: (unit, wire_error) result)"
    unfolding run(2) by (simp add: replicate_add replicate_app_Cons_same)
  then show thesis using run(1) processed by (intro that) simp
qed

text \<open>No message that a poll hands out is a response.\<close>

lemma polled_message:
  assumes pending: "pending_ok M (to_send s)" and polled: "poll_message W s now peers cids c = (Ok (Some msg), t)"
  shows "msg \<noteq> SyncResponse r"
proof (cases "to_send s")
  case None
  then have "map_err (\<lambda>e. e) (Ok (Some msg)) = bind_ok (make_hello W peers cids c) (\<lambda>h. Ok (Some h))"
    using poll_message_cases(2,3) [OF polled] by fastforce
  then show ?thesis by (cases "make_hello W peers cids c") (auto simp: make_hello_def result_simps)
next
  case (Some m)
  then show ?thesis using poll_message_cases(1) [OF polled Some] pending by (auto simp: pending_ok_def)
qed

subsection \<open>A hello makes a request\<close>

text \<open>
  C10. A hello leads to a request. Take two devices in any reachable states. One whose hello is due, and
  which knows the channels it is polled with, hands out the writer of a hello about them. When the
  packets of this writer arrive at the other, in any order and repeated, each at least once, and that device
  knows the first channel and has nothing to send, then every call there succeeds, and its next poll,
  at whatever time, hands out a request for that channel with its own vector clock, under a fresh session number,
  before any hello of its own.
\<close>

theorem hello_exchange:
  assumes R: "raptorq_ok (wd_raptorq W)" and S: "serde_ok (wd_messages W) enc"
    and runs: "wire_run W m s ts" "wire_run W m s' ts'"
    and due: "to_send s = None" "next_hello s \<le> now" "unat now + 5000 < 2 ^ 64"
    and here: "\<forall>i \<in> set (cid # cids). map_of (cl_channels c) i \<noteq> None"
      "length (cid # cids) \<le> d_max_channels (wd_client W)"
    and hello: "hello = Hello (get_node_id c) peers (map (hello_entry c) (cid # cids))" "length (enc hello) \<le> length buf"
    and new: "wire_writer_new (wd_raptorq W) (next_message_number s) m (enc hello) rep = Ok w"
    and fit: "packets_fit (wd_raptorq W) cap w" "cap < usize_limit"
    and there: "to_send s' = None" "fresh_sender (d_max_nodes (wd_client W)) w a s'"
      "map_of (cl_channels c') cid = Some ch" "channel_inv (d_max_nodes (wd_client W)) (ch_state ch)"
    and arrives: "set ds = writer_packet (wd_raptorq W) w ` set (ww_encoded w)"
    and request: "request = \<lparr>req_session_id = next_session_id s', req_bytes_budget = 4096,
      req_vector_clock = own_clocks (list_nodes (ch_state ch))\<rparr>"
  shows "\<exists>p t buf' t'. poll W s buf now peers (cid # cids) rep c = (Ok p, t, buf') \<and> poll_writer p = Some w \<and>
    receive_all W s' ds a c' = (replicate (length ds) (Ok ()), t') \<and> next_session_id t' = next_session_id s' + 1 \<and>
    (\<forall>b later n is rep' x. poll W t' b later n is rep' x = poll_send W (t'\<lparr>to_send := None\<rparr>) b later rep' (SyncRequest request))"
proof -
  have s: "hello_duration s = 5000" "mtu s = m" and s': "bytes_budget s' = 4096" "mtu s' = m"
    using wire_run_facts [OF runs(1)] wire_run_facts [OF runs(2)] by (simp_all add: wire_inv_def)
  have send: "poll_send W (s\<lparr>next_hello := now + 5000\<rparr>) buf now rep hello =
    (Ok \<lparr>next_poll = hello_duration s + now, poll_writer = Some w\<rparr>,
     s\<lparr>next_hello := now + 5000, next_message_number := next_message_number s + 1\<rparr>, overwrite buf 0 (enc hello))"
    using poll_send_runs [OF S hello(2), of "s\<lparr>next_hello := now + 5000\<rparr>" rep w now] new due(3) s by simp
  note polled = poll_hello_runs [OF due(1,2) s(1) due(3) make_hello_known [OF here, of peers, folded hello(1)] send]
  have processed: "process_message W s' hello c' = (Ok (), s'\<lparr>next_session_id := next_session_id s' + 1,
      to_send := Some (SyncRequest request)\<rparr>)"
    unfolding hello(1) request s'(1) [symmetric] by (rule hello_answered [OF there(1,3,4)])
  obtain info where "receive_all W s' ds a c' = (replicate (length ds) (Ok ()),
      put_receiver a info (s'\<lparr>next_session_id := next_session_id s' + 1, to_send := Some (SyncRequest request)\<rparr>))"
    by (rule datagrams_accepted [OF R S new [folded s'(2)] fit there(2) arrives processed])
  with polled show ?thesis by (simp add: poll_pending) (simp add: put_receiver_def)
qed

subsection \<open>A request is not answered\<close>

text \<open>
  C36. A request is never answered. A request that arrives at a device in any reachable state is received
  without an error and only noted as completed: nothing but the sender's entry changes, whatever the device
  knows and the request asks for. No poll of a device, at any time, hands out a response. So the devices
  exchange hellos and requests, and no message of a channel goes over the wire.
\<close>

theorem requests_unanswered:
  assumes R: "raptorq_ok (wd_raptorq W)" and S: "serde_ok (wd_messages W) enc" and run: "wire_run W m s ts"
    and new: "wire_writer_new (wd_raptorq W) n m (enc (SyncRequest request)) rep = Ok w"
    and fit: "packets_fit (wd_raptorq W) cap w" "cap < usize_limit"
    and fresh: "fresh_sender (d_max_nodes (wd_client W)) w a s"
    and arrives: "set ds = writer_packet (wd_raptorq W) w ` set (ww_encoded w)"
  shows "\<exists>t. receive_all W s ds a c = (replicate (length ds) (Ok ()), t) \<and> t = s\<lparr>receivers := receivers t\<rparr> \<and>
    (\<forall>now peers cids c' msg u r. poll_message W t now peers cids c' = (Ok (Some msg), u) \<longrightarrow> msg \<noteq> SyncResponse r)"
proof -
  have s: "mtu s = m" "pending_ok (d_max_nodes (wd_client W)) (to_send s)"
    using wire_run_facts [OF run] by (simp_all add: wire_inv_def)
  have "process_message W s (SyncRequest request) c = (Ok (), s)" by (simp add: process_message_def)
  then obtain info where run: "receive_all W s ds a c = (replicate (length ds) (Ok ()), put_receiver a info s)"
    by (rule datagrams_accepted [OF R S new [folded s(1)] fit fresh arrives])
  moreover have "pending_ok (d_max_nodes (wd_client W)) (to_send (put_receiver a info s))" using s(2) by simp
  note no_response = polled_message [OF this]
  moreover have "put_receiver a info s = s\<lparr>receivers := receivers (put_receiver a info s)\<rparr>" by (simp add: put_receiver_def)
  ultimately show ?thesis by blast
qed

subsection \<open>Witnesses\<close>

theorem hello_exchange_witness:
  "\<forall>st :: mem_io storage. \<exists>p t buf' t'. poll demo_wire demo_new (replicate 200 0) 0 0 [ChannelId (Id 3)] 3 (demo_client 7 st) = (Ok p, t, buf') \<and>
    poll_writer p = Some (demo_writer 0 (enc_network demo_hello)) \<and>
    receive_all demo_wire demo_new (rev (map (writer_packet demo_raptorq (demo_writer 0 (enc_network demo_hello)))
        (ww_encoded (demo_writer 0 (enc_network demo_hello))))) [1] (demo_client 9 st) = ([Ok (), Ok ()], t') \<and>
    next_session_id t' = 1"
  (is "\<forall>st. ?P st")
proof
  fix st :: "mem_io storage"
  let ?w = "demo_writer 0 (enc_network demo_hello)"
  have S: "serde_ok (wd_messages demo_wire) enc_network" by (simp add: network_serde_ok)
  have due: "next_hello demo_new \<le> 0" "unat (0 :: u64) + 5000 < 2 ^ 64" by (simp_all add: wire_state_new_def)
  have here: "\<forall>i \<in> set [ChannelId (Id 3)]. map_of (cl_channels (demo_client 7 st)) i \<noteq> None"
    "length [ChannelId (Id 3)] \<le> d_max_channels (wd_client demo_wire)" by simp_all
  have hello: "demo_hello = Hello (get_node_id (demo_client 7 st)) 0 (map (hello_entry (demo_client 7 st)) [ChannelId (Id 3)])"
    "length (enc_network demo_hello) \<le> length (replicate 200 (0 :: u8))"
    by (simp add: demo_hello_def hello_entry_def get_node_id_def message_count_def demo_chat_def, simp add: length_demo_hello)
  have new: "wire_writer_new (wd_raptorq demo_wire) (next_message_number demo_new) 250 (enc_network demo_hello) 3 = Ok ?w"
    by (simp add: demo_writer_new length_demo_hello wire_state_new_def)
  have inv: "channel_inv (d_max_nodes (wd_client demo_wire)) (ch_state (demo_channel st))" by (simp add: demo_state_inv)
  have fit: "packets_fit (wd_raptorq demo_wire) 300 ?w" by (rule demo_writer_fits) (simp add: length_demo_hello)
  have "length (ww_encoded ?w) = 2" by (simp add: demo_writer_def)
  with hello_exchange [OF demo_wire_raptorq_ok S run_new run_new demo_new_simps(1) due here hello new fit usize_300
      demo_new_simps(1) demo_new_fresh demo_client_simps(4) inv _ refl,
      where ds = "rev (map (writer_packet demo_raptorq ?w) (ww_encoded ?w))" and a = "[1]"]
  show "?P st" by (simp add: numeral_2_eq_2 demo_new_simps(3)) blast
qed

definition demo_asked :: sync_request where
  "demo_asked = \<lparr>req_session_id = 0, req_bytes_budget = 4096, req_vector_clock = [sync_clock_new (NodeId (Id 9)) 0]\<rparr>"

theorem requests_unanswered_witness:
  "\<forall>st :: mem_io storage. \<exists>t. receive_all demo_wire demo_new
      (map (writer_packet demo_raptorq (demo_writer 5 (enc_network (SyncRequest demo_asked))))
        (ww_encoded (demo_writer 5 (enc_network (SyncRequest demo_asked))))) [1] (demo_client 7 st)
    = ([Ok (), Ok ()], t) \<and> to_send t = None"
  (is "\<forall>st. ?P st")
proof
  fix st :: "mem_io storage"
  let ?w = "demo_writer 5 (enc_network (SyncRequest demo_asked))"
  have S: "serde_ok (wd_messages demo_wire) enc_network" by (simp add: network_serde_ok)
  have len: "length (enc_network (SyncRequest demo_asked)) \<le> 200" by (simp add: demo_asked_def enc_clock_def SHA256_SIZE_def)
  then have new: "wire_writer_new (wd_raptorq demo_wire) 5 250 (enc_network (SyncRequest demo_asked)) 3 = Ok ?w" by (simp add: demo_writer_new)
  let ?ds = "map (writer_packet demo_raptorq ?w) (ww_encoded ?w)"
  have ds: "set ?ds = writer_packet (wd_raptorq demo_wire) ?w ` set (ww_encoded ?w)" by simp
  note ends = requests_unanswered [OF demo_wire_raptorq_ok S run_new new demo_writer_fits [OF len] usize_300 demo_new_fresh ds]
  obtain t where t: "receive_all demo_wire demo_new ?ds [1] (demo_client 7 st) = (replicate (length ?ds) (Ok ()), t)"
      "t = demo_new\<lparr>receivers := receivers t\<rparr>"
    by (rule exE [OF ends [of "[1]" "demo_client 7 st"]]) (elim conjE, rule that)
  have "length ?ds = 2" by (simp add: demo_writer_def)
  moreover have "to_send t = None" by (subst t(2)) (simp add: wire_state_new_def)
  ultimately show "?P st" using t(1) by (simp add: numeral_2_eq_2)
qed

end
