(* ===== verification/Firmware_Run.thy ===== *)
theory Firmware_Run
  imports Firmware Wire_Exchange
begin

text \<open>
  The firmware as a whole: what a device does in its first turn, from the start of \<^verbatim>\<open>main\<close> to the
  packets on the air.
\<close>

lemma firmware_wire_simps [simp]:
  "wd_client (firmware_wire P SR SM SE SN R SP) = app_deps SLAB_SIZE P SR SM SE SN 2 2"
  "wd_raptorq (firmware_wire P SR SM SE SN R SP) = R" "wd_messages (firmware_wire P SR SM SE SN R SP) = SP"
  by (simp_all add: firmware_wire_def)

text \<open>A turn in which nothing is received and the poll hands out a writer: its packets are broadcast.\<close>

lemma quiet_turn:
  assumes quiet: "en_receive E (dev_radio dev) = (None, radio1)" "en_now E radio1 = (now, radio2)"
      "en_peer_count E radio2 = Some known"
    and polled: "poll W (dev_state dev) (dev_buffer dev) now (ucast known) cids REPAIR_COUNT client =
      (Ok \<lparr>next_poll = wait, poll_writer = Some w\<rparr>, s, buffer)"
    and R: "raptorq_ok (wd_raptorq W)" and new: "wire_writer_new (wd_raptorq W) n m data rep = Ok w"
    and fit: "packets_fit (wd_raptorq W) 250 w" "length (ww_encoded w) < usize_limit"
    and sends: "\<forall>radio d. fst (en_send E radio (en_broadcast E) d)"
  shows "loop_turn W E client cids dev =
    (Ok (), \<lparr>dev_radio = fold (broadcast E) (map (writer_packet (wd_raptorq W) w) (rotate1 (ww_encoded w))) radio2,
      dev_state = s, dev_buffer = buffer\<rparr>)"
  by (simp add: loop_turn_def poll_turn_def quiet polled Let_def message_broadcast [OF R new fit sends] del: send_packets.simps)

text \<open>
  C12. A device says hello as soon as it runs. From the start of \<^verbatim>\<open>main\<close> with a fresh store, whenever the
  set-up succeeds and the radio starts: the first turn of the loop, with nothing received and at any time,
  broadcasts every packet of a hello for the new channel, each once, and ends without a panic;
  the hello names the device and its peers, and the channel with no message yet, as the announcement does
  not count. The next hello is due five seconds later.
\<close>

theorem firmware_says_hello:
  assumes keys: "get_test_keys P parsed = (Ok kp :: (_, client_error) result)"
    and built: "set_up P SR SM SE SN seed kp (static_wrap (replicate MEGA_BYTE 0)) CHANNELS = Ok (cid, client)"
    and records: "serde_ok SR enc_r" and R: "raptorq_ok R" and S: "serde_ok SP enc"
    and quiet: "en_receive E radio = (None, radio1)" "en_now E radio1 = (now, radio2)" "unat now + 5000 < 2 ^ 64"
      "en_peer_count E radio2 = Some known" "\<forall>radio d. fst (en_send E radio (en_broadcast E) d)"
    and hello: "hello = Hello (cl_node_id client) (ucast known) [\<lparr>ci_channel_id = cid, ci_message_count = 0\<rparr>]"
      "length (enc hello) \<le> length buffer"
    and new: "wire_writer_new R 0 250 (enc hello) 3 = Ok w"
    and fit: "packets_fit R 250 w" "length (ww_encoded w) < usize_limit"
  shows "\<exists>dev. firmware_main 1 P SR SM SE SN R SP E seed parsed (static_wrap (replicate MEGA_BYTE 0)) CHANNELS (static_wrap buffer)
      (Some radio) = (Ok (), Some dev) \<and>
    dev_radio dev = fold (broadcast E) (map (writer_packet R w) (rotate1 (ww_encoded w))) radio2 \<and>
    next_hello (dev_state dev) = now + 5000"
proof -
  let ?W = "firmware_wire P SR SM SE SN R SP" and ?s = "wire_state_new ESP_NOW_MTU"
  obtain ch r where ch: "map_of (cl_channels client) cid = Some ch" "message_count (ch_chat ch) = 0"
    by (rule set_up_made [OF built refl records]) (rule that)
  have made: "make_hello ?W (ucast known) [cid] client = Ok hello"
    using make_hello_known [of "[cid]" client ?W "ucast known"] ch by (simp add: hello(1) hello_entry_def get_node_id_def)
  let ?t = "?s\<lparr>next_hello := now + 5000, next_message_number := 1\<rparr>"
  have send: "poll_send ?W (?s\<lparr>next_hello := now + 5000\<rparr>) buffer now REPAIR_COUNT hello
      = (Ok \<lparr>next_poll = 5000 + now, poll_writer = Some w\<rparr>, ?t, overwrite buffer 0 (enc hello))"
    using poll_send_runs [of ?W enc hello buffer "?s\<lparr>next_hello := now + 5000\<rparr>" REPAIR_COUNT w now] S hello(2) new quiet(3)
    by (simp add: wire_state_new_def ESP_NOW_MTU_def REPAIR_COUNT_def)
  have polled: "poll ?W ?s buffer now (ucast known) [cid] REPAIR_COUNT client
      = (Ok \<lparr>next_poll = 5000 + now, poll_writer = Some w\<rparr>, ?t, overwrite buffer 0 (enc hello))"
    by (rule poll_hello_runs [OF _ _ _ quiet(3) made send]) (simp_all add: wire_state_new_def)
  have turn: "loop_turn ?W E client [cid] \<lparr>dev_radio = radio, dev_state = ?s, dev_buffer = buffer\<rparr> =
      (Ok (), \<lparr>dev_radio = fold (broadcast E) (map (writer_packet R w) (rotate1 (ww_encoded w))) radio2,
        dev_state = ?t, dev_buffer = overwrite buffer 0 (enc hello)\<rparr>)"
    by (rule quiet_turn [of E _ radio1 now radio2 known ?W "[cid]" client, OF _ quiet(2,4) _ _ _ _ fit(2) quiet(5), where n = 0 and m = 250 and data = "enc hello" and rep = 3, simplified])
      (simp_all add: quiet(1) polled fit(1) R new)
  have "network_loop 1 ?W E cid client (static_wrap buffer) radio =
      (Ok (), \<lparr>dev_radio = fold (broadcast E) (map (writer_packet R w) (rotate1 (ww_encoded w))) radio2,
        dev_state = ?t, dev_buffer = overwrite buffer 0 (enc hello)\<rparr>)"
    using turn by (simp add: network_loop_def take_mut_def static_wrap_def Let_def)
  then show ?thesis by (simp add: firmware_main_def keys built)
qed

text \<open>A radio that keeps a log of what it was given to send.\<close>

definition log_radio :: "(u8 list list) esp_now" where
  "log_radio = \<lparr>en_broadcast = replicate 6 255, en_receive = (\<lambda>l. (None, l)), en_peer_exists = (\<lambda>_ _. False), en_add_peer = (\<lambda>l _. (True, l)),
     en_peer_count = (\<lambda>_. Some 0), en_now = (\<lambda>l. (0, l)), en_send = (\<lambda>l a d. (True, l @ [d]))\<rparr>"

theorem firmware_says_hello_witness:
  "\<exists>cid dev. firmware_main 1 demo_primitives plain_serde message_serde envelope_serde new_channel_serde demo_raptorq network_serde
      log_radio [] (Some 7) (static_wrap (replicate MEGA_BYTE 0)) (static_wrap []) (static_wrap (replicate 200 0)) (Some [])
    = (Ok (), Some dev) \<and>
    length (dev_radio dev) = 2 \<and>
    hd (dev_radio dev) = writer_packet demo_raptorq
      (demo_writer 0 (enc_network (Hello (NodeId (Id 7)) 0 [\<lparr>ci_channel_id = cid, ci_message_count = 0\<rparr>])))
      (1 # drop 37 (enc_network (Hello (NodeId (Id 7)) 0 [\<lparr>ci_channel_id = cid, ci_message_count = 0\<rparr>])))"
proof -
  have keys: "get_test_keys demo_primitives (Some 7) = (Ok (demo_pair 7) :: (_, client_error) result)"
    by (simp add: get_test_keys_def demo_primitives_def demo_pair_def)
  obtain ch where built: "set_up demo_primitives plain_serde message_serde envelope_serde new_channel_serde [] (demo_pair 7)
      (static_wrap (replicate MEGA_BYTE 0)) (static_wrap []) =
    Ok (demo_cid ''Test Chat'', demo_owner\<lparr>cl_crypto := \<lparr>rng = 1\<rparr>, cl_channels := [(demo_cid ''Test Chat'', ch)]\<rparr>)"
    by (rule demo_set_up)
  define hello where "hello = Hello (NodeId (Id 7)) 0 [\<lparr>ci_channel_id = demo_cid ''Test Chat'', ci_message_count = 0\<rparr>]"
  let ?w = "demo_writer 0 (enc_network hello)"
  have len: "length (enc_network hello) = 74"
    by (simp add: hello_def enc_info_def SHA256_SIZE_def channel_id_to_be_bytes_def id_to_be_bytes_def)
  have quiet: "en_receive log_radio [] = (None, [])" "en_now log_radio [] = (0, [])" "unat (0 :: u64) + 5000 < 2 ^ 64"
      "en_peer_count log_radio [] = Some 0" "\<forall>radio d. fst (en_send log_radio radio (en_broadcast log_radio) d)"
    by (simp_all add: log_radio_def)
  have fit: "packets_fit demo_raptorq 250 ?w" "length (ww_encoded ?w) < usize_limit"
    by (simp_all add: packets_fit_def demo_writer_def demo_raptorq_def usize_limit_def len)
  have new: "wire_writer_new demo_raptorq 0 250 (enc_network hello) 3 = Ok ?w" by (simp add: demo_writer_new len)
  have hello: "hello = Hello (cl_node_id (demo_owner\<lparr>cl_crypto := \<lparr>rng = 1\<rparr>, cl_channels := [(demo_cid ''Test Chat'', ch)]\<rparr>))
      (ucast (0 :: 32 word)) [\<lparr>ci_channel_id = demo_cid ''Test Chat'', ci_message_count = 0\<rparr>]"
    by (simp add: hello_def demo_owner_def)
  have "length (enc_network hello) \<le> length (replicate 200 (0 :: u8))" by (simp add: len)
  from firmware_says_hello [OF keys built plain_serde_ok demo_raptorq_ok network_serde_ok quiet hello this new fit]
  obtain dev where dev: "firmware_main 1 demo_primitives plain_serde message_serde envelope_serde new_channel_serde demo_raptorq network_serde
      log_radio [] (Some 7) (static_wrap (replicate MEGA_BYTE 0)) (static_wrap []) (static_wrap (replicate 200 0)) (Some [])
    = (Ok (), Some dev)" "dev_radio dev = fold (broadcast log_radio) (map (writer_packet demo_raptorq ?w) (rotate1 (ww_encoded ?w))) []"
    by blast
  have "ww_encoded ?w = [0 # take 37 (enc_network hello), 1 # drop 37 (enc_network hello)]" by (simp add: demo_writer_def len)
  then have "dev_radio dev = [writer_packet demo_raptorq ?w (1 # drop 37 (enc_network hello)),
      writer_packet demo_raptorq ?w (0 # take 37 (enc_network hello))]"
    by (simp add: dev(2) log_radio_def)
  then show ?thesis
    using dev(1) by (intro exI [of _ "demo_cid ''Test Chat''"] exI [of _ dev]) (simp add: hello_def)
qed

end
