(* ===== verification/T3_Firmware.thy ===== *)
theory T3_Firmware
  imports Firmware_Run
begin

text \<open>
  \<^verbatim>\<open>t3-v1-6-1/src/main.rs\<close>: the firmware of the other board, a separate program over an older radio crate,
  with constants, set-up and loop of its own. Its radio and clock have the interface \<open>esp_now\<close>, where
  \<open>en_now\<close> is \<^verbatim>\<open>current_millis\<close>; reading the random seed can fail here. The theorem shows that it does what
  the firmware of \<open>Network_Loop\<close> does, so that what is proved of one holds of both.
\<close>

definition t3_MEGA_BYTE :: nat where
  "t3_MEGA_BYTE = 1024"

definition t3_SLAB_SIZE :: nat where
  "t3_SLAB_SIZE = 1024"

definition t3_MAX_CHANNELS :: nat where
  "t3_MAX_CHANNELS = 2"

definition t3_MAX_NODES :: nat where
  "t3_MAX_NODES = 2"

definition t3_ESP_NOW_MTU :: u16 where
  "t3_ESP_NOW_MTU = 250"

definition t3_REPAIR_COUNT :: u32 where
  "t3_REPAIR_COUNT = 3"

subsection \<open>The loop\<close>

fun t3_broadcast_all ::
  "('d, 'k) raptorq \<Rightarrow> 'e esp_now \<Rightarrow> nat \<Rightarrow> 'k wire_writer \<times> 'e \<Rightarrow> (unit, wire_error) result \<times> 'e" where
  "t3_broadcast_all R E 0 (writer, esp_now) = (Ok (), esp_now)"
| "t3_broadcast_all R E (Suc n) (writer, esp_now) =
     (let (len, writer, buffer) = writer_next R writer (replicate 250 0) in
      or_return (case len of Ok len \<Rightarrow> expect (range_get buffer 0 len) | _ \<Rightarrow> Panic) esp_now (\<lambda>data.
      let (sent, esp_now) = en_send E esp_now (en_broadcast E) data in
      if sent then t3_broadcast_all R E n (writer, esp_now) else (Panic, esp_now)))"

text \<open>
  The body of the loop, for the state and the buffer that it keeps. The first part, which may end the
  turn (\<^verbatim>\<open>continue\<close>), says whether to go on.
\<close>

definition t3_receive ::
  "('c, 's, 'p, 'i, 'd, 'k) wire_deps \<Rightarrow> 'e esp_now \<Rightarrow> ('c, 's, 'p, 'i) client \<Rightarrow> (address, 'd) wire_state \<Rightarrow> 'e \<Rightarrow>
     (bool, wire_error) result \<times> (address, 'd) wire_state \<times> 'e" where
  "t3_receive W E client state esp_now =
     (case en_receive E esp_now of
        (None, esp_now) \<Rightarrow> (Ok True, state, esp_now)
      | (Some r, esp_now) \<Rightarrow>
          (let from = src_address r;
               (added, esp_now) =
                 (if dst_address r = en_broadcast E
                  then if \<not> en_peer_exists E esp_now from then en_add_peer E esp_now from else (True, esp_now)
                  else (True, esp_now)) in
           if added then
             (case receive_packet W state (dg_data r) from client of
                (Err e, state) \<Rightarrow> (Ok False, state, esp_now)
              | (Ok _, state) \<Rightarrow> (Ok True, state, esp_now)
              | (Panic, state) \<Rightarrow> (Panic, state, esp_now))
           else (Panic, state, esp_now)))"

definition t3_poll ::
  "('c, 's, 'p, 'i, 'd, 'k) wire_deps \<Rightarrow> 'e esp_now \<Rightarrow> channel_id list \<Rightarrow> ('c, 's, 'p, 'i) client \<Rightarrow>
     (address, 'd) wire_state \<times> u8 list \<times> 'e \<Rightarrow> (unit, wire_error) result \<times> (address, 'd) wire_state \<times> u8 list \<times> 'e" where
  "t3_poll W E channel_ids client s =
     (let (state, message_buffer, esp_now) = s;
          (now, esp_now) = en_now E esp_now in
      or_return (expect (en_peer_count E esp_now)) (state, message_buffer, esp_now) (\<lambda>total_count.
      let (result, state, message_buffer) =
            poll W state message_buffer now (ucast total_count) channel_ids t3_REPAIR_COUNT client in
      case result of
        Ok result \<Rightarrow>
          (case poll_writer result of
             Some writer \<Rightarrow>
               (let (sent, esp_now) = t3_broadcast_all (wd_raptorq W) E (packet_count writer) (writer, esp_now) in
                (sent, state, message_buffer, esp_now))
           | None \<Rightarrow> (Ok (), state, message_buffer, esp_now))
      | _ \<Rightarrow> (Panic, state, message_buffer, esp_now)))"

definition t3_turn ::
  "('c, 's, 'p, 'i, 'd, 'k) wire_deps \<Rightarrow> 'e esp_now \<Rightarrow> channel_id list \<Rightarrow> ('c, 's, 'p, 'i) client \<Rightarrow>
     (address, 'd) wire_state \<times> u8 list \<times> 'e \<Rightarrow> (unit, wire_error) result \<times> (address, 'd) wire_state \<times> u8 list \<times> 'e" where
  "t3_turn W E channel_ids client s =
     (let (state, message_buffer, esp_now) = s;
          (go_on, state, esp_now) = t3_receive W E client state esp_now in
      or_return go_on (state, message_buffer, esp_now) (\<lambda>go_on.
      if go_on then t3_poll W E channel_ids client (state, message_buffer, esp_now)
      else (Ok (), state, message_buffer, esp_now)))"

fun t3_turns ::
  "nat \<Rightarrow> ('c, 's, 'p, 'i, 'd, 'k) wire_deps \<Rightarrow> 'e esp_now \<Rightarrow> channel_id list \<Rightarrow> ('c, 's, 'p, 'i) client \<Rightarrow>
     (address, 'd) wire_state \<times> u8 list \<times> 'e \<Rightarrow> (unit, wire_error) result \<times> (address, 'd) wire_state \<times> u8 list \<times> 'e" where
  "t3_turns 0 W E channel_ids client s = (Ok (), s)"
| "t3_turns (Suc n) W E channel_ids client s =
     (let (r, s) = t3_turn W E channel_ids client s in
      or_return r s (\<lambda>_. t3_turns n W E channel_ids client s))"

definition t3_network_loop ::
  "nat \<Rightarrow> ('c, 's, 'p, 'i, 'd, 'k) wire_deps \<Rightarrow> 'e esp_now \<Rightarrow> channel_id \<Rightarrow> ('c, 's, 'p, 'i) client \<Rightarrow>
     u8 list static_allocation \<Rightarrow> 'e \<Rightarrow>
     (unit, wire_error) result \<times> (address, 'd) wire_state \<times> u8 list \<times> 'e" where
  "t3_network_loop n W E cid client MESSAGE_BUFFER esp_now =
     (let message_buffer = fst (take_mut MESSAGE_BUFFER);
          channel_ids = replicate 1 cid;
          state = wire_state_new t3_ESP_NOW_MTU in
      case message_buffer of
        Ok message_buffer \<Rightarrow> t3_turns n W E channel_ids client (state, message_buffer, esp_now)
      | _ \<Rightarrow> (Panic, state, [], esp_now))"

subsection \<open>The program\<close>

definition t3_get_test_keys :: "('rng, 's, 'p, 'sig) primitives \<Rightarrow> 's option \<Rightarrow> (('s, 'p) key_pair, 'e) result" where
  "t3_get_test_keys P parsed =
     bind_ok (expect parsed) (\<lambda>private_key. Ok \<lparr>kp_public = to_public_key P private_key, kp_private = private_key\<rparr>)"

text \<open>\<open>seed\<close> is what \<^verbatim>\<open>rng.read\<close> gives, \<open>None\<close> when it fails.\<close>

definition t3_set_up ::
  "('rng, 's, 'p, 'sig) primitives \<Rightarrow> stored serde \<Rightarrow> 'p protocol message serde \<Rightarrow> sealed_envelope serde \<Rightarrow>
     'p new_channel serde \<Rightarrow> u8 list option \<Rightarrow> 's option \<Rightarrow> u8 list static_allocation \<Rightarrow>
     ('p, mem_io) client_channels static_allocation \<Rightarrow>
     (channel_id \<times> ('rng rust_crypto, 's, 'p, mem_io) client, client_error) result" where
  "t3_set_up P SR SM SE SN seed parsed MEMIO_BUFFER CHANNELS_CONST =
     (let D = app_deps t3_SLAB_SIZE P SR SM SE SN t3_MAX_NODES t3_MAX_CHANNELS in
      bind_ok (expect seed) (\<lambda>seed.
      bind_ok (unwrap (rust_crypto_new P seed)) (\<lambda>crypto.
      bind_ok (t3_get_test_keys P parsed) (\<lambda>key_pair.
      bind_ok (unwrap (fst (take_mut MEMIO_BUFFER))) (\<lambda>data.
      bind_ok (unwrap (mem_io_new t3_SLAB_SIZE data)) (\<lambda>io.
      bind_ok (unwrap (fst (take_mut CHANNELS_CONST))) (\<lambda>channels.
      let client = client_new D key_pair crypto channels;
          (channel_id, client) = init_chat D client ''Test Chat'' io in
      bind_ok (unwrap channel_id) (\<lambda>channel_id.
      bind_ok (unwrap (client_list_nodes client channel_id)) (\<lambda>known.
      Ok (channel_id, client))))))))))"

definition t3_main ::
  "nat \<Rightarrow> ('rng, 's, 'p, 'sig) primitives \<Rightarrow> stored serde \<Rightarrow> 'p protocol message serde \<Rightarrow> sealed_envelope serde \<Rightarrow>
     'p new_channel serde \<Rightarrow> ('d, 'k) raptorq \<Rightarrow> network_protocol serde \<Rightarrow> 'e esp_now \<Rightarrow> u8 list option \<Rightarrow> 's option \<Rightarrow>
     u8 list static_allocation \<Rightarrow> ('p, mem_io) client_channels static_allocation \<Rightarrow> u8 list static_allocation \<Rightarrow>
     'e option \<Rightarrow> (unit, wire_error) result \<times> ((address, 'd) wire_state \<times> u8 list \<times> 'e) option" where
  "t3_main n P SR SM SE SN R SP E seed parsed MEMIO_BUFFER CHANNELS_CONST MESSAGE_BUFFER esp_now =
     (let W = \<lparr>wd_client = app_deps t3_SLAB_SIZE P SR SM SE SN t3_MAX_NODES t3_MAX_CHANNELS, wd_raptorq = R, wd_messages = SP\<rparr> in
      or_return (unwrap (t3_set_up P SR SM SE SN seed parsed MEMIO_BUFFER CHANNELS_CONST)) None (\<lambda>(channel_id, client).
      or_return (expect esp_now) None (\<lambda>esp_now.
      map_prod id Some (t3_network_loop n W E channel_id client MESSAGE_BUFFER esp_now))))"

subsection \<open>The same firmware\<close>

abbreviation parts :: "('d, 'e) device \<Rightarrow> (address, 'd) wire_state \<times> u8 list \<times> 'e" where
  "parts dev \<equiv> (dev_state dev, dev_buffer dev, dev_radio dev)"

lemma t3_constants: "t3_SLAB_SIZE = SLAB_SIZE" "t3_ESP_NOW_MTU = ESP_NOW_MTU" "t3_REPAIR_COUNT = REPAIR_COUNT"
  "t3_MAX_NODES = 2" "t3_MAX_CHANNELS = 2"
  by (simp_all add: t3_SLAB_SIZE_def SLAB_SIZE_def t3_ESP_NOW_MTU_def ESP_NOW_MTU_def t3_REPAIR_COUNT_def
      REPAIR_COUNT_def t3_MAX_NODES_def t3_MAX_CHANNELS_def)

lemma t3_broadcast_all_same: "t3_broadcast_all R E n (w, radio) = send_packets R E n w radio"
proof (induction n arbitrary: w radio)
  case (Suc n)
  obtain len w' buffer where "writer_next R w (replicate 250 0) = (len, w', buffer)" by (cases "writer_next R w (replicate 250 0)")
  then show ?case by (cases len) (simp_all add: Suc.IH Let_def split: option.split prod.split)
qed simp

lemma t3_poll_same: "t3_poll W E cids client (parts dev) = map_prod id parts (poll_turn W E client cids dev)"
proof -
  obtain now radio where now: "en_now E (dev_radio dev) = (now, radio)" by fastforce
  show ?thesis
  proof (cases "en_peer_count E radio")
    case (Some k)
    obtain r s b where p: "poll W (dev_state dev) (dev_buffer dev) now (ucast k) cids REPAIR_COUNT client = (r, s, b)"
      by (cases "poll W (dev_state dev) (dev_buffer dev) now (ucast k) cids REPAIR_COUNT client")
    show ?thesis
      by (cases r) (simp_all add: t3_poll_def poll_turn_def now Some p t3_constants t3_broadcast_all_same split: option.split prod.split)
  qed (simp add: t3_poll_def poll_turn_def now)
qed

lemma t3_turn_same: "t3_turn W E cids client (parts dev) = map_prod id parts (loop_turn W E client cids dev)"
proof -
  obtain received radio where got: "en_receive E (dev_radio dev) = (received, radio)" by fastforce
  note poll = t3_poll_same [of W E cids client "dev\<lparr>dev_radio := e, dev_state := s\<rparr>" for e s, simplified]
  show ?thesis
  proof (cases received)
    case None
    then show ?thesis
      using t3_poll_same [of W E cids client "dev\<lparr>dev_radio := radio\<rparr>"]
      by (simp add: t3_turn_def t3_receive_def loop_turn_def got)
  next
    case (Some r)
    obtain added radio' where peer: "learn_peer E radio r = (added, radio')" by fastforce
    obtain outcome s where rp: "receive_packet W (dev_state dev) (dg_data r) (src_address r) client = (outcome, s)" by fastforce
    have "t3_receive W E client (dev_state dev) (dev_radio dev) =
        (if added then case outcome of Ok _ \<Rightarrow> (Ok True, s, radio') | Err e \<Rightarrow> (Ok False, s, radio') | Panic \<Rightarrow> (Panic, s, radio')
         else (Panic, dev_state dev, radio'))"
      using peer by (auto simp: t3_receive_def learn_peer_def got Some rp Let_def split: if_splits result.split)
    then show ?thesis
      using peer rp poll [of s radio']
      by (cases outcome) (simp_all add: t3_turn_def loop_turn_def got Some)
  qed
qed

lemma t3_turns_same: "t3_turns n W E cids client (parts dev) = map_prod id parts (loop_turns n W E client cids dev)"
proof (induction n arbitrary: dev)
  case (Suc n)
  obtain r dev' where "loop_turn W E client cids dev = (r, dev')" by fastforce
  then show ?case using t3_turn_same [of W E cids client dev] by (cases r) (simp_all add: Suc.IH)
qed simp

lemma t3_network_loop_same:
  "t3_network_loop n W E cid client MESSAGE_BUFFER radio = map_prod id parts (network_loop n W E cid client MESSAGE_BUFFER radio)"
proof -
  obtain b B where b: "take_mut MESSAGE_BUFFER = (b, B)" by fastforce
  show ?thesis
    using t3_turns_same [of n W E "[cid]" client "\<lparr>dev_radio = radio, dev_state = wire_state_new ESP_NOW_MTU, dev_buffer = buffer\<rparr>" for buffer]
    by (cases b) (simp_all add: t3_network_loop_def network_loop_def b t3_constants)
qed

lemma t3_set_up_same:
  "t3_set_up P SR SM SE SN seed parsed MB CH =
    bind_ok (expect seed) (\<lambda>seed. bind_ok (get_test_keys P parsed) (\<lambda>kp. set_up P SR SM SE SN seed kp MB CH))"
proof (cases seed)
  case (Some x)
  show ?thesis
    by (cases parsed; cases "rust_crypto_new P x")
      (simp_all add: t3_set_up_def set_up_def t3_get_test_keys_def get_test_keys_def Some t3_constants)
qed (simp add: t3_set_up_def)

text \<open>
  C31. The two firmwares do the same. Over any radio, for any buffers and any number of turns, the program of
  the other board ends in the same result and leaves its radio, its wire state and its buffer as the
  one of \<open>Network_Loop\<close> does, unless reading its random seed fails, which it checks and the other does not.
\<close>

theorem firmwares_agree:
  "t3_main n P SR SM SE SN R SP E seed parsed MB CH MSG radio =
    (case seed of
       None \<Rightarrow> (Panic, None)
     | Some seed \<Rightarrow>
         (let (r, dev) = firmware_main n P SR SM SE SN R SP E seed parsed MB CH MSG radio in
          (r, map_option (\<lambda>dev. (dev_state dev, dev_buffer dev, dev_radio dev)) dev)))"
proof (cases seed)
  case (Some x)
  obtain r where r: "bind_ok (get_test_keys P parsed) (\<lambda>kp. set_up P SR SM SE SN x kp MB CH) = r" by blast
  then have "t3_set_up P SR SM SE SN seed parsed MB CH = r" by (simp add: t3_set_up_same Some)
  then show ?thesis
    using r by (cases r; cases radio)
      (auto simp: t3_main_def firmware_main_def Some t3_network_loop_same t3_constants split: prod.split simp flip: firmware_wire_def)
qed (simp add: t3_main_def t3_set_up_same)

end
