(* ===== verification/Spec2Isabelle.thy ===== *)
theory Spec2Isabelle
  imports Channel_Log Client_Exchange Client_Life Crypto_Properties Convergence Device_Logs Wire_Run Wire_Interleaving T3_Firmware
begin

text \<open>
  Finder is a chat over packet radio for small devices: every channel is a set of append-only sequences
  of signed messages, one for each device, which the devices exchange without a server. This
  development models the crate \<^verbatim>\<open>src/protocol\<close> and the parts of the two firmwares in \<^verbatim>\<open>src/s3-dongle\<close> and
  \<^verbatim>\<open>src/t3-v1-6-1\<close> that run it, and proves what makes the parts correct.

  \<^bold>\<open>The parts and how they interact.\<close> A \<^emph>\<open>client\<close> (\<^verbatim>\<open>lib.rs\<close>) has a map of channels. A channel is a
  \<^emph>\<open>state\<close> (\<^verbatim>\<open>channel.rs\<close>: the vector clock and the keys of the known nodes), a \<^emph>\<open>chat\<close> (\<^verbatim>\<open>chat.rs\<close>: owner
  and members) and a \<^emph>\<open>storage\<close> (\<^verbatim>\<open>storage.rs\<close>, \<^verbatim>\<open>slab.rs\<close>: the log of envelopes) over a \<^emph>\<open>device\<close>
  (\<^verbatim>\<open>mem_io.rs\<close>). Sending addresses a message with the clock, seals it (\<^verbatim>\<open>crypto.rs\<close>, \<^verbatim>\<open>crypto/rust.rs\<close>), receives
  it oneself and logs the envelope; receiving opens, checks and logs. \<^verbatim>\<open>sync.rs\<close> is the data of a
  synchronisation. The \<^emph>\<open>wire\<close> (\<^verbatim>\<open>wire.rs\<close>) turns messages into packets (\<^verbatim>\<open>wire/packets.rs\<close>) and back, and the
  \<^emph>\<open>firmware\<close> drives wire and client from its loop, with its memory from \<^verbatim>\<open>heap_type.rs\<close>.

  \<^bold>\<open>Theories.\<close>
  \<^item> \<open>Finder_Prelude\<close>: results, checked arithmetic, slices, byte orders, the bounded containers.
    \<open>Key_Search\<close>: the standard library's binary search with its contract \<open>key_search\<close>. \<open>Ids\<close>: the
    identifiers and their order.
  \<^item> \<open>Channel\<close>: \<^verbatim>\<open>ChannelState\<close>, its invariant \<open>channel_inv\<close> and the rule \<open>receive_verdict\<close> that its
    operations implement. \<open>Channel_Log\<close>: the histories of many devices.
  \<^item> \<open>Chat\<close>: \<^verbatim>\<open>Chat\<close> and its invariant \<open>chat_inv\<close>.
  \<^item> \<open>Storage\<close>: slabs, cursors, writer, searches, and the trait \<^verbatim>\<open>IO\<close> as a record. \<open>Slab_Store\<close>: what the bytes
    of a slab mean, and the contracts \<open>slab_source\<close> and \<open>slab_io\<close> of a device, under which the searches
    and the writer are proved. \<open>Mem_IO\<close>: \<^verbatim>\<open>MemIO\<close>, which meets both. \<open>Mem_Store\<close>: the store over it.
  \<^item> \<open>Crypto\<close>: envelopes, the trait \<^verbatim>\<open>Crypto\<close> and its contract \<open>sealing\<close>. \<open>Rust_Crypto\<close>: \<^verbatim>\<open>RustCrypto\<close>, which
    meets it. \<open>Crypto_Properties\<close>: what a signature protects.
  \<^item> \<open>Sync\<close>, \<open>Client\<close>, \<open>Client_Sync\<close>: the methods of \<^verbatim>\<open>Client\<close>. \<open>Client_Facts\<close>: what they do to a channel,
    proved from the contracts in \<open>client_setup\<close>, which the firmware's choice of parts (\<open>app_deps\<close>) meets.
    \<open>Client_Properties\<close>, \<open>Client_Exchange\<close>: sending and receiving on one device and between two.
    \<open>Client_Start\<close>, \<open>Client_Reopen\<close>, \<open>Client_Life\<close>: making a channel, and opening it again.
    \<open>Sync_Properties\<close>: the merge of the clocks and the buffer of envelopes.
  \<^item> \<open>Log_Run\<close>: the abstract machine of a channel, which runs over a log and is determined by it; a \<open>replica\<close> is
    a channel at the end of such a run. \<open>Following\<close>: every device of a channel without a torn call has one, and reading a buffer
    is running its envelopes. \<open>Catch_Up\<close>: replication and one round of synchronisation between two devices.
    \<open>Merging\<close>, \<open>Converging\<close>: the machine over the log of a device that has gone its own way (\<open>log_merge\<close>,
    \<open>diverged\<close>) and a round of synchronisation with it. \<open>Senders\<close>: the chain of a node's messages in a log.
    \<open>Convergence\<close>: two devices that have written independently agree after two rounds. \<open>Devices\<close>: the system
    of all devices of a channel (\<open>network\<close>), and that the bytes of a store determine what it holds.
    \<open>Device_Logs\<close>: what the logs of the devices have to do with each other in every run of it.
  \<^item> \<open>Wire_Packets\<close>, \<open>Wire\<close>: packets and \<^verbatim>\<open>WireState\<close>. \<open>Wire_Facts\<close>, \<open>Wire_Run\<close>, \<open>Wire_Properties\<close>: what arrives, the
    runs of a device, and messages from one device to another. \<open>Wire_Interleaving\<close>: the packets of several
    senders at once. \<open>Wire_Exchange\<close>: a hello and the request it causes.
  \<^item> \<open>Heap_Type\<close>, \<open>Network_Loop\<close>: static allocations, \<^verbatim>\<open>main\<close> and the loop of \<^verbatim>\<open>s3-dongle\<close>. \<open>Firmware\<close>, \<open>Firmware_Run\<close>:
    its sizes and its first turn. \<open>T3_Firmware\<close>: the program of the other board, which does the same.
  \<^item> \<open>Demo\<close>, \<open>Start_Demo\<close>, \<open>Replica_Demo\<close>, \<open>Wire_Demo\<close>: concrete parameters and devices for the witnesses.

  \<^bold>\<open>How the code is read.\<close> A struct is a \<open>record\<close>, an enum a \<open>datatype\<close>; names are the code's, with a
  prefix where two structs share a field. A call ends with \<open>Ok\<close>, \<open>Err\<close> or \<open>Panic\<close>; a method with
  \<^verbatim>\<open>&mut self\<close> returns the state it leaves on every path, early returns included. Integers keep their
  width as words; \<^verbatim>\<open>usize\<close> is a natural number below \<open>usize_limit\<close> = 2 to the 32, the size of the devices, and its
  operators panic when they overflow, as they do in a build with overflow checks. The containers of
  \<^verbatim>\<open>heapless\<close> are lists (maps are association lists) with the capacity checked where the code inserts.
  Const generics are arguments. Log output is left out. A loop over data is a recursive function; the
  replay loop of \<^verbatim>\<open>open_chat\<close>, which follows cursors, is a \<open>partial_function\<close>, proved to return; the endless loop of
  the firmware is \<open>loop_turns n\<close>, the state after any number of turns.

  \<^bold>\<open>Parameters.\<close> What the sources only call is an argument: \<^verbatim>\<open>postcard\<close> (\<open>serde\<close>, with \<open>serde_ok\<close>: what is
  written is read back, a full buffer is an error, reading does not panic; \<open>serde_ok\<close> asks this of
  all values, also of lists longer than the capacities of the code's types, which the code does not build), the cryptographic crates
  (\<open>primitives\<close>, with \<open>primitives_ok\<close>; no collision resistance is assumed, a theorem that needs it names the collision), \<^verbatim>\<open>raptorq\<close> (\<open>raptorq_ok\<close>: all packets of a message, in any order, give
  the message) and the radio (\<open>esp_now\<close>). Every contract has an instance in the \<open>Demo\<close> theories.

  \<^bold>\<open>What the theorems show.\<close> Of a channel: receiving is decided by the clock alone, each device has a
  prefix of each sender's messages in order and once, gaps are named. Of the store: what is committed is found
  and read in order; what does not fit is refused without loss. Of the client: every outcome of
  sending and receiving, with the log; a message sent is received by a peer; no received bytes panic a device
  with room; making a channel, and that opening its log restores exactly the channel on the owner's
  device. Of replication: as long as no call on a device was \<open>torn\<close> (panicked, or failed after it had changed the channel),
  the log of the device determines its channel, so equal logs mean equal channels; one round of synchronisation with a buffer that takes the log brings a
  device that is behind to the state, chat and log of the other. In every run of a system of devices, failing calls
  included, the logs of the devices without a torn call have of each such device a prefix of what it sent; and two devices that have sent chat messages independently agree on
  clock, keys, chat and every node's messages after one round in each direction. Of a synchronisation's parts: the merge is
  the union of the clocks, the buffer holds what is lacking. Of the wire: messages of several senders at
  once are processed exactly once each, whatever the interleaving and order of their packets; every run is well-formed; hellos are paced, and the hello of one device makes
  another send a request. Of the firmware: from the start of \<^verbatim>\<open>main\<close> on, the first turn broadcasts a hello, every
  packet once; memory is handed out once; both boards do the same.
  Other theorems state where the code does not do what it means to: a chat can be taken over, adding a
  known user blocks the sender, a member cannot open its channel again, a full store panics (with the
  sizes of the firmware already at the first message), a junk message panics the receiver, an unknown
  channel is never requested, the signature does not cover the kind of the recipient, a request is never
  answered, synchronisation with a buffer smaller than the log stops for good.

  \<^bold>\<open>Not modelled.\<close> In both firmwares the initialisation of peripherals, heap and logger, the text of the embedded
  test key (what parsing it gives is an argument), and in \<^verbatim>\<open>s3-dongle\<close> the code behind the endless loop; the
  conversions between error types, which are the constructors; a commented-out database header; tests and
  build files. Timing and lost datagrams are modelled only in that any sequence of datagrams may
  arrive; interrupts only in that calls of \<^verbatim>\<open>take_mut\<close> come in any order.
\<close>

end
